(* ===== verification/Prelude.thy ===== *)
theory Prelude
  imports Main "HOL-Library.Word"
begin

text \<open>
  Shared vocabulary of the development: bytes, the two kinds of failure a Rust function can
  have (an \<open>Err\<close> it returns, a fault that aborts it), the bind of the sum type that models
  the \<open>?\<close> operator, the string operations of Rust's standard library that the sources use,
  and generic facts on association lists and maps.
\<close>

type_synonym byte = "8 word"
type_synonym bytes = "byte list"
type_synonym u16 = "16 word"
type_synonym u32 = "32 word"
type_synonym u64 = "64 word"

text \<open>Time is a number of nanoseconds on the monotonic clock of \<open>std::time::Instant\<close>.\<close>

type_synonym instant = nat

abbreviation secs :: "nat \<Rightarrow> nat" where
  "secs n \<equiv> n * 1000000000"

abbreviation millis :: "nat \<Rightarrow> nat" where
  "millis n \<equiv> n * 1000000"

text \<open>
  \<open>Instant::duration_since\<close> saturates at zero, as subtraction on natural numbers does.
\<close>

abbreviation duration_since :: "instant \<Rightarrow> instant \<Rightarrow> nat" where
  "duration_since now earlier \<equiv> now - earlier"

text \<open>
  A fault is what safe code must never do (touch or free a box that is not live) or a panic
  (\<open>unwrap\<close> on \<open>None\<close>, \<open>todo!\<close>); the binary is built with \<open>panic = "abort"\<close>.
\<close>

datatype fault =
    Use_After_Free nat
  | Double_Free nat
  | Panic string

section \<open>Results\<close>

named_theorems result_simps \<open>rules for the sum type as a result\<close>

definition rbind :: "'e + 'a \<Rightarrow> ('a \<Rightarrow> 'e + 'b) \<Rightarrow> 'e + 'b" where
  "rbind m f = (case m of Inl e \<Rightarrow> Inl e | Inr x \<Rightarrow> f x)"

lemma rbind_Inl [simp, result_simps]: "rbind (Inl e) f = Inl e"
  by (simp add: rbind_def)

lemma rbind_Inr [simp, result_simps]: "rbind (Inr x) f = f x"
  by (simp add: rbind_def)

lemma rbind_eq_Inr [result_simps]:
  "rbind m f = Inr y \<longleftrightarrow> (\<exists>x. m = Inr x \<and> f x = Inr y)"
  by (cases m) auto

lemma rbind_eq_Inl [result_simps]:
  "rbind m f = Inl e \<longleftrightarrow> m = Inl e \<or> (\<exists>x. m = Inr x \<and> f x = Inl e)"
  by (cases m) auto

lemma rbind_assoc: "rbind (rbind m f) g = rbind m (\<lambda>x. rbind (f x) g)"
  by (cases m) auto

text \<open>\<open>Option::ok_or\<close>.\<close>

definition ok_or :: "'a option \<Rightarrow> 'e \<Rightarrow> 'e + 'a" where
  "ok_or x e = (case x of None \<Rightarrow> Inl e | Some a \<Rightarrow> Inr a)"

lemma ok_or_simps [simp, result_simps]: "ok_or None e = Inl e" "ok_or (Some a) e = Inr a"
  by (simp_all add: ok_or_def)

lemma ok_or_eq_Inr [result_simps]: "ok_or x e = Inr a \<longleftrightarrow> x = Some a"
  by (cases x) auto

lemma ok_or_eq_Inl [result_simps]: "ok_or x e = Inl d \<longleftrightarrow> x = None \<and> d = e"
  by (cases x) auto

section \<open>Strings of the standard library\<close>

text \<open>\<open>str::split(c)\<close>: always at least one part.\<close>

fun split_on :: "char \<Rightarrow> string \<Rightarrow> string list" where
  "split_on c [] = [[]]"
| "split_on c (x # xs) =
     (if x = c then [] # split_on c xs
      else (case split_on c xs of [] \<Rightarrow> [[x]] | p # ps \<Rightarrow> (x # p) # ps))"

text \<open>\<open>str::trim\<close> on the ASCII strings that header values are.\<close>

definition is_ws :: "char \<Rightarrow> bool" where
  "is_ws c = (c \<in> {CHR '' '', CHR 0x09, CHR 0x0A, CHR 0x0B, CHR 0x0C, CHR 0x0D})"

definition trim :: "string \<Rightarrow> string" where
  "trim s = rev (dropWhile is_ws (rev (dropWhile is_ws s)))"

text \<open>\<open>str::strip_prefix\<close> and \<open>str::starts_with\<close>.\<close>

fun strip_prefix :: "string \<Rightarrow> string \<Rightarrow> string option" where
  "strip_prefix [] s = Some s"
| "strip_prefix (p # ps) [] = None"
| "strip_prefix (p # ps) (c # cs) = (if p = c then strip_prefix ps cs else None)"

definition starts_with :: "string \<Rightarrow> string \<Rightarrow> bool" where
  "starts_with s p = (strip_prefix p s \<noteq> None)"

text \<open>\<open>str::trim_end_matches(c)\<close>.\<close>

definition trim_end_matches :: "char \<Rightarrow> string \<Rightarrow> string" where
  "trim_end_matches c s = rev (dropWhile (\<lambda>x. x = c) (rev s))"

lemma split_on_not_Nil [simp]: "split_on c s \<noteq> []"
  by (induction s) (auto split: list.splits)

lemma split_on_none [simp]: "c \<notin> set s \<Longrightarrow> split_on c s = [s]"
  by (induction s) auto

lemma split_on_append: "c \<notin> set s \<Longrightarrow> split_on c (s @ c # t) = s # split_on c t"
  by (induction s) auto

lemma split_on_parts: "p \<in> set (split_on c s) \<Longrightarrow> c \<notin> set p"
proof (induction s arbitrary: p)
  case Nil
  then show ?case by simp
next
  case (Cons x xs)
  then show ?case by (fastforce split: if_splits list.splits)
qed

lemma strip_prefix_Some_iff: "strip_prefix p s = Some r \<longleftrightarrow> s = p @ r"
  by (induction p s rule: strip_prefix.induct) auto

lemma strip_prefix_append [simp]: "strip_prefix p (p @ r) = Some r"
  by (simp add: strip_prefix_Some_iff)

lemma starts_with_iff: "starts_with s p \<longleftrightarrow> (\<exists>r. s = p @ r)"
  by (auto simp: starts_with_def strip_prefix_Some_iff)

lemma trim_no_ws: "s \<noteq> [] \<Longrightarrow> \<not> is_ws (hd s) \<Longrightarrow> \<not> is_ws (last s) \<Longrightarrow> trim s = s"
  by (simp add: trim_def dropWhile_eq_self_iff [THEN iffD2] hd_rev)

lemma trim_end_matches_id: "s = [] \<or> last s \<noteq> c \<Longrightarrow> trim_end_matches c s = s"
  by (cases s rule: rev_cases) (auto simp: trim_end_matches_def)

lemma trim_end_matches_last: "trim_end_matches c s \<noteq> [] \<Longrightarrow> last (trim_end_matches c s) \<noteq> c"
  using hd_dropWhile [of "\<lambda>x. x = c" "rev s"] by (simp add: trim_end_matches_def last_rev)

section \<open>Association lists and maps\<close>

lemma map_of_filter_fst:
  "map_of (filter (\<lambda>e. fst e \<noteq> a) xs) = (map_of xs)(a := None)"
  by (induction xs) (auto simp: fun_eq_iff)

lemma distinct_fst_filter: "distinct (map f xs) \<Longrightarrow> distinct (map f (filter P xs))"
  by (induction xs) auto

lemma map_of_SomeI_distinct:
  "distinct (map fst xs) \<Longrightarrow> (a, b) \<in> set xs \<Longrightarrow> map_of xs a = Some b"
  by simp

lemma distinct_map_inj:
  "distinct (map f xs) \<Longrightarrow> x \<in> set xs \<Longrightarrow> y \<in> set xs \<Longrightarrow> f x = f y \<Longrightarrow> x = y"
  by (auto simp: distinct_map inj_on_def)

section \<open>Hash maps with an iteration order\<close>

text \<open>
  A \<open>HashMap\<close> whose iteration the code uses: its entries in that order, each key once. The order is
  unspecified, so what holds for every list holds for every order. Equality is that of
  \<open>PartialEq for HashMap\<close>: same length, and every entry of the left is in the right.
\<close>

type_synonym ('k, 'v) hash = "('k \<times> 'v) list"

definition hash_ok :: "('k, 'v) hash \<Rightarrow> bool" where
  "hash_ok h = distinct (map fst h)"

definition hash_eq :: "('k, 'v) hash \<Rightarrow> ('k, 'v) hash \<Rightarrow> bool" where
  "hash_eq a b = (length a = length b \<and> list_all (\<lambda>(k, v). map_of b k = Some v) a)"

fun hash_insert :: "'k \<Rightarrow> 'v \<Rightarrow> ('k, 'v) hash \<Rightarrow> ('k, 'v) hash" where
  "hash_insert k v [] = [(k, v)]"
| "hash_insert k v ((k', v') # h) = (if k' = k then (k, v) # h else (k', v') # hash_insert k v h)"

definition hash_remove :: "'k \<Rightarrow> ('k, 'v) hash \<Rightarrow> ('k, 'v) hash" where
  "hash_remove k h = filter (\<lambda>e. fst e \<noteq> k) h"

named_theorems hash_simps \<open>hash maps as finite maps\<close>

lemma map_of_hash_insert [simp, hash_simps]: "map_of (hash_insert k v h) = (map_of h)(k \<mapsto> v)"
  by (induction k v h rule: hash_insert.induct) (auto simp: fun_eq_iff)

lemma map_of_hash_remove [simp, hash_simps]: "map_of (hash_remove k h) = (map_of h)(k := None)"
  by (simp add: hash_remove_def map_of_filter_fst)

lemma fst_hash_insert: "fst ` set (hash_insert k v h) = insert k (fst ` set h)"
  by (induction k v h rule: hash_insert.induct) auto

lemma hash_ok_insert [simp, intro]: "hash_ok h \<Longrightarrow> hash_ok (hash_insert k v h)"
  unfolding hash_ok_def
  by (induction k v h rule: hash_insert.induct) (auto simp: fst_hash_insert)

lemma hash_ok_remove [simp, intro]: "hash_ok h \<Longrightarrow> hash_ok (hash_remove k h)"
  by (simp add: hash_ok_def hash_remove_def distinct_fst_filter)

lemma hash_ok_Nil [simp]: "hash_ok []"
  by (simp add: hash_ok_def)

lemma hash_eq_iff:
  assumes "hash_ok a" "hash_ok b"
  shows "hash_eq a b \<longleftrightarrow> map_of a = map_of b"
proof
  assume eq: "hash_eq a b"
  then have sub: "set a \<subseteq> set b"
    by (auto simp: hash_eq_def list_all_iff dest: map_of_SomeD)
  have "card (set a) = length a" "card (set b) = length b"
    using assms by (simp_all add: hash_ok_def distinct_card distinct_map)
  with eq sub have "set a = set b"
    by (intro card_subset_eq) (simp_all add: hash_eq_def)
  then show "map_of a = map_of b"
    using assms by (simp add: hash_ok_def map_of_inject_set)
next
  assume eq: "map_of a = map_of b"
  then have "set a = set b"
    using assms by (simp add: hash_ok_def map_of_inject_set)
  moreover have "card (set a) = length a" "card (set b) = length b"
    using assms by (simp_all add: hash_ok_def distinct_card distinct_map)
  ultimately show "hash_eq a b"
    using assms by (auto simp: hash_eq_def list_all_iff hash_ok_def)
qed

lemma hash_eq_refl [simp]: "hash_ok a \<Longrightarrow> hash_eq a a"
  by (simp add: hash_eq_iff)

text \<open>\<open>str::as_bytes\<close>; strings are modelled by their bytes.\<close>

definition as_byte :: "char \<Rightarrow> byte" where
  "as_byte c = of_nat (of_char c)"

definition as_bytes :: "string \<Rightarrow> bytes" where
  "as_bytes s = map as_byte s"

lemma as_bytes_inj: "as_bytes s = as_bytes t \<longleftrightarrow> s = t"
proof -
  have u: "unat (as_byte c) = of_char c" for c
    by (simp add: as_byte_def unat_of_nat)
  have "inj as_byte"
  proof (rule injI)
    fix c d :: char
    assume "as_byte c = as_byte d"
    then have "(of_char c :: nat) = of_char d" by (metis u)
    then show "c = d" by (simp add: of_char_eq_iff)
  qed
  then show ?thesis by (simp add: as_bytes_def inj_map_eq_map)
qed

end
