(* ===== verification/Conn.thy ===== *)
theory Conn
  imports Prelude
begin

text \<open>
  A byte stream as the handlers see one: the bytes the peer has sent (after which the stream
  ends), the bytes written to the peer, and how many more can be written before the transport
  fails. Actions on a state return the error or the value together with the state, because a
  failed read or write leaves its effects behind. Errors are those of \<open>anyhow\<close>.
\<close>

datatype err =
    Io string
  | Msg string
  | Version_Mismatched byte byte
  | Context string err

type_synonym ('s, 'a) act = "'s \<Rightarrow> (err + 'a) \<times> 's"

definition act_return :: "'a \<Rightarrow> ('s, 'a) act" where
  "act_return x s = (Inr x, s)"

definition act_fail :: "err \<Rightarrow> ('s, 'a) act" where
  "act_fail e s = (Inl e, s)"

text \<open>The \<open>?\<close> operator.\<close>

definition act_bind :: "('s, 'a) act \<Rightarrow> ('a \<Rightarrow> ('s, 'b) act) \<Rightarrow> ('s, 'b) act" where
  "act_bind p f s = (case p s of (Inl e, s') \<Rightarrow> (Inl e, s') | (Inr x, s') \<Rightarrow> f x s')"

definition with_context :: "string \<Rightarrow> ('s, 'a) act \<Rightarrow> ('s, 'a) act" where
  "with_context msg p s = (case p s of (Inl e, s') \<Rightarrow> (Inl (Context msg e), s') | (Inr x, s') \<Rightarrow> (Inr x, s'))"

named_theorems act_simps \<open>rules for actions\<close>

lemma act_return_apply [simp, act_simps]: "act_return x s = (Inr x, s)"
  by (simp add: act_return_def)

lemma act_fail_apply [simp, act_simps]: "act_fail e s = (Inl e, s)"
  by (simp add: act_fail_def)

lemma act_bind_Inr: "p s = (Inr x, s') \<Longrightarrow> act_bind p f s = f x s'"
  by (simp add: act_bind_def)

lemma act_bind_Inl: "p s = (Inl e, s') \<Longrightarrow> act_bind p f s = (Inl e, s')"
  by (simp add: act_bind_def)

lemma act_bind_eq_Inr:
  "act_bind p f s = (Inr y, s'') \<longleftrightarrow> (\<exists>x s'. p s = (Inr x, s') \<and> f x s' = (Inr y, s''))"
  by (auto simp: act_bind_def split: prod.splits sum.splits)

lemma act_bind_eq_Inl:
  "act_bind p f s = (Inl e, s'') \<longleftrightarrow>
    p s = (Inl e, s'') \<or> (\<exists>x s'. p s = (Inr x, s') \<and> f x s' = (Inl e, s''))"
  by (auto simp: act_bind_def split: prod.splits sum.splits)

lemma act_bind_return [simp]: "act_bind (act_return x) f = f x"
  by (simp add: act_bind_def fun_eq_iff)

lemma act_bind_fail [simp]: "act_bind (act_fail e) f = act_fail e"
  by (simp add: act_bind_def fun_eq_iff)

lemma with_context_eq_Inr: "with_context msg p s = (Inr x, s') \<longleftrightarrow> p s = (Inr x, s')"
  by (auto simp: with_context_def split: prod.splits sum.splits)

lemma with_context_Inr: "p s = (Inr x, s') \<Longrightarrow> with_context msg p s = (Inr x, s')"
  by (simp add: with_context_def)

lemma with_context_Inl: "p s = (Inl e, s') \<Longrightarrow> with_context msg p s = (Inl (Context msg e), s')"
  by (simp add: with_context_def)

section \<open>Streams\<close>

record conn =
  inp :: bytes
  sent :: bytes
  room :: "nat option"

definition fresh_conn :: "bytes \<Rightarrow> conn" where
  "fresh_conn bs = \<lparr>inp = bs, sent = [], room = None\<rparr>"

text \<open>
  \<open>AsyncReadExt::read_exact\<close>: all \<open>n\<close> bytes, or an error when the stream ends before (what was
  there is consumed).
\<close>

definition read_exact :: "nat \<Rightarrow> (conn, bytes) act" where
  "read_exact n c =
     (if length (inp c) < n then (Inl (Io ''early eof''), c\<lparr>inp := []\<rparr>)
      else (Inr (take n (inp c)), c\<lparr>inp := drop n (inp c)\<rparr>))"

text \<open>\<open>AsyncWriteExt::write_all\<close>: when the transport fails part of the way, a prefix has left.\<close>

definition write_all :: "bytes \<Rightarrow> (conn, unit) act" where
  "write_all bs c =
     (case room c of
        None \<Rightarrow> (Inr (), c\<lparr>sent := sent c @ bs\<rparr>)
      | Some n \<Rightarrow>
          if length bs \<le> n then (Inr (), c\<lparr>sent := sent c @ bs, room := Some (n - length bs)\<rparr>)
          else (Inl (Io ''broken pipe''), c\<lparr>sent := sent c @ take n bs, room := Some 0\<rparr>))"

lemma read_exact_append [simp]:
  "length bs = n \<Longrightarrow> read_exact n (c\<lparr>inp := bs @ rest\<rparr>) = (Inr bs, c\<lparr>inp := rest\<rparr>)"
  by (simp add: read_exact_def)

lemma read_exact_ok:
  "inp c = bs @ rest \<Longrightarrow> length bs = n \<Longrightarrow> read_exact n c = (Inr bs, c\<lparr>inp := rest\<rparr>)"
  by (simp add: read_exact_def)

lemma read_exact_eof: "length (inp c) < n \<Longrightarrow> read_exact n c = (Inl (Io ''early eof''), c\<lparr>inp := []\<rparr>)"
  by (simp add: read_exact_def)

lemma read_exact_eq_Inr:
  "read_exact n c = (Inr bs, c') \<longleftrightarrow>
    length bs = n \<and> c' = c\<lparr>inp := drop n (inp c)\<rparr> \<and> inp c = bs @ drop n (inp c)"
proof (cases "length (inp c) < n")
  case True
  then show ?thesis by (auto simp: read_exact_def dest: arg_cong [of _ _ length])
next
  case False
  then show ?thesis
    by (auto simp: read_exact_def) (metis append_take_drop_id append_eq_conv_conj)+
qed

lemma write_all_unlimited [simp]:
  "room c = None \<Longrightarrow> write_all bs c = (Inr (), c\<lparr>sent := sent c @ bs\<rparr>)"
  by (simp add: write_all_def)

lemma write_all_inp: "write_all bs c = (r, c') \<Longrightarrow> inp c' = inp c"
  by (auto simp: write_all_def split: option.splits if_splits)

lemma read_exact_sent: "read_exact n c = (r, c') \<Longrightarrow> sent c' = sent c \<and> room c' = room c"
  by (auto simp: read_exact_def split: if_splits)

lemma write_all_Inr: "write_all bs c = (Inr (), c') \<Longrightarrow> sent c' = sent c @ bs"
  by (auto simp: write_all_def split: option.splits if_splits)

lemma write_all_Inl: "write_all bs c = (Inl e, c') \<Longrightarrow> \<exists>n < length bs. sent c' = sent c @ take n bs"
  by (auto simp: write_all_def not_le split: option.splits if_splits)

lemmas act_eqs = act_bind_eq_Inr act_bind_eq_Inl with_context_eq_Inr

end
