(* ===== verification/Protocol.thy ===== *)
theory Protocol
  imports Conn
begin

text \<open>
  The control protocol of \<open>src/rathole/src/protocol.rs\<close>: its messages, their framing on a byte
  stream, and the UDP encapsulation. The encoding (bincode) and the digest (SHA-256) are libraries:
  they are the parameter \<open>codec\<close>, and what the code relies on is the locale \<open>wire_codec\<close>.
\<close>

section \<open>Messages\<close>

definition HASH_WIDTH_IN_BYTES :: nat where
  "HASH_WIDTH_IN_BYTES = 32"

type_synonym protocol_version = byte
type_synonym digest = bytes

definition CURRENT_PROTO_VERSION :: protocol_version where
  "CURRENT_PROTO_VERSION = 1"

datatype hello =
    ControlChannelHello protocol_version digest
  | DataChannelHello protocol_version digest

datatype auth = Auth digest

datatype ack = Ok | ServiceNotExist | AuthFailed

fun ack_display :: "ack \<Rightarrow> string" where
  "ack_display Ok = ''Ok''"
| "ack_display ServiceNotExist = ''Service not exist''"
| "ack_display AuthFailed = ''Incorrect token''"

datatype control_channel_cmd = CreateDataChannel | HeartBeat

datatype data_channel_cmd = StartForwardTcp | StartForwardUdp

text \<open>\<open>std::net::SocketAddr\<close>: IPv4 with port; IPv6 with port, flow label and scope.\<close>

datatype socket_addr =
    V4 "32 word" "16 word"
  | V6 "128 word" "16 word" "32 word" "32 word"

record udp_header =
  hdr_from :: socket_addr
  hdr_len :: "16 word"

record udp_traffic =
  udp_from :: socket_addr
  udp_data :: bytes

section \<open>The libraries\<close>

record codec =
  ser_hello :: "hello \<Rightarrow> bytes"
  de_hello :: "bytes \<Rightarrow> hello option"
  ser_auth :: "auth \<Rightarrow> bytes"
  de_auth :: "bytes \<Rightarrow> auth option"
  ser_ack :: "ack \<Rightarrow> bytes"
  de_ack :: "bytes \<Rightarrow> ack option"
  ser_ccmd :: "control_channel_cmd \<Rightarrow> bytes"
  de_ccmd :: "bytes \<Rightarrow> control_channel_cmd option"
  ser_dcmd :: "data_channel_cmd \<Rightarrow> bytes"
  de_dcmd :: "bytes \<Rightarrow> data_channel_cmd option"
  ser_udp :: "udp_header \<Rightarrow> bytes"
  de_udp :: "bytes \<Rightarrow> udp_header option"
  sha256 :: "bytes \<Rightarrow> digest"

definition digest :: "codec \<Rightarrow> bytes \<Rightarrow> digest" where
  "digest k bs = sha256 k bs"

text \<open>Values the Rust types can hold: a digest is an array of exactly 32 bytes.\<close>

fun hello_wf :: "hello \<Rightarrow> bool" where
  "hello_wf (ControlChannelHello v d) = (length d = HASH_WIDTH_IN_BYTES)"
| "hello_wf (DataChannelHello v d) = (length d = HASH_WIDTH_IN_BYTES)"

fun auth_wf :: "auth \<Rightarrow> bool" where
  "auth_wf (Auth d) = (length d = HASH_WIDTH_IN_BYTES)"

text \<open>
  serde writes an IPv6 socket address as the pair of address and port: the flow label and the
  scope are lost, so only addresses with both zero survive.
\<close>

fun plain_addr :: "socket_addr \<Rightarrow> bool" where
  "plain_addr (V4 ip p) = True"
| "plain_addr (V6 ip p flow sc) = (flow = 0 \<and> sc = 0)"

section \<open>Framing\<close>

record packet_length =
  len_hello :: nat
  len_ack :: nat
  len_auth :: nat
  len_c_cmd :: nat
  len_d_cmd :: nat

text \<open>\<open>PacketLength::new\<close>: one sample of each message decides how much is read for every one.\<close>

definition default_username :: bytes where
  "default_username = [0x64, 0x65, 0x66, 0x61, 0x75, 0x6C, 0x74]"

definition PACKET_LEN :: "codec \<Rightarrow> packet_length" where
  "PACKET_LEN k =
     (let d = digest k default_username
      in \<lparr>len_hello = length (ser_hello k (ControlChannelHello CURRENT_PROTO_VERSION d)),
          len_ack = length (ser_ack k Ok),
          len_auth = length (ser_auth k (Auth d)),
          len_c_cmd = length (ser_ccmd k CreateDataChannel),
          len_d_cmd = length (ser_dcmd k StartForwardTcp)\<rparr>)"

definition deserialize :: "(bytes \<Rightarrow> 'a option) \<Rightarrow> bytes \<Rightarrow> ('s, 'a) act" where
  "deserialize de bs = (case de bs of None \<Rightarrow> act_fail (Msg ''bincode'') | Some x \<Rightarrow> act_return x)"

text \<open>The shape the five readers share; each is written out with its own length and messages.\<close>

definition read_packet :: "nat \<Rightarrow> string \<Rightarrow> (bytes \<Rightarrow> 'a option) \<Rightarrow> string \<Rightarrow> (conn, 'a) act" where
  "read_packet n msg1 de msg2 =
     act_bind (with_context msg1 (read_exact n)) (\<lambda>buf. with_context msg2 (deserialize de buf))"

fun hello_version :: "hello \<Rightarrow> protocol_version" where
  "hello_version (ControlChannelHello v d) = v"
| "hello_version (DataChannelHello v d) = v"

definition read_hello :: "codec \<Rightarrow> (conn, hello) act" where
  "read_hello k =
     act_bind (read_packet (len_hello (PACKET_LEN k)) ''Failed to read hello'' (de_hello k) ''Failed to deserialize hello'')
       (\<lambda>hello. if hello_version hello \<noteq> CURRENT_PROTO_VERSION
                then act_fail (Version_Mismatched CURRENT_PROTO_VERSION (hello_version hello))
                else act_return hello)"

definition read_auth :: "codec \<Rightarrow> (conn, auth) act" where
  "read_auth k = read_packet (len_auth (PACKET_LEN k)) ''Failed to read auth'' (de_auth k) ''Failed to deserialize auth''"

definition read_ack :: "codec \<Rightarrow> (conn, ack) act" where
  "read_ack k = read_packet (len_ack (PACKET_LEN k)) ''Failed to read ack'' (de_ack k) ''Failed to deserialize ack''"

definition read_control_cmd :: "codec \<Rightarrow> (conn, control_channel_cmd) act" where
  "read_control_cmd k =
     read_packet (len_c_cmd (PACKET_LEN k)) ''Failed to read cmd'' (de_ccmd k) ''Failed to deserialize control cmd''"

definition read_data_cmd :: "codec \<Rightarrow> (conn, data_channel_cmd) act" where
  "read_data_cmd k =
     read_packet (len_d_cmd (PACKET_LEN k)) ''Failed to read cmd'' (de_dcmd k) ''Failed to deserialize data cmd''"

section \<open>UDP encapsulation\<close>

text \<open>
  \<open>UdpTraffic::write_slice\<close> (\<open>write\<close> is the same on the fields of a datagram): the length is cast
  to \<open>u16\<close> and the length of the header to \<open>u8\<close>, both modulo.
\<close>

definition udp_write_slice :: "codec \<Rightarrow> socket_addr \<Rightarrow> bytes \<Rightarrow> (conn, unit) act" where
  "udp_write_slice k from_addr data =
     (let v = ser_udp k \<lparr>hdr_from = from_addr, hdr_len = of_nat (length data)\<rparr>
      in act_bind (write_all [of_nat (length v)]) (\<lambda>_.
         act_bind (write_all v) (\<lambda>_. write_all data)))"

definition udp_write :: "codec \<Rightarrow> udp_traffic \<Rightarrow> (conn, unit) act" where
  "udp_write k t =
     (let v = ser_udp k \<lparr>hdr_from = udp_from t, hdr_len = of_nat (length (udp_data t))\<rparr>
      in act_bind (write_all [of_nat (length v)]) (\<lambda>_.
         act_bind (write_all v) (\<lambda>_. write_all (udp_data t))))"

definition udp_read :: "codec \<Rightarrow> byte \<Rightarrow> (conn, udp_traffic) act" where
  "udp_read k hl =
     act_bind (with_context ''Failed to read udp header'' (read_exact (unat hl))) (\<lambda>buf.
     act_bind (with_context ''Failed to deserialize UdpHeader'' (deserialize (de_udp k) buf)) (\<lambda>hdr.
     act_bind (read_exact (unat (hdr_len hdr))) (\<lambda>data.
     act_return \<lparr>udp_from = hdr_from hdr, udp_data = data\<rparr>)))"

text \<open>What its callers do first: \<open>read_u8\<close> for the length of the header.\<close>

definition read_u8 :: "(conn, byte) act" where
  "read_u8 = act_bind (read_exact 1) (\<lambda>bs. act_return (hd bs))"

text \<open>Datagrams: what is written, and what reading makes of it.\<close>

definition udp_bytes :: "codec \<Rightarrow> socket_addr \<Rightarrow> bytes \<Rightarrow> bytes" where
  "udp_bytes k a d =
     (let v = ser_udp k \<lparr>hdr_from = a, hdr_len = of_nat (length d)\<rparr> in of_nat (length v) # v @ d)"

section \<open>What the protocol relies on\<close>

text \<open>
  The documented behaviour of the libraries: what is encoded decodes to the same value, the size of
  an encoded message does not depend on the values in it (fixed-width integers), the header of a
  datagram has fewer than 256 bytes, and SHA-256 yields 32 bytes.
\<close>

locale wire_codec =
  fixes k :: codec
  assumes de_ser_hello: "hello_wf h \<Longrightarrow> de_hello k (ser_hello k h) = Some h"
    and len_ser_hello: "hello_wf h \<Longrightarrow> hello_wf h' \<Longrightarrow> length (ser_hello k h) = length (ser_hello k h')"
    and de_ser_auth: "auth_wf a \<Longrightarrow> de_auth k (ser_auth k a) = Some a"
    and len_ser_auth: "auth_wf a \<Longrightarrow> auth_wf a' \<Longrightarrow> length (ser_auth k a) = length (ser_auth k a')"
    and de_ser_ack: "de_ack k (ser_ack k r) = Some r"
    and len_ser_ack: "length (ser_ack k r) = length (ser_ack k r')"
    and de_ser_ccmd: "de_ccmd k (ser_ccmd k cc) = Some cc"
    and len_ser_ccmd: "length (ser_ccmd k cc) = length (ser_ccmd k cc')"
    and de_ser_dcmd: "de_dcmd k (ser_dcmd k dc) = Some dc"
    and len_ser_dcmd: "length (ser_dcmd k dc) = length (ser_dcmd k dc')"
    and de_ser_udp: "plain_addr (hdr_from u) \<Longrightarrow> de_udp k (ser_udp k u) = Some u"
    and len_ser_udp: "length (ser_udp k u) < 256"
    and length_sha256: "length (sha256 k bs) = HASH_WIDTH_IN_BYTES"
begin

lemma length_digest [simp]: "length (digest k bs) = HASH_WIDTH_IN_BYTES"
  by (simp add: digest_def length_sha256)

lemma packet_lengths:
  "hello_wf h \<Longrightarrow> length (ser_hello k h) = len_hello (PACKET_LEN k)"
  "auth_wf a \<Longrightarrow> length (ser_auth k a) = len_auth (PACKET_LEN k)"
  "length (ser_ack k r) = len_ack (PACKET_LEN k)"
  "length (ser_ccmd k cc) = len_c_cmd (PACKET_LEN k)"
  "length (ser_dcmd k dc) = len_d_cmd (PACKET_LEN k)"
  using len_ser_hello [of h "ControlChannelHello CURRENT_PROTO_VERSION (digest k default_username)"]
    len_ser_auth [of a "Auth (digest k default_username)"]
    len_ser_ack [of r Ok] len_ser_ccmd [of cc CreateDataChannel] len_ser_dcmd [of dc StartForwardTcp]
  by (simp_all add: PACKET_LEN_def Let_def)

lemma read_packet_ok:
  assumes "length bs = n" "de bs = Some x" "inp c = bs @ rest"
  shows "read_packet n m1 de m2 c = (Inr x, c\<lparr>inp := rest\<rparr>)"
  using assms
  by (simp add: read_packet_def act_bind_Inr [OF with_context_Inr [OF read_exact_ok]] deserialize_def
      with_context_def)

lemma read_packet_short:
  assumes "length (inp c) < n"
  shows "\<exists>e. read_packet n m1 de m2 c = (Inl e, c\<lparr>inp := []\<rparr>)"
  using assms
  by (simp add: read_packet_def act_bind_Inl [OF with_context_Inl [OF read_exact_eof]])

lemma read_hello_ok:
  assumes "hello_wf h" "inp c = ser_hello k h @ rest"
  shows "read_hello k c =
    (if hello_version h = CURRENT_PROTO_VERSION then Inr h
     else Inl (Version_Mismatched CURRENT_PROTO_VERSION (hello_version h)), c\<lparr>inp := rest\<rparr>)"
proof -
  have "read_packet (len_hello (PACKET_LEN k)) ''Failed to read hello'' (de_hello k)
      ''Failed to deserialize hello'' c = (Inr h, c\<lparr>inp := rest\<rparr>)"
    using assms by (intro read_packet_ok [where bs = "ser_hello k h"]) (simp_all add: packet_lengths de_ser_hello)
  then show ?thesis by (simp add: read_hello_def act_bind_Inr)
qed

lemma read_auth_ok:
  "auth_wf a \<Longrightarrow> inp c = ser_auth k a @ rest \<Longrightarrow> read_auth k c = (Inr a, c\<lparr>inp := rest\<rparr>)"
  unfolding read_auth_def
  by (rule read_packet_ok [where bs = "ser_auth k a"]) (simp_all add: packet_lengths de_ser_auth)

lemma read_ack_ok: "inp c = ser_ack k r @ rest \<Longrightarrow> read_ack k c = (Inr r, c\<lparr>inp := rest\<rparr>)"
  unfolding read_ack_def
  by (rule read_packet_ok [where bs = "ser_ack k r"]) (simp_all add: packet_lengths de_ser_ack)

lemma read_control_cmd_ok:
  "inp c = ser_ccmd k cc @ rest \<Longrightarrow> read_control_cmd k c = (Inr cc, c\<lparr>inp := rest\<rparr>)"
  unfolding read_control_cmd_def
  by (rule read_packet_ok [where bs = "ser_ccmd k cc"]) (simp_all add: packet_lengths de_ser_ccmd)

lemma read_data_cmd_ok:
  "inp c = ser_dcmd k dc @ rest \<Longrightarrow> read_data_cmd k c = (Inr dc, c\<lparr>inp := rest\<rparr>)"
  unfolding read_data_cmd_def
  by (rule read_packet_ok [where bs = "ser_dcmd k dc"]) (simp_all add: packet_lengths de_ser_dcmd)

lemma udp_write_slice_ok:
  "room c = None \<Longrightarrow> udp_write_slice k a d c = (Inr (), c\<lparr>sent := sent c @ udp_bytes k a d\<rparr>)"
  by (simp add: udp_write_slice_def udp_bytes_def act_bind_def Let_def)

lemma udp_read_ok:
  assumes "plain_addr a" "inp c = udp_bytes k a d @ rest"
  shows "act_bind read_u8 (udp_read k) c =
    (Inr \<lparr>udp_from = a, udp_data = take (length d mod 65536) (d @ rest)\<rparr>,
     c\<lparr>inp := drop (length d mod 65536) (d @ rest)\<rparr>)"
proof -
  let ?h = "\<lparr>hdr_from = a, hdr_len = of_nat (length d)\<rparr>"
  let ?v = "ser_udp k ?h"
  have i: "inp c = [of_nat (length ?v)] @ ?v @ d @ rest"
    using assms(2) by (simp add: udp_bytes_def Let_def)
  have u8: "read_u8 c = (Inr (of_nat (length ?v)), c\<lparr>inp := ?v @ d @ rest\<rparr>)"
    using read_exact_ok [of c _ _ 1, OF i] by (simp add: read_u8_def act_bind_Inr)
  have n: "unat (of_nat (length ?v) :: byte) = length ?v"
    using len_ser_udp [of ?h] by (simp add: unat_of_nat)
  have m: "unat (hdr_len ?h) = length d mod 65536"
    by (simp add: unat_of_nat)
  have le: "length d mod 65536 \<le> length (d @ rest)"
    by (simp add: trans_le_add1)
  have "deserialize (de_udp k) ?v = (act_return ?h :: (conn, udp_header) act)"
    using de_ser_udp [of ?h] assms(1) by (simp add: deserialize_def)
  then have "udp_read k (of_nat (length ?v)) (c\<lparr>inp := ?v @ d @ rest\<rparr>) =
      (Inr \<lparr>udp_from = a, udp_data = take (length d mod 65536) (d @ rest)\<rparr>,
       c\<lparr>inp := drop (length d mod 65536) (d @ rest)\<rparr>)"
    using le m by (simp add: udp_read_def n act_bind_def with_context_def read_exact_def not_less)
  with u8 show ?thesis by (simp add: act_bind_Inr)
qed

end

end
