(* ===== verification/Bincode_Wire.thy ===== *)
theory Bincode_Wire
  imports Protocol
begin

unbundle bit_operations_syntax

text \<open>
  The libraries behind \<open>codec\<close>, from their documentation: bincode with its default configuration
  (little-endian, fixed-width integers, enum variants as \<open>u32\<close>, trailing bytes allowed), the serde
  representation of socket addresses (octets, then port), and SHA-256 (FIPS 180-4). They instantiate
  the contract \<open>wire_codec\<close>, so the properties that assume it are not vacuous.
\<close>

section \<open>Integers\<close>

fun le :: "nat \<Rightarrow> nat \<Rightarrow> bytes" where
  "le 0 x = []"
| "le (Suc n) x = of_nat (x mod 256) # le n (x div 256)"

fun un_le :: "bytes \<Rightarrow> nat" where
  "un_le [] = 0"
| "un_le (b # bs) = unat b + 256 * un_le bs"

lemma length_le [simp]: "length (le n x) = n"
  by (induction n arbitrary: x) simp_all

lemma un_le_le [simp]: "un_le (le n x) = x mod 256 ^ n"
proof (induction n arbitrary: x)
  case (Suc n)
  have "unat (of_nat (x mod 256) :: byte) = x mod 256"
    by (simp add: unat_of_nat)
  with Suc show ?case by (simp add: mod_mult2_eq)
qed simp

text \<open>Octets of an address, most significant first.\<close>

definition be :: "nat \<Rightarrow> nat \<Rightarrow> bytes" where
  "be n x = rev (le n x)"

definition un_be :: "bytes \<Rightarrow> nat" where
  "un_be bs = un_le (rev bs)"

lemma length_be [simp]: "length (be n x) = n"
  by (simp add: be_def)

lemma un_be_be [simp]: "un_be (be n x) = x mod 256 ^ n"
  by (simp add: be_def un_be_def)

section \<open>Messages\<close>

definition bc_variant :: "nat \<Rightarrow> bytes" where
  "bc_variant i = le 4 i"

fun bc_ser_hello :: "hello \<Rightarrow> bytes" where
  "bc_ser_hello (ControlChannelHello v d) = bc_variant 0 @ v # d"
| "bc_ser_hello (DataChannelHello v d) = bc_variant 1 @ v # d"

definition bc_de_hello :: "bytes \<Rightarrow> hello option" where
  "bc_de_hello bs =
     (if length bs < 37 then None
      else let t = un_le (take 4 bs); v = bs ! 4; d = take 32 (drop 5 bs)
           in if t = 0 then Some (ControlChannelHello v d)
              else if t = 1 then Some (DataChannelHello v d) else None)"

fun bc_ser_auth :: "auth \<Rightarrow> bytes" where
  "bc_ser_auth (Auth d) = d"

definition bc_de_auth :: "bytes \<Rightarrow> auth option" where
  "bc_de_auth bs = (if length bs < 32 then None else Some (Auth (take 32 bs)))"

fun bc_ser_ack :: "ack \<Rightarrow> bytes" where
  "bc_ser_ack Ok = bc_variant 0"
| "bc_ser_ack ServiceNotExist = bc_variant 1"
| "bc_ser_ack AuthFailed = bc_variant 2"

definition bc_de_enum :: "'a list \<Rightarrow> bytes \<Rightarrow> 'a option" where
  "bc_de_enum vs bs =
     (if length bs < 4 then None
      else let t = un_le (take 4 bs) in if t < length vs then Some (vs ! t) else None)"

fun bc_ser_ccmd :: "control_channel_cmd \<Rightarrow> bytes" where
  "bc_ser_ccmd CreateDataChannel = bc_variant 0"
| "bc_ser_ccmd HeartBeat = bc_variant 1"

fun bc_ser_dcmd :: "data_channel_cmd \<Rightarrow> bytes" where
  "bc_ser_dcmd StartForwardTcp = bc_variant 0"
| "bc_ser_dcmd StartForwardUdp = bc_variant 1"

fun bc_ser_addr :: "socket_addr \<Rightarrow> bytes" where
  "bc_ser_addr (V4 ip p) = bc_variant 0 @ be 4 (unat ip) @ le 2 (unat p)"
| "bc_ser_addr (V6 ip p flow sc) = bc_variant 1 @ be 16 (unat ip) @ le 2 (unat p)"

definition bc_ser_udp :: "udp_header \<Rightarrow> bytes" where
  "bc_ser_udp h = bc_ser_addr (hdr_from h) @ le 2 (unat (hdr_len h))"

definition bc_de_udp :: "bytes \<Rightarrow> udp_header option" where
  "bc_de_udp bs =
     (if length bs < 4 then None
      else let t = un_le (take 4 bs); r = drop 4 bs
           in if t = 0 \<and> 8 \<le> length r
              then Some \<lparr>hdr_from = V4 (of_nat (un_be (take 4 r))) (of_nat (un_le (take 2 (drop 4 r)))),
                         hdr_len = of_nat (un_le (take 2 (drop 6 r)))\<rparr>
              else if t = 1 \<and> 20 \<le> length r
              then Some \<lparr>hdr_from = V6 (of_nat (un_be (take 16 r))) (of_nat (un_le (take 2 (drop 16 r)))) 0 0,
                         hdr_len = of_nat (un_le (take 2 (drop 18 r)))\<rparr>
              else None)"

section \<open>SHA-256\<close>

type_synonym w32 = "32 word"

text \<open>
  The constants are the first 32 bits of the fractional parts of the cube roots of the first 64
  primes, and of the square roots of the first 8; they are computed from that.
\<close>

fun root_search :: "nat \<Rightarrow> nat \<Rightarrow> nat \<Rightarrow> nat \<Rightarrow> nat" where
  "root_search e 0 acc x = acc"
| "root_search e (Suc b) acc x = root_search e b (if (acc + 2 ^ b) ^ e \<le> x then acc + 2 ^ b else acc) x"

definition primes_below :: "nat \<Rightarrow> nat list" where
  "primes_below n = filter (\<lambda>p. list_all (\<lambda>d. p mod d \<noteq> 0) [2..<p]) [2..<n]"

definition fraction_bits :: "nat \<Rightarrow> nat \<Rightarrow> w32" where
  "fraction_bits e p = of_nat (root_search e 36 0 (p * 2 ^ (32 * e)))"

definition sha_k :: "w32 list" where
  "sha_k = map (fraction_bits 3) (primes_below 312)"

definition sha_h0 :: "w32 list" where
  "sha_h0 = map (fraction_bits 2) (take 8 (primes_below 20))"

definition rotr :: "nat \<Rightarrow> w32 \<Rightarrow> w32" where
  "rotr n x = (drop_bit n x OR push_bit (32 - n) x)"

text \<open>The message schedule, latest word first.\<close>

fun sha_extend :: "nat \<Rightarrow> w32 list \<Rightarrow> w32 list" where
  "sha_extend 0 ws = ws"
| "sha_extend (Suc n) ws =
     (let a = ws ! 14; b = ws ! 1;
          s0 = rotr 7 a XOR rotr 18 a XOR drop_bit 3 a;
          s1 = rotr 17 b XOR rotr 19 b XOR drop_bit 10 b
      in sha_extend n ((ws ! 15 + s0 + ws ! 6 + s1) # ws))"

definition sha_round :: "w32 list \<Rightarrow> w32 \<times> w32 \<Rightarrow> w32 list" where
  "sha_round st kw =
     (let a = st ! 0; b = st ! 1; c = st ! 2; d = st ! 3; e = st ! 4; f = st ! 5; g = st ! 6; h = st ! 7;
          t1 = h + (rotr 6 e XOR rotr 11 e XOR rotr 25 e) + ((e AND f) XOR ((NOT e) AND g)) + fst kw + snd kw;
          t2 = (rotr 2 a XOR rotr 13 a XOR rotr 22 a) + ((a AND b) XOR (a AND c) XOR (b AND c))
      in [t1 + t2, a, b, c, d + t1, e, f, g])"

definition sha_block :: "w32 list \<Rightarrow> w32 list \<Rightarrow> w32 list" where
  "sha_block st ws = map2 (+) st (foldl sha_round st (zip sha_k (rev (sha_extend 48 (rev ws)))))"

fun sha_words :: "bytes \<Rightarrow> w32 list" where
  "sha_words (a # b # c # d # bs) = of_nat (un_be [a, b, c, d]) # sha_words bs"
| "sha_words bs = []"

fun sha_blocks :: "nat \<Rightarrow> w32 list \<Rightarrow> w32 list \<Rightarrow> w32 list" where
  "sha_blocks 0 ws st = st"
| "sha_blocks (Suc n) ws st = sha_blocks n (drop 16 ws) (sha_block st (take 16 ws))"

definition sha_pad :: "bytes \<Rightarrow> bytes" where
  "sha_pad bs = bs @ 0x80 # replicate ((119 - length bs mod 64) mod 64) 0 @ be 8 (8 * length bs)"

definition sha256_fips :: "bytes \<Rightarrow> bytes" where
  "sha256_fips bs =
     (let p = sha_pad bs
      in concat (map (\<lambda>w. be 4 (unat w)) (sha_blocks (length p div 64) (sha_words p) sha_h0)))"

lemma length_sha_round: "length (sha_round st kw) = 8"
  by (simp add: sha_round_def Let_def)

lemma length_sha_rounds: "length st = 8 \<Longrightarrow> length (foldl sha_round st kws) = 8"
  by (induction kws arbitrary: st) (simp_all add: length_sha_round)

lemma length_sha_blocks: "length st = 8 \<Longrightarrow> length (sha_blocks n ws st) = 8"
  by (induction n arbitrary: ws st) (simp_all add: sha_block_def length_sha_rounds)

lemma sum_list_const: "(\<And>x. x \<in> set xs \<Longrightarrow> f x = c) \<Longrightarrow> sum_list (map f xs) = c * length xs"
  by (induction xs) simp_all

lemma length_sha_h0: "length sha_h0 = 8"
proof -
  have "[2..<20 :: nat] = [2, 3, 4, 5, 6, 7, 8, 9, 10, 11, 12, 13, 14, 15, 16, 17, 18, 19]"
    by (simp add: upt_rec)
  then have "primes_below 20 = [2, 3, 5, 7, 11, 13, 17, 19]"
    unfolding primes_below_def by (simp add: upt_rec)
  then show ?thesis by (simp add: sha_h0_def)
qed

lemma length_sha256_fips: "length (sha256_fips bs) = 32"
  using length_sha_blocks [of sha_h0, OF length_sha_h0]
  by (simp add: sha256_fips_def Let_def length_concat o_def sum_list_const [where c = 4])

section \<open>The contract holds\<close>

definition bincode :: codec where
  "bincode =
     \<lparr>ser_hello = bc_ser_hello, de_hello = bc_de_hello, ser_auth = bc_ser_auth, de_auth = bc_de_auth,
      ser_ack = bc_ser_ack, de_ack = bc_de_enum [Ok, ServiceNotExist, AuthFailed],
      ser_ccmd = bc_ser_ccmd, de_ccmd = bc_de_enum [CreateDataChannel, HeartBeat],
      ser_dcmd = bc_ser_dcmd, de_dcmd = bc_de_enum [StartForwardTcp, StartForwardUdp],
      ser_udp = bc_ser_udp, de_udp = bc_de_udp, sha256 = sha256_fips\<rparr>"

lemma bincode_sel [simp]:
  "ser_hello bincode = bc_ser_hello" "de_hello bincode = bc_de_hello"
  "ser_auth bincode = bc_ser_auth" "de_auth bincode = bc_de_auth"
  "ser_ack bincode = bc_ser_ack" "de_ack bincode = bc_de_enum [Ok, ServiceNotExist, AuthFailed]"
  "ser_ccmd bincode = bc_ser_ccmd" "de_ccmd bincode = bc_de_enum [CreateDataChannel, HeartBeat]"
  "ser_dcmd bincode = bc_ser_dcmd" "de_dcmd bincode = bc_de_enum [StartForwardTcp, StartForwardUdp]"
  "ser_udp bincode = bc_ser_udp" "de_udp bincode = bc_de_udp" "sha256 bincode = sha256_fips"
  by (simp_all add: bincode_def)

lemma length_bc_variant [simp]: "length (bc_variant i) = 4"
  by (simp add: bc_variant_def)

lemma un_le_bc_variant [simp]: "i < 4 \<Longrightarrow> un_le (bc_variant i) = i"
  by (simp add: bc_variant_def)

lemma bc_hello_roundtrip: "hello_wf h \<Longrightarrow> bc_de_hello (bc_ser_hello h) = Some h"
  by (cases h) (simp_all add: bc_de_hello_def HASH_WIDTH_IN_BYTES_def nth_append Let_def)

lemma unat_less_pow: "unat (x :: 'a::len word) mod (2 ^ LENGTH('a)) = unat x"
  using unsigned_less [of x] by simp

lemma bc_addr_roundtrips:
  "of_nat (unat ip mod 4294967296) = (ip :: 32 word)"
  "of_nat (unat ip6 mod 340282366920938463463374607431768211456) = (ip6 :: 128 word)"
  "of_nat (unat p mod 65536) = (p :: 16 word)"
  using unat_less_pow [of ip] unat_less_pow [of ip6] unat_less_pow [of p] by simp_all

lemma bc_udp_roundtrip: "plain_addr (hdr_from u) \<Longrightarrow> bc_de_udp (bc_ser_udp u) = Some u"
  by (cases u; cases "hdr_from u")
    (simp_all add: bc_ser_udp_def bc_de_udp_def Let_def bc_addr_roundtrips del: of_nat_unat)

interpretation bincode: wire_codec bincode
proof unfold_locales
  show "length (ser_hello bincode h) = length (ser_hello bincode h')" if "hello_wf h" "hello_wf h'" for h h'
    using that by (cases h; cases h') simp_all
  show "de_auth bincode (ser_auth bincode a) = Some a" if "auth_wf a" for a
    using that by (cases a) (simp add: bc_de_auth_def HASH_WIDTH_IN_BYTES_def)
  show "length (ser_auth bincode a) = length (ser_auth bincode a')" if "auth_wf a" "auth_wf a'" for a a'
    using that by (cases a; cases a') simp
  show "de_ack bincode (ser_ack bincode r) = Some r" for r
    by (cases r) (simp_all add: bc_de_enum_def)
  show "length (ser_ack bincode r) = length (ser_ack bincode r')" for r r'
    by (cases r; cases r') simp_all
  show "de_ccmd bincode (ser_ccmd bincode cc) = Some cc" for cc
    by (cases cc) (simp_all add: bc_de_enum_def)
  show "length (ser_ccmd bincode cc) = length (ser_ccmd bincode cc')" for cc cc'
    by (cases cc; cases cc') simp_all
  show "de_dcmd bincode (ser_dcmd bincode dc) = Some dc" for dc
    by (cases dc) (simp_all add: bc_de_enum_def)
  show "length (ser_dcmd bincode dc) = length (ser_dcmd bincode dc')" for dc dc'
    by (cases dc; cases dc') simp_all
  show "length (ser_udp bincode u) < 256" for u
    by (cases u; cases "hdr_from u") (simp_all add: bc_ser_udp_def)
qed (simp_all add: bc_hello_roundtrip bc_udp_roundtrip length_sha256_fips HASH_WIDTH_IN_BYTES_def)

section \<open>Properties of the protocol\<close>

text \<open>
  C14. Every message of the protocol is received as it was sent, from any stream that continues
  after it: the number of bytes \<open>PacketLength\<close> takes from one sample fits every message of the
  type, the rest of the stream is left for the next reader, and only a hello of another protocol
  version is rejected (after it has been consumed).
\<close>

theorem messages_received_as_sent:
  assumes "wire_codec k" "hello_wf h" "auth_wf a"
  shows "read_hello k (c\<lparr>inp := ser_hello k h @ rest\<rparr>) =
      (if hello_version h = CURRENT_PROTO_VERSION then Inr h
       else Inl (Version_Mismatched CURRENT_PROTO_VERSION (hello_version h)), c\<lparr>inp := rest\<rparr>)
    \<and> read_auth k (c\<lparr>inp := ser_auth k a @ rest\<rparr>) = (Inr a, c\<lparr>inp := rest\<rparr>)
    \<and> read_ack k (c\<lparr>inp := ser_ack k r @ rest\<rparr>) = (Inr r, c\<lparr>inp := rest\<rparr>)
    \<and> read_control_cmd k (c\<lparr>inp := ser_ccmd k cc @ rest\<rparr>) = (Inr cc, c\<lparr>inp := rest\<rparr>)
    \<and> read_data_cmd k (c\<lparr>inp := ser_dcmd k dc @ rest\<rparr>) = (Inr dc, c\<lparr>inp := rest\<rparr>)"
  using wire_codec.read_hello_ok [OF assms(1,2), of "c\<lparr>inp := ser_hello k h @ rest\<rparr>"]
    wire_codec.read_auth_ok [OF assms(1,3), of "c\<lparr>inp := ser_auth k a @ rest\<rparr>"]
    wire_codec.read_ack_ok [OF assms(1), of "c\<lparr>inp := ser_ack k r @ rest\<rparr>"]
    wire_codec.read_control_cmd_ok [OF assms(1), of "c\<lparr>inp := ser_ccmd k cc @ rest\<rparr>"]
    wire_codec.read_data_cmd_ok [OF assms(1), of "c\<lparr>inp := ser_dcmd k dc @ rest\<rparr>"]
  by simp_all

theorem messages_received_as_sent_witness:
  "read_hello bincode ((fresh_conn [])\<lparr>inp := ser_hello bincode (DataChannelHello 0 (replicate 32 7)) @ [1, 2]\<rparr>) =
     (Inl (Version_Mismatched 1 0), (fresh_conn [])\<lparr>inp := [1, 2]\<rparr>)"
  using messages_received_as_sent [OF bincode.wire_codec_axioms,
      where h = "DataChannelHello 0 (replicate 32 7)" and a = "Auth (replicate 32 0)" and c = "fresh_conn []"
        and rest = "[1, 2]"]
  by (simp add: HASH_WIDTH_IN_BYTES_def CURRENT_PROTO_VERSION_def)

text \<open>The writer and the reader loops of a UDP data channel.\<close>

fun udp_write_many :: "codec \<Rightarrow> udp_traffic list \<Rightarrow> (conn, unit) act" where
  "udp_write_many k [] = act_return ()"
| "udp_write_many k (t # ts) = act_bind (udp_write_slice k (udp_from t) (udp_data t)) (\<lambda>_. udp_write_many k ts)"

fun udp_read_many :: "codec \<Rightarrow> nat \<Rightarrow> (conn, udp_traffic list) act" where
  "udp_read_many k 0 = act_return []"
| "udp_read_many k (Suc n) =
     act_bind (act_bind read_u8 (udp_read k)) (\<lambda>t.
     act_bind (udp_read_many k n) (\<lambda>ts. act_return (t # ts)))"

definition udp_stream :: "codec \<Rightarrow> udp_traffic list \<Rightarrow> bytes" where
  "udp_stream k ts = concat (map (\<lambda>t. udp_bytes k (udp_from t) (udp_data t)) ts)"

lemma udp_write_many_ok:
  assumes "wire_codec k" "room c = None"
  shows "udp_write_many k ts c = (Inr (), c\<lparr>sent := sent c @ udp_stream k ts\<rparr>)"
  using assms(2)
  by (induction ts arbitrary: c)
    (simp_all add: udp_stream_def act_bind_Inr [OF wire_codec.udp_write_slice_ok [OF assms(1)]])

lemma udp_read_many_ok:
  assumes "wire_codec k"
    and "list_all (\<lambda>t. plain_addr (udp_from t) \<and> length (udp_data t) < 65536) ts"
    and "inp c = udp_stream k ts @ rest"
  shows "udp_read_many k (length ts) c = (Inr ts, c\<lparr>inp := rest\<rparr>)"
  using assms(2,3)
proof (induction ts arbitrary: c)
  case Nil
  then have "inp c = rest" by (simp add: udp_stream_def)
  then have "c = c\<lparr>inp := rest\<rparr>" by simp
  then show ?case by simp
next
  case (Cons t ts)
  let ?c' = "c\<lparr>inp := udp_stream k ts @ rest\<rparr>"
  from Cons.prems have "inp c = udp_bytes k (udp_from t) (udp_data t) @ (udp_stream k ts @ rest)"
    by (simp add: udp_stream_def)
  from wire_codec.udp_read_ok [OF assms(1) _ this] Cons.prems(1)
  have "act_bind read_u8 (udp_read k) c = (Inr t, ?c')" by simp
  moreover have "udp_read_many k (length ts) ?c' = (Inr ts, c\<lparr>inp := rest\<rparr>)"
    using Cons.IH [of ?c'] Cons.prems(1) by simp
  ultimately show ?case by (simp add: act_bind_Inr)
qed

text \<open>
  Datagrams of fewer than 65536 bytes keep their boundaries, senders and contents over a data
  channel: what a sequence of writes puts on the stream, the reader loop takes off as the same
  sequence.
\<close>

theorem udp_datagrams_roundtrip:
  assumes "wire_codec k" "room c = None" "sent c = []"
    and "list_all (\<lambda>t. plain_addr (udp_from t) \<and> length (udp_data t) < 65536) ts"
  shows "\<exists>c'. udp_write_many k ts c = (Inr (), c')
    \<and> udp_read_many k (length ts) (d\<lparr>inp := sent c' @ rest\<rparr>) = (Inr ts, d\<lparr>inp := rest\<rparr>)"
  using udp_write_many_ok [OF assms(1,2), of ts] assms(3)
    udp_read_many_ok [OF assms(1,4), of "d\<lparr>inp := udp_stream k ts @ rest\<rparr>" rest]
  by simp

definition dns_datagrams :: "udp_traffic list" where
  "dns_datagrams = [\<lparr>udp_from = V4 0x7F000001 53, udp_data = [1, 2, 3]\<rparr>, \<lparr>udp_from = V6 1 53 0 0, udp_data = []\<rparr>]"

theorem udp_datagrams_roundtrip_witness:
  "\<exists>c'. udp_write_many bincode dns_datagrams (fresh_conn []) = (Inr (), c')
    \<and> udp_read_many bincode (length dns_datagrams) ((fresh_conn [])\<lparr>inp := sent c' @ [9]\<rparr>) =
       (Inr dns_datagrams, (fresh_conn [])\<lparr>inp := [9]\<rparr>)"
  by (rule udp_datagrams_roundtrip [OF bincode.wire_codec_axioms]) (simp_all add: fresh_conn_def dns_datagrams_def)

text \<open>
  The cast of the length to \<open>u16\<close> wraps: of a datagram of 65536 bytes or more, only the length
  modulo 65536 is received, and the other bytes stay on the stream, where the reader takes them for
  the next header.
\<close>

theorem udp_oversized_datagram_desynchronises:
  assumes "wire_codec k" "plain_addr from_addr" "room c = None" "sent c = []"
  shows "\<exists>c'. udp_write_slice k from_addr data c = (Inr (), c')
    \<and> act_bind read_u8 (udp_read k) (d\<lparr>inp := sent c'\<rparr>) =
        (Inr \<lparr>udp_from = from_addr, udp_data = take (length data mod 65536) data\<rparr>,
         d\<lparr>inp := drop (length data mod 65536) data\<rparr>)"
  using wire_codec.udp_write_slice_ok [OF assms(1,3), of from_addr data] assms(4)
    wire_codec.udp_read_ok [OF assms(1,2), of "d\<lparr>inp := udp_bytes k from_addr data\<rparr>" data "[]"]
  by simp

theorem udp_oversized_datagram_desynchronises_witness:
  "\<exists>c'. udp_write_slice bincode (V4 0x7F000001 53) (replicate 65537 5) (fresh_conn []) = (Inr (), c')
    \<and> act_bind read_u8 (udp_read bincode) ((fresh_conn [])\<lparr>inp := sent c'\<rparr>) =
        (Inr \<lparr>udp_from = V4 0x7F000001 53, udp_data = [5]\<rparr>, (fresh_conn [])\<lparr>inp := replicate 65536 5\<rparr>)"
  using udp_oversized_datagram_desynchronises [OF bincode.wire_codec_axioms,
      where from_addr = "V4 0x7F000001 53" and c = "fresh_conn []" and data = "replicate 65537 5" and d = "fresh_conn []"]
  by (simp add: fresh_conn_def)

end
