(* ===== verification/Config.thy ===== *)
theory Config
  imports Prelude
begin

text \<open>
  The configuration of \<open>src/rathole/src/config.rs\<close>: the structs, and what \<open>Config::from_str\<close> does
  after the TOML parser: names and tokens are filled in, and the transport is checked. The parser is
  a library and a parameter; so is a \<open>Url\<close>, of which the record keeps what its accessors return.
\<close>

type_synonym masked_string = string

datatype config_err =
    Bad_Config string
  | In_Context string config_err

section \<open>Structs\<close>

record url =
  url_scheme :: string
  url_host_str :: "string option"
  url_port :: "16 word option"
  url_username :: string
  url_password :: "string option"

datatype transport_type = Transport_Tcp | Transport_Tls | Transport_Noise | Transport_Websocket

datatype service_type = Service_Tcp | Service_Udp | Service_Http

definition default_service_type :: service_type where
  "default_service_type = Service_Tcp"

record client_service =
  cs_type :: service_type
  cs_name :: string
  cs_local_addr :: string
  cs_prefer_ipv6 :: bool
  cs_token :: "masked_string option"
  cs_nodelay :: "bool option"
  cs_retry_interval :: "u64 option"

definition client_service_with_name :: "string \<Rightarrow> client_service" where
  "client_service_with_name n =
     \<lparr>cs_type = default_service_type, cs_name = n, cs_local_addr = [], cs_prefer_ipv6 = False,
      cs_token = None, cs_nodelay = None, cs_retry_interval = None\<rparr>"

record server_service =
  ss_type :: service_type
  ss_name :: string
  ss_bind_addr :: string
  ss_token :: "masked_string option"
  ss_nodelay :: "bool option"

definition server_service_with_name :: "string \<Rightarrow> server_service" where
  "server_service_with_name n =
     \<lparr>ss_type = default_service_type, ss_name = n, ss_bind_addr = [], ss_token = None, ss_nodelay = None\<rparr>"

record tls_config =
  tls_hostname :: "string option"
  tls_trusted_root :: "string option"
  tls_pkcs12 :: "string option"
  tls_pkcs12_password :: "masked_string option"

record noise_config =
  noise_pattern :: string
  noise_local_private_key :: "masked_string option"
  noise_remote_public_key :: "string option"

record websocket_config =
  ws_tls :: bool

record tcp_config =
  tcp_nodelay :: bool
  tcp_keepalive_secs :: u64
  tcp_keepalive_interval :: u64
  tcp_proxy :: "url option"

definition default_tcp_config :: tcp_config where
  "default_tcp_config =
     \<lparr>tcp_nodelay = True, tcp_keepalive_secs = 20, tcp_keepalive_interval = 8, tcp_proxy = None\<rparr>"

record transport_config =
  transport_type :: transport_type
  tcp :: tcp_config
  tls :: "tls_config option"
  noise :: "noise_config option"
  websocket :: "websocket_config option"

definition default_transport_config :: transport_config where
  "default_transport_config =
     \<lparr>transport_type = Transport_Tcp, tcp = default_tcp_config, tls = None, noise = None, websocket = None\<rparr>"

definition DEFAULT_HEARTBEAT_INTERVAL_SECS :: u64 where
  "DEFAULT_HEARTBEAT_INTERVAL_SECS = 30"

definition DEFAULT_HEARTBEAT_TIMEOUT_SECS :: u64 where
  "DEFAULT_HEARTBEAT_TIMEOUT_SECS = 40"

definition DEFAULT_CLIENT_RETRY_INTERVAL_SECS :: u64 where
  "DEFAULT_CLIENT_RETRY_INTERVAL_SECS = 1"

record client_config =
  cc_remote_addr :: string
  cc_default_token :: "masked_string option"
  cc_prefer_ipv6 :: "bool option"
  cc_services :: "(string, client_service) hash"
  cc_transport :: transport_config
  cc_heartbeat_timeout :: u64
  cc_retry_interval :: u64

record server_config =
  sc_bind_addr :: string
  sc_default_token :: "masked_string option"
  sc_jwt_secret :: masked_string
  sc_default_cloud_backend :: "string option"
  sc_services :: "(string, server_service) hash"
  sc_transport :: transport_config
  sc_heartbeat_interval :: u64

definition default_server_config :: server_config where
  "default_server_config =
     \<lparr>sc_bind_addr = [], sc_default_token = None, sc_jwt_secret = ''secret'', sc_default_cloud_backend = None,
      sc_services = [], sc_transport = default_transport_config,
      sc_heartbeat_interval = DEFAULT_HEARTBEAT_INTERVAL_SECS\<rparr>"

record config =
  server :: "server_config option"
  client :: "client_config option"

section \<open>Validation\<close>

definition validate_transport_config :: "transport_config \<Rightarrow> bool \<Rightarrow> config_err + unit" where
  "validate_transport_config cfg is_server =
     rbind (case tcp_proxy (tcp cfg) of
              None \<Rightarrow> Inr ()
            | Some u \<Rightarrow>
                if url_scheme u = ''socks5'' then Inr ()
                else if url_scheme u = ''http'' then Inr ()
                else Inl (Bad_Config (''Unknown proxy scheme: '' @ url_scheme u)))
       (\<lambda>_. case transport_type cfg of
              Transport_Tcp \<Rightarrow> Inr ()
            | Transport_Tls \<Rightarrow>
                rbind (ok_or (tls cfg) (Bad_Config ''Missing TLS configuration''))
                  (\<lambda>t. if is_server
                       then rbind (ok_or (case tls_pkcs12 t of None \<Rightarrow> None | Some _ \<Rightarrow> tls_pkcs12_password t)
                                     (Bad_Config ''Missing `pkcs12` or `pkcs12_password`''))
                              (\<lambda>_. Inr ())
                       else Inr ())
            | Transport_Noise \<Rightarrow> Inr ()
            | Transport_Websocket \<Rightarrow> Inr ())"

definition token_not_set :: "string \<Rightarrow> config_err" where
  "token_not_set n = Bad_Config (''The token of service '' @ n @ '' is not set'')"

text \<open>The loops over the services, one entry at a time in the order of the hash map.\<close>

fun validate_server_services ::
  "masked_string option \<Rightarrow> (string, server_service) hash \<Rightarrow> config_err + (string, server_service) hash" where
  "validate_server_services default_token [] = Inr []"
| "validate_server_services default_token ((n, s) # rest) =
     (let s1 = s\<lparr>ss_name := n\<rparr>
      in rbind (case ss_token s1 of
                  Some t \<Rightarrow> Inr s1
                | None \<Rightarrow> (case default_token of
                             None \<Rightarrow> Inl (token_not_set n)
                           | Some t \<Rightarrow> Inr (s1\<lparr>ss_token := Some t\<rparr>)))
           (\<lambda>s2. rbind (validate_server_services default_token rest) (\<lambda>rest'. Inr ((n, s2) # rest'))))"

fun validate_client_services ::
  "masked_string option \<Rightarrow> u64 \<Rightarrow> (string, client_service) hash \<Rightarrow> config_err + (string, client_service) hash" where
  "validate_client_services default_token retry [] = Inr []"
| "validate_client_services default_token retry ((n, s) # rest) =
     (let s1 = s\<lparr>cs_name := n\<rparr>
      in rbind (case cs_token s1 of
                  Some t \<Rightarrow> Inr s1
                | None \<Rightarrow> (case default_token of
                             None \<Rightarrow> Inl (token_not_set n)
                           | Some t \<Rightarrow> Inr (s1\<lparr>cs_token := Some t\<rparr>)))
           (\<lambda>s2. let s3 = (case cs_retry_interval s2 of
                             None \<Rightarrow> s2\<lparr>cs_retry_interval := Some retry\<rparr>
                           | Some r \<Rightarrow> s2)
                 in rbind (validate_client_services default_token retry rest) (\<lambda>rest'. Inr ((n, s3) # rest'))))"

definition validate_server_config :: "server_config \<Rightarrow> config_err + server_config" where
  "validate_server_config sc =
     rbind (validate_server_services (sc_default_token sc) (sc_services sc)) (\<lambda>svs.
     rbind (validate_transport_config (sc_transport sc) True) (\<lambda>_. Inr (sc\<lparr>sc_services := svs\<rparr>)))"

definition validate_client_config :: "client_config \<Rightarrow> config_err + client_config" where
  "validate_client_config cc =
     rbind (validate_client_services (cc_default_token cc) (cc_retry_interval cc) (cc_services cc)) (\<lambda>svs.
     rbind (validate_transport_config (cc_transport cc) False) (\<lambda>_. Inr (cc\<lparr>cc_services := svs\<rparr>)))"

definition in_context :: "string \<Rightarrow> config_err + 'a \<Rightarrow> config_err + 'a" where
  "in_context msg r = (case r of Inl e \<Rightarrow> Inl (In_Context msg e) | Inr x \<Rightarrow> Inr x)"

text \<open>\<open>Option::as_mut\<close> with a fallible update.\<close>

definition update_option :: "('a \<Rightarrow> 'e + 'a) \<Rightarrow> 'a option \<Rightarrow> 'e + 'a option" where
  "update_option f x = (case x of None \<Rightarrow> Inr None | Some a \<Rightarrow> rbind (f a) (\<lambda>b. Inr (Some b)))"

definition from_str :: "(string \<Rightarrow> config_err + config) \<Rightarrow> string \<Rightarrow> config_err + config" where
  "from_str toml s =
     rbind (in_context ''Failed to parse the config'' (toml s)) (\<lambda>cfg.
     rbind (update_option validate_server_config (server cfg)) (\<lambda>sv.
     rbind (update_option validate_client_config (client cfg)) (\<lambda>cl.
     if sv = None \<and> cl = None then Inl (Bad_Config ''Neither of `[server]` or `[client]` is defined'')
     else Inr (cfg\<lparr>server := sv, client := cl\<rparr>))))"

text \<open>\<open>from_file\<close> gets the contents of the file, or the error of reading it.\<close>

definition from_file :: "(string \<Rightarrow> config_err + config) \<Rightarrow> config_err + string \<Rightarrow> config_err + config" where
  "from_file toml contents =
     rbind (in_context ''Failed to read the config'' contents) (\<lambda>s.
     in_context ''Configuration is invalid. Please refer to the configuration specification.'' (from_str toml s))"

section \<open>What validation does\<close>

text \<open>The service a validated configuration has for an entry.\<close>

definition filled_server_service :: "masked_string option \<Rightarrow> string \<times> server_service \<Rightarrow> string \<times> server_service" where
  "filled_server_service dt = (\<lambda>(n, s).
     (n, s\<lparr>ss_name := n, ss_token := (case ss_token s of None \<Rightarrow> dt | Some t \<Rightarrow> Some t)\<rparr>))"

definition filled_client_service ::
  "masked_string option \<Rightarrow> u64 \<Rightarrow> string \<times> client_service \<Rightarrow> string \<times> client_service" where
  "filled_client_service dt retry = (\<lambda>(n, s).
     (n, s\<lparr>cs_name := n, cs_token := (case cs_token s of None \<Rightarrow> dt | Some t \<Rightarrow> Some t),
           cs_retry_interval := Some (case cs_retry_interval s of None \<Rightarrow> retry | Some r \<Rightarrow> r)\<rparr>))"

lemma filled_pair:
  "filled_server_service dt (n, s) =
    (n, s\<lparr>ss_name := n, ss_token := (case ss_token s of None \<Rightarrow> dt | Some t \<Rightarrow> Some t)\<rparr>)"
  "filled_client_service dt retry (n, c) =
    (n, c\<lparr>cs_name := n, cs_token := (case cs_token c of None \<Rightarrow> dt | Some t \<Rightarrow> Some t),
          cs_retry_interval := Some (case cs_retry_interval c of None \<Rightarrow> retry | Some r \<Rightarrow> r)\<rparr>)"
  by (simp_all add: filled_server_service_def filled_client_service_def)

lemma validate_server_services_iff:
  "validate_server_services dt svs = Inr svs' \<longleftrightarrow>
    (dt = None \<longrightarrow> (\<forall>(n, s) \<in> set svs. ss_token s \<noteq> None)) \<and> svs' = map (filled_server_service dt) svs"
proof (induction svs arbitrary: svs')
  case (Cons e rest)
  obtain n s where e: "e = (n, s)" by (cases e)
  from Cons.IH show ?case
    by (cases "ss_token s"; cases dt) (auto simp: e result_simps Let_def filled_pair)
qed (simp add: eq_commute)

lemma validate_client_services_iff:
  "validate_client_services dt retry svs = Inr svs' \<longleftrightarrow>
    (dt = None \<longrightarrow> (\<forall>(n, s) \<in> set svs. cs_token s \<noteq> None)) \<and> svs' = map (filled_client_service dt retry) svs"
proof (induction svs arbitrary: svs')
  case (Cons e rest)
  obtain n s where e: "e = (n, s)" by (cases e)
  from Cons.IH show ?case
    by (cases "cs_token s"; cases dt; cases "cs_retry_interval s")
      (auto simp: e result_simps Let_def filled_pair)
qed (simp add: eq_commute)

definition server_services_ok :: "(string, server_service) hash \<Rightarrow> bool" where
  "server_services_ok svs = list_all (\<lambda>(n, s). ss_name s = n \<and> ss_token s \<noteq> None) svs"

definition client_services_ok :: "(string, client_service) hash \<Rightarrow> bool" where
  "client_services_ok svs =
     list_all (\<lambda>(n, s). cs_name s = n \<and> cs_token s \<noteq> None \<and> cs_retry_interval s \<noteq> None) svs"

lemma validated_server_services_ok:
  "validate_server_services dt svs = Inr svs' \<Longrightarrow> server_services_ok svs'"
  by (auto simp: validate_server_services_iff server_services_ok_def list_all_iff filled_server_service_def
      split: option.splits)

lemma validated_client_services_ok:
  "validate_client_services dt retry svs = Inr svs' \<Longrightarrow> client_services_ok svs'"
  by (auto simp: validate_client_services_iff client_services_ok_def list_all_iff filled_client_service_def
      split: option.splits)

lemma filled_idem:
  "server_services_ok svs \<Longrightarrow> map (filled_server_service dt) svs = svs"
  "client_services_ok cvs \<Longrightarrow> map (filled_client_service dt retry) cvs = cvs"
  by (auto simp: server_services_ok_def client_services_ok_def list_all_iff filled_server_service_def
      filled_client_service_def intro!: map_idI)

lemma fst_filled [simp]:
  "map fst (map (filled_server_service dt) svs) = map fst svs"
  "map fst (map (filled_client_service dt retry) cvs) = map fst cvs"
  by (auto simp: filled_server_service_def filled_client_service_def)

text \<open>
  Validation of a server configuration, completely: it succeeds exactly when the transport is
  valid and every service has a token of its own or a default to inherit; the result then has every
  service under its key as its name, with its own token if set and the default otherwise, and
  nothing else changed.
\<close>

theorem validate_server_config_iff:
  "validate_server_config sc = Inr sc' \<longleftrightarrow>
    validate_transport_config (sc_transport sc) True = Inr ()
    \<and> (sc_default_token sc \<noteq> None \<or> list_all (\<lambda>(n, s). ss_token s \<noteq> None) (sc_services sc))
    \<and> sc' = sc\<lparr>sc_services := map (filled_server_service (sc_default_token sc)) (sc_services sc)\<rparr>"
  by (auto simp: validate_server_config_def result_simps validate_server_services_iff list_all_iff)

theorem validate_server_config_iff_witness:
  "validate_server_config (default_server_config\<lparr>sc_default_token := Some ''s'', sc_services := [(''a'', server_service_with_name [])]\<rparr>) =
    Inr (default_server_config\<lparr>sc_default_token := Some ''s'',
      sc_services := [(''a'', (server_service_with_name ''a'')\<lparr>ss_token := Some ''s''\<rparr>)]\<rparr>)"
  by (simp add: validate_server_config_iff validate_transport_config_def default_server_config_def
      default_transport_config_def default_tcp_config_def filled_pair server_service_with_name_def)

definition runtime_ok :: "config \<Rightarrow> bool" where
  "runtime_ok cfg =
     ((server cfg \<noteq> None \<or> client cfg \<noteq> None)
      \<and> (case server cfg of None \<Rightarrow> True | Some sc \<Rightarrow>
           server_services_ok (sc_services sc) \<and> validate_transport_config (sc_transport sc) True = Inr ())
      \<and> (case client cfg of None \<Rightarrow> True | Some cc \<Rightarrow>
           client_services_ok (cc_services cc) \<and> validate_transport_config (cc_transport cc) False = Inr ()))"

lemma validated_server_ok:
  "validate_server_config sc = Inr sc' \<Longrightarrow>
    server_services_ok (sc_services sc') \<and> validate_transport_config (sc_transport sc') True = Inr ()"
  by (auto simp: validate_server_config_def result_simps dest: validated_server_services_ok)

lemma validated_client_ok:
  "validate_client_config cc = Inr cc' \<Longrightarrow>
    client_services_ok (cc_services cc') \<and> validate_transport_config (cc_transport cc') False = Inr ()"
  by (auto simp: validate_client_config_def result_simps dest: validated_client_services_ok)

lemma from_str_cases:
  assumes "from_str toml s = Inr cfg"
  obtains cfg0 sv cl where "toml s = Inr cfg0" "update_option validate_server_config (server cfg0) = Inr sv"
    "update_option validate_client_config (client cfg0) = Inr cl" "sv \<noteq> None \<or> cl \<noteq> None"
    "cfg = cfg0\<lparr>server := sv, client := cl\<rparr>"
  using assms
  by (auto simp: from_str_def in_context_def result_simps split: if_splits sum.splits)

lemma from_str_runtime_ok: "from_str toml s = Inr cfg \<Longrightarrow> runtime_ok cfg"
  by (erule from_str_cases)
    (auto simp: runtime_ok_def update_option_def result_simps dest: validated_server_ok validated_client_ok
      split: option.splits)

lemma revalidate:
  "server_services_ok (sc_services sc) \<Longrightarrow> validate_transport_config (sc_transport sc) True = Inr () \<Longrightarrow>
    validate_server_config sc = Inr sc"
  "client_services_ok (cc_services cc) \<Longrightarrow> validate_transport_config (cc_transport cc) False = Inr () \<Longrightarrow>
    validate_client_config cc = Inr cc"
proof -
  assume "server_services_ok (sc_services sc)" "validate_transport_config (sc_transport sc) True = Inr ()"
  moreover from this have "validate_server_services (sc_default_token sc) (sc_services sc) = Inr (sc_services sc)"
    by (auto simp: validate_server_services_iff filled_idem) (auto simp: server_services_ok_def list_all_iff)
  ultimately show "validate_server_config sc = Inr sc" by (simp add: validate_server_config_def)
next
  assume "client_services_ok (cc_services cc)" "validate_transport_config (cc_transport cc) False = Inr ()"
  moreover from this have
    "validate_client_services (cc_default_token cc) (cc_retry_interval cc) (cc_services cc) = Inr (cc_services cc)"
    by (auto simp: validate_client_services_iff filled_idem) (auto simp: client_services_ok_def list_all_iff)
  ultimately show "validate_client_config cc = Inr cc" by (simp add: validate_client_config_def)
qed

text \<open>
  C40. A configuration the program accepts is fit to run: it has a server or a client part, every
  service carries its key as its name and a token, every client service a retry interval (so the
  \<open>unwrap\<close>s on them at run time do not panic), the transport is valid, and validating it again
  changes nothing.
\<close>

theorem accepted_config_is_runtime_ok:
  assumes "from_file toml contents = Inr cfg"
  shows "runtime_ok cfg
    \<and> update_option validate_server_config (server cfg) = Inr (server cfg)
    \<and> update_option validate_client_config (client cfg) = Inr (client cfg)"
proof -
  from assms obtain s where "from_str toml s = Inr cfg"
    by (auto simp: from_file_def in_context_def result_simps split: sum.splits)
  then have ok: "runtime_ok cfg" by (rule from_str_runtime_ok)
  then have "update_option validate_server_config (server cfg) = Inr (server cfg)"
    "update_option validate_client_config (client cfg) = Inr (client cfg)"
    by (auto simp: runtime_ok_def update_option_def revalidate split: option.splits)
  with ok show ?thesis by blast
qed

definition example_config :: config where
  "example_config =
     \<lparr>server = Some (default_server_config\<lparr>sc_default_token := Some ''secret'',
        sc_services := [(''app'', server_service_with_name []), (''db'', (server_service_with_name [])\<lparr>ss_token := Some ''own''\<rparr>)]\<rparr>),
      client = None\<rparr>"

theorem accepted_config_is_runtime_ok_witness:
  "runtime_ok (example_config\<lparr>server := map_option (\<lambda>sc. sc\<lparr>sc_services :=
      map (filled_server_service (Some ''secret'')) (sc_services sc)\<rparr>) (server example_config)\<rparr>)"
  by (rule accepted_config_is_runtime_ok [where toml = "\<lambda>_. Inr example_config" and contents = "Inr []", THEN conjunct1])
    (simp add: from_file_def from_str_def in_context_def update_option_def example_config_def
      default_server_config_def default_transport_config_def default_tcp_config_def
      validate_server_config_def validate_transport_config_def filled_server_service_def
      server_service_with_name_def Let_def)

text \<open>
  A configuration whose server part lacks a token for some service, with no default, is rejected
  with an error that names a service without a token, whatever the rest of it is.
\<close>

theorem missing_token_is_rejected:
  assumes "toml s = Inr cfg" "server cfg = Some sc" "sc_default_token sc = None"
    and "list_ex (\<lambda>(n, sv). ss_token sv = None) (sc_services sc)"
  shows "\<exists>n sv. (n, sv) \<in> set (sc_services sc) \<and> ss_token sv = None \<and> from_str toml s = Inl (token_not_set n)"
proof -
  have "\<exists>n sv. (n, sv) \<in> set svs \<and> ss_token sv = None \<and> validate_server_services None svs = Inl (token_not_set n)"
    if "list_ex (\<lambda>(n, sv). ss_token sv = None) svs" for svs
    using that
  proof (induction svs)
    case (Cons e svs)
    then show ?case by (cases e; cases "ss_token (snd e)") (fastforce simp: Let_def)+
  qed simp
  from this [OF assms(4)] obtain n sv where "(n, sv) \<in> set (sc_services sc)" "ss_token sv = None"
      "validate_server_services None (sc_services sc) = Inl (token_not_set n)" by blast
  with assms(1-3) show ?thesis
    by (intro exI [of _ n] exI [of _ sv])
      (simp add: from_str_def in_context_def update_option_def validate_server_config_def)
qed

definition tokenless_server :: server_config where
  "tokenless_server = default_server_config\<lparr>sc_services := [(''app'', server_service_with_name [])]\<rparr>"

theorem missing_token_is_rejected_witness:
  "from_str (\<lambda>_. Inr \<lparr>server = Some tokenless_server, client = None\<rparr>) [] = Inl (token_not_set ''app'')"
proof -
  have svs: "sc_services tokenless_server = [(''app'', server_service_with_name [])]"
    by (simp add: tokenless_server_def)
  have "\<exists>n sv. (n, sv) \<in> set (sc_services tokenless_server) \<and> ss_token sv = None
      \<and> from_str (\<lambda>_. Inr \<lparr>server = Some tokenless_server, client = None\<rparr>) [] = Inl (token_not_set n)"
    by (rule missing_token_is_rejected [where sc = tokenless_server and cfg = "\<lparr>server = Some tokenless_server, client = None\<rparr>"])
      (simp_all add: tokenless_server_def default_server_config_def server_service_with_name_def)
  then show ?thesis by (auto simp: svs)
qed

end
