(* ===== verification/Config_Watcher.thy ===== *)
theory Config_Watcher
  imports Config
begin

text \<open>
  Hot reload of \<open>src/rathole/src/config_watcher.rs\<close>: the events that lead from one configuration to
  the next, and the loop that produces them. The trait \<open>InstanceConfig\<close> is a record of its methods
  with the contract \<open>instance_config\<close>, interpreted for servers and clients.
\<close>

section \<open>Events\<close>

datatype client_service_change = Add_Client client_service | Delete_Client string
datatype server_service_change = Add_Server server_service | Delete_Server string

datatype config_change =
    General config
  | ServerChange server_service_change
  | ClientChange client_service_change

section \<open>Equality of configurations\<close>

text \<open>\<open>derive(PartialEq)\<close>: field by field, the services as hash maps.\<close>

definition server_eq_without_service :: "server_config \<Rightarrow> server_config \<Rightarrow> bool" where
  "server_eq_without_service a b = (a\<lparr>sc_services := []\<rparr> = b\<lparr>sc_services := []\<rparr>)"

definition client_eq_without_service :: "client_config \<Rightarrow> client_config \<Rightarrow> bool" where
  "client_eq_without_service a b = (a\<lparr>cc_services := []\<rparr> = b\<lparr>cc_services := []\<rparr>)"

definition server_config_eq :: "server_config \<Rightarrow> server_config \<Rightarrow> bool" where
  "server_config_eq a b = (server_eq_without_service a b \<and> hash_eq (sc_services a) (sc_services b))"

definition client_config_eq :: "client_config \<Rightarrow> client_config \<Rightarrow> bool" where
  "client_config_eq a b = (client_eq_without_service a b \<and> hash_eq (cc_services a) (cc_services b))"

definition option_eq :: "('a \<Rightarrow> 'a \<Rightarrow> bool) \<Rightarrow> 'a option \<Rightarrow> 'a option \<Rightarrow> bool" where
  "option_eq eq x y = (case x of None \<Rightarrow> y = None | Some a \<Rightarrow> (case y of None \<Rightarrow> False | Some b \<Rightarrow> eq a b))"

definition config_eq :: "config \<Rightarrow> config \<Rightarrow> bool" where
  "config_eq a b =
     (option_eq server_config_eq (server a) (server b) \<and> option_eq client_config_eq (client a) (client b))"

section \<open>Calculation of the events\<close>

record ('i, 's) instance_config =
  equal_without_service :: "'i \<Rightarrow> 'i \<Rightarrow> bool"
  service_delete_change :: "string \<Rightarrow> config_change"
  service_add_change :: "'s \<Rightarrow> config_change"
  get_services :: "'i \<Rightarrow> (string, 's) hash"

definition server_instance :: "(server_config, server_service) instance_config" where
  "server_instance =
     \<lparr>equal_without_service = server_eq_without_service,
      service_delete_change = (\<lambda>s. ServerChange (Delete_Server s)),
      service_add_change = (\<lambda>cfg. ServerChange (Add_Server cfg)),
      get_services = sc_services\<rparr>"

definition client_instance :: "(client_config, client_service) instance_config" where
  "client_instance =
     \<lparr>equal_without_service = client_eq_without_service,
      service_delete_change = (\<lambda>s. ClientChange (Delete_Client s)),
      service_add_change = (\<lambda>cfg. ClientChange (Add_Client cfg)),
      get_services = cc_services\<rparr>"

definition service_events ::
  "('i, 's) instance_config \<Rightarrow> (string, 's) hash \<Rightarrow> (string, 's) hash \<Rightarrow> config_change list" where
  "service_events ic old new =
     map (service_delete_change ic) (filter (\<lambda>n. map_of new n = None) (map fst old))
     @ map (\<lambda>e. service_add_change ic (snd e)) (filter (\<lambda>e. map_of old (fst e) \<noteq> Some (snd e)) new)"

definition calculate_instance_config_events ::
  "('i, 's) instance_config \<Rightarrow> 'i \<Rightarrow> 'i \<Rightarrow> config_change list option" where
  "calculate_instance_config_events ic old new =
     (if \<not> equal_without_service ic old new then None
      else Some (service_events ic (get_services ic old) (get_services ic new)))"

text \<open>The events of one part; \<open>Some []\<close> when the part is the same.\<close>

definition part_events ::
  "('i, 's) instance_config \<Rightarrow> ('i \<Rightarrow> 'i \<Rightarrow> bool) \<Rightarrow> 'i option \<Rightarrow> 'i option \<Rightarrow> config_change list option" where
  "part_events ic eq old new =
     (if option_eq eq old new then Some []
      else calculate_instance_config_events ic (the old) (the new))"

definition calculate_events :: "config \<Rightarrow> config \<Rightarrow> config_change list option" where
  "calculate_events old new =
     (if config_eq old new then None
      else if (server old \<noteq> None) \<noteq> (server new \<noteq> None) \<or> (client old \<noteq> None) \<noteq> (client new \<noteq> None)
      then Some [General new]
      else (case part_events server_instance server_config_eq (server old) (server new) of
              None \<Rightarrow> Some [General new]
            | Some v \<Rightarrow>
                (case part_events client_instance client_config_eq (client old) (client new) of
                   None \<Rightarrow> Some [General new]
                 | Some w \<Rightarrow> Some (v @ w))))"

section \<open>The watcher\<close>

text \<open>
  The task after the start: each notification makes it read the file again; what it read (the
  result of \<open>Config::from_file\<close>) is the input. It keeps the last valid configuration, sends events
  to an open channel, and stops at shutdown.
\<close>

datatype watch_input = Modified "config_err + config" | Watch_Shutdown

fun config_watcher :: "watch_input list \<Rightarrow> config \<Rightarrow> config_change list \<times> config" where
  "config_watcher [] old = ([], old)"
| "config_watcher (Watch_Shutdown # xs) old = ([], old)"
| "config_watcher (Modified (Inl e) # xs) old = config_watcher xs old"
| "config_watcher (Modified (Inr new) # xs) old =
     (let (evs, final) = config_watcher xs new
      in ((case calculate_events old new of None \<Rightarrow> [] | Some es \<Rightarrow> es) @ evs, final))"

text \<open>\<open>ConfigWatcherHandle::new\<close>: the first event is the whole configuration.\<close>

definition watcher_new :: "config_err + config \<Rightarrow> watch_input list \<Rightarrow> config_err + config_change list" where
  "watcher_new origin xs =
     rbind origin (\<lambda>cfg. Inr (General cfg # fst (config_watcher xs cfg)))"

section \<open>The contract of a part\<close>

text \<open>
  What an event means to a consumer that keeps the services of the part by name. The laws say that
  the two change events of the part act on its map, which is all the calculation relies on.
\<close>

locale instance_config =
  fixes ic :: "('i, 's) instance_config"
    and apply_ev :: "config_change \<Rightarrow> (string \<rightharpoonup> 's) \<Rightarrow> (string \<rightharpoonup> 's)"
    and name_of :: "'s \<Rightarrow> string"
  assumes apply_delete: "apply_ev (service_delete_change ic n) m = m(n := None)"
    and apply_add: "apply_ev (service_add_change ic c) m = m(name_of c \<mapsto> c)"
begin

definition names_ok :: "(string, 's) hash \<Rightarrow> bool" where
  "names_ok h = list_all (\<lambda>(n, s). name_of s = n) h"

lemma fold_deletes:
  "fold apply_ev (map (service_delete_change ic) ns) m = (\<lambda>n. if n \<in> set ns then None else m n)"
  by (induction ns arbitrary: m) (auto simp: apply_delete fun_eq_iff)

lemma fold_adds:
  assumes "distinct (map fst h)" "list_all (\<lambda>(n, s). name_of s = n) h"
  shows "fold apply_ev (map (\<lambda>e. service_add_change ic (snd e)) h) m = m ++ map_of h"
  using assms
proof (induction h arbitrary: m)
  case (Cons e h)
  then have "map_of h (fst e) = None" by (simp add: map_of_eq_None_iff)
  then have "m(fst e \<mapsto> snd e) ++ map_of h = m ++ map_of (e # h)"
    by (cases e) (auto simp: fun_eq_iff map_add_def split: option.splits)
  with Cons show ?case by (cases e) (simp add: apply_add del: map_of.simps)
qed simp

lemma map_of_filter_changed:
  "distinct (map fst h) \<Longrightarrow>
    map_of (filter (\<lambda>e. m (fst e) \<noteq> Some (snd e)) h) n = (if map_of h n = m n then None else map_of h n)"
  by (induction h) (auto simp: map_of_eq_None_iff rev_image_eqI split: if_splits)

lemma service_events_reach_new:
  assumes "hash_ok old" "hash_ok new" "names_ok new"
  shows "fold apply_ev (service_events ic old new) (map_of old) = map_of new"
proof -
  let ?ds = "filter (\<lambda>n. map_of new n = None) (map fst old)"
  let ?as = "filter (\<lambda>e. map_of old (fst e) \<noteq> Some (snd e)) new"
  have "distinct (map fst ?as)" "list_all (\<lambda>(n, s). name_of s = n) ?as"
    using assms by (auto simp: hash_ok_def names_ok_def distinct_fst_filter list_all_iff)
  then have "fold apply_ev (service_events ic old new) (map_of old)
      = (\<lambda>n. if n \<in> set ?ds then None else map_of old n) ++ map_of ?as"
    by (simp add: service_events_def fold_deletes fold_adds del: set_filter)
  also have "\<dots> = map_of new"
  proof
    fix n
    have "map_of ?as n = (if map_of new n = map_of old n then None else map_of new n)"
      using assms(2) by (simp add: hash_ok_def map_of_filter_changed)
    moreover have "n \<in> set ?ds \<longleftrightarrow> map_of new n = None \<and> map_of old n \<noteq> None"
      by (auto simp: map_of_eq_None_iff)
    ultimately show "((\<lambda>n. if n \<in> set ?ds then None else map_of old n) ++ map_of ?as) n = map_of new n"
      by (auto simp: map_add_def simp del: set_filter split: option.splits)
  qed
  finally show ?thesis .
qed

end

section \<open>Consumers\<close>

text \<open>The services a running instance has after an event, by name.\<close>

fun apply_server_event :: "config_change \<Rightarrow> (string \<rightharpoonup> server_service) \<Rightarrow> (string \<rightharpoonup> server_service)" where
  "apply_server_event (ServerChange (Add_Server c)) m = m(ss_name c \<mapsto> c)"
| "apply_server_event (ServerChange (Delete_Server n)) m = m(n := None)"
| "apply_server_event (ClientChange c) m = m"
| "apply_server_event (General cfg) m =
     (case server cfg of None \<Rightarrow> Map.empty | Some sc \<Rightarrow> map_of (sc_services sc))"

fun apply_client_event :: "config_change \<Rightarrow> (string \<rightharpoonup> client_service) \<Rightarrow> (string \<rightharpoonup> client_service)" where
  "apply_client_event (ClientChange (Add_Client c)) m = m(cs_name c \<mapsto> c)"
| "apply_client_event (ClientChange (Delete_Client n)) m = m(n := None)"
| "apply_client_event (ServerChange c) m = m"
| "apply_client_event (General cfg) m =
     (case client cfg of None \<Rightarrow> Map.empty | Some cc \<Rightarrow> map_of (cc_services cc))"

interpretation srv: instance_config server_instance apply_server_event ss_name
  by unfold_locales (simp_all add: server_instance_def)

interpretation clt: instance_config client_instance apply_client_event cs_name
  by unfold_locales (simp_all add: client_instance_def)

definition server_view :: "config \<Rightarrow> string \<rightharpoonup> server_service" where
  "server_view cfg = (case server cfg of None \<Rightarrow> Map.empty | Some sc \<Rightarrow> map_of (sc_services sc))"

definition client_view :: "config \<Rightarrow> string \<rightharpoonup> client_service" where
  "client_view cfg = (case client cfg of None \<Rightarrow> Map.empty | Some cc \<Rightarrow> map_of (cc_services cc))"

definition config_wf :: "config \<Rightarrow> bool" where
  "config_wf cfg =
     ((case server cfg of None \<Rightarrow> True | Some sc \<Rightarrow> hash_ok (sc_services sc) \<and> server_services_ok (sc_services sc))
      \<and> (case client cfg of None \<Rightarrow> True | Some cc \<Rightarrow> hash_ok (cc_services cc) \<and> client_services_ok (cc_services cc)))"

text \<open>The part of a configuration that no service change can express.\<close>

definition same_frame :: "config \<Rightarrow> config \<Rightarrow> bool" where
  "same_frame a b =
     (option_eq server_eq_without_service (server a) (server b)
      \<and> option_eq client_eq_without_service (client a) (client b))"

lemma server_instance_sel [simp]:
  "equal_without_service server_instance = server_eq_without_service"
  "get_services server_instance = sc_services"
  by (simp_all add: server_instance_def)

lemma client_instance_sel [simp]:
  "equal_without_service client_instance = client_eq_without_service"
  "get_services client_instance = cc_services"
  by (simp_all add: client_instance_def)

lemma service_events_kinds:
  "e \<in> set (service_events server_instance a b) \<Longrightarrow> \<exists>c. e = ServerChange c"
  "e \<in> set (service_events client_instance a' b') \<Longrightarrow> \<exists>c. e = ClientChange c"
  by (auto simp: service_events_def server_instance_def client_instance_def)

lemma fold_other:
  "(\<And>e. e \<in> set es \<Longrightarrow> \<exists>c. e = ClientChange c) \<Longrightarrow> fold apply_server_event es m = m"
  "(\<And>e. e \<in> set es \<Longrightarrow> \<exists>c. e = ServerChange c) \<Longrightarrow> fold apply_client_event es m' = m'"
  by (induction es) fastforce+

lemma names_ok:
  "server_services_ok svs \<Longrightarrow> srv.names_ok svs"
  "client_services_ok cvs \<Longrightarrow> clt.names_ok cvs"
  by (auto simp: server_services_ok_def client_services_ok_def srv.names_ok_def clt.names_ok_def list_all_iff)

lemma part_events_server:
  assumes "(sv \<noteq> None) = (sv' \<noteq> None)"
    and "\<And>sc. sv = Some sc \<Longrightarrow> hash_ok (sc_services sc)"
    and "\<And>sc. sv' = Some sc \<Longrightarrow> hash_ok (sc_services sc) \<and> server_services_ok (sc_services sc)"
  shows "part_events server_instance server_config_eq sv sv' = None \<longleftrightarrow> \<not> option_eq server_eq_without_service sv sv'"
    and "part_events server_instance server_config_eq sv sv' = Some es \<Longrightarrow>
      fold apply_server_event es (case sv of None \<Rightarrow> Map.empty | Some sc \<Rightarrow> map_of (sc_services sc))
        = (case sv' of None \<Rightarrow> Map.empty | Some sc \<Rightarrow> map_of (sc_services sc))
      \<and> (\<forall>e \<in> set es. \<exists>c. e = ServerChange c)"
  using assms srv.service_events_reach_new
  by (auto simp: part_events_def option_eq_def calculate_instance_config_events_def server_config_eq_def
      hash_eq_iff names_ok service_events_kinds split: option.splits if_splits)

lemma part_events_client:
  assumes "(cl \<noteq> None) = (cl' \<noteq> None)"
    and "\<And>cc. cl = Some cc \<Longrightarrow> hash_ok (cc_services cc)"
    and "\<And>cc. cl' = Some cc \<Longrightarrow> hash_ok (cc_services cc) \<and> client_services_ok (cc_services cc)"
  shows "part_events client_instance client_config_eq cl cl' = None \<longleftrightarrow> \<not> option_eq client_eq_without_service cl cl'"
    and "part_events client_instance client_config_eq cl cl' = Some es \<Longrightarrow>
      fold apply_client_event es (case cl of None \<Rightarrow> Map.empty | Some cc \<Rightarrow> map_of (cc_services cc))
        = (case cl' of None \<Rightarrow> Map.empty | Some cc \<Rightarrow> map_of (cc_services cc))
      \<and> (\<forall>e \<in> set es. \<exists>c. e = ClientChange c)"
  using assms clt.service_events_reach_new
  by (auto simp: part_events_def option_eq_def calculate_instance_config_events_def client_config_eq_def
      hash_eq_iff names_ok service_events_kinds split: option.splits if_splits)

lemma config_wfD:
  "config_wf cfg \<Longrightarrow> server cfg = Some sc \<Longrightarrow> hash_ok (sc_services sc) \<and> server_services_ok (sc_services sc)"
  "config_wf cfg \<Longrightarrow> client cfg = Some cc \<Longrightarrow> hash_ok (cc_services cc) \<and> client_services_ok (cc_services cc)"
  by (auto simp: config_wf_def)

lemma config_eq_views:
  assumes "config_wf old" "config_wf new" "config_eq old new"
  shows "server_view old = server_view new" "client_view old = client_view new"
  using assms
  by (auto simp: config_wf_def config_eq_def option_eq_def server_view_def client_view_def server_config_eq_def
      client_config_eq_def hash_eq_iff split: option.splits)

lemma calculate_events_general:
  assumes "config_wf old" "config_wf new"
  shows "calculate_events old new = Some [General new] \<or>
    (\<exists>v w. calculate_events old new = Some (v @ w)
      \<and> part_events server_instance server_config_eq (server old) (server new) = Some v
      \<and> part_events client_instance client_config_eq (client old) (client new) = Some w
      \<and> (server old \<noteq> None) = (server new \<noteq> None) \<and> (client old \<noteq> None) = (client new \<noteq> None)) \<or>
    calculate_events old new = None \<and> config_eq old new"
  by (auto simp: calculate_events_def split: option.splits)

lemma calculate_events_views:
  assumes "config_wf old" "config_wf new"
  shows "fold apply_server_event (case calculate_events old new of None \<Rightarrow> [] | Some es \<Rightarrow> es) (server_view old)
      = server_view new"
    and "fold apply_client_event (case calculate_events old new of None \<Rightarrow> [] | Some es \<Rightarrow> es) (client_view old)
      = client_view new"
proof -
  consider (general) "calculate_events old new = Some [General new]"
    | (changes) v w where "calculate_events old new = Some (v @ w)"
        "part_events server_instance server_config_eq (server old) (server new) = Some v"
        "part_events client_instance client_config_eq (client old) (client new) = Some w"
        "(server old \<noteq> None) = (server new \<noteq> None)" "(client old \<noteq> None) = (client new \<noteq> None)"
    | (same) "calculate_events old new = None" "config_eq old new"
    using calculate_events_general [OF assms] by metis
  then have "fold apply_server_event (case calculate_events old new of None \<Rightarrow> [] | Some es \<Rightarrow> es) (server_view old)
      = server_view new
    \<and> fold apply_client_event (case calculate_events old new of None \<Rightarrow> [] | Some es \<Rightarrow> es) (client_view old)
      = client_view new"
  proof cases
    case general
    then show ?thesis by (simp add: server_view_def client_view_def)
  next
    case changes
    have v: "fold apply_server_event v (server_view old) = server_view new" "\<forall>e \<in> set v. \<exists>c. e = ServerChange c"
      using part_events_server(2) [OF changes(4) _ _ changes(2)] config_wfD assms
      by (simp_all add: server_view_def)
    have w: "fold apply_client_event w (client_view old) = client_view new" "\<forall>e \<in> set w. \<exists>c. e = ClientChange c"
      using part_events_client(2) [OF changes(5) _ _ changes(3)] config_wfD assms
      by (simp_all add: client_view_def)
    show ?thesis
      using v w changes(1) by (simp add: fold_other)
  next
    case same
    then show ?thesis using config_eq_views [OF assms same(2)] by simp
  qed
  then show "fold apply_server_event (case calculate_events old new of None \<Rightarrow> [] | Some es \<Rightarrow> es) (server_view old)
      = server_view new"
    "fold apply_client_event (case calculate_events old new of None \<Rightarrow> [] | Some es \<Rightarrow> es) (client_view old)
      = client_view new" by simp_all
qed

section \<open>Properties of hot reload\<close>

text \<open>
  C8. Hot reload reaches the new configuration: applying the calculated events in order to the
  services of the old configuration gives exactly those of the new one, for the server and for the
  client part, in whatever order the hash maps iterate.
\<close>

theorem events_lead_to_new_config:
  assumes "config_wf old" "config_wf new" "calculate_events old new = Some es"
  shows "fold apply_server_event es (server_view old) = server_view new
    \<and> fold apply_client_event es (client_view old) = client_view new"
  using calculate_events_views [OF assms(1,2)] assms(3) by simp

definition config_a :: config where
  "config_a = \<lparr>server = Some (default_server_config\<lparr>sc_services :=
     [(''app'', \<lparr>ss_type = Service_Tcp, ss_name = ''app'', ss_bind_addr = ''0.0.0.0:80'', ss_token = Some ''t'', ss_nodelay = None\<rparr>)]\<rparr>),
     client = None\<rparr>"

definition config_b :: config where
  "config_b = \<lparr>server = Some (default_server_config\<lparr>sc_services :=
     [(''db'', \<lparr>ss_type = Service_Udp, ss_name = ''db'', ss_bind_addr = ''0.0.0.0:53'', ss_token = Some ''t'', ss_nodelay = None\<rparr>)]\<rparr>),
     client = None\<rparr>"

lemma config_ab_wf: "config_wf config_a" "config_wf config_b"
  by (simp_all add: config_wf_def config_a_def config_b_def hash_ok_def server_services_ok_def)

lemma config_ab_events:
  "calculate_events config_a config_b =
     Some [ServerChange (Delete_Server ''app''),
           ServerChange (Add_Server \<lparr>ss_type = Service_Udp, ss_name = ''db'', ss_bind_addr = ''0.0.0.0:53'',
             ss_token = Some ''t'', ss_nodelay = None\<rparr>)]"
  by (simp add: calculate_events_def config_a_def config_b_def config_eq_def option_eq_def part_events_def
      server_config_eq_def hash_eq_def server_eq_without_service_def calculate_instance_config_events_def
      service_events_def server_instance_def)

theorem events_lead_to_new_config_witness:
  "fold apply_server_event
     [ServerChange (Delete_Server ''app''),
      ServerChange (Add_Server \<lparr>ss_type = Service_Udp, ss_name = ''db'', ss_bind_addr = ''0.0.0.0:53'',
        ss_token = Some ''t'', ss_nodelay = None\<rparr>)] (server_view config_a) = server_view config_b"
  using events_lead_to_new_config [OF config_ab_wf config_ab_events] by blast

text \<open>
  A restart is asked for exactly when it is needed: the events are the single \<open>General\<close> when
  a part appears or disappears or anything besides the services of a part differs, there are none
  when the configurations are equal, and otherwise every event is a change of one service.
\<close>

theorem general_event_iff_frame_changed:
  assumes "config_wf old" "config_wf new"
  shows "(calculate_events old new = Some [General new] \<longleftrightarrow> \<not> same_frame old new)
    \<and> (calculate_events old new = None \<longleftrightarrow> config_eq old new)"
proof
  show "calculate_events old new = None \<longleftrightarrow> config_eq old new"
    by (auto simp: calculate_events_def split: option.splits)
  have eq_frame: "config_eq old new \<Longrightarrow> same_frame old new"
    by (auto simp: config_eq_def same_frame_def option_eq_def server_config_eq_def client_config_eq_def
        split: option.splits)
  have presence: "same_frame old new \<Longrightarrow> (server old \<noteq> None) = (server new \<noteq> None) \<and> (client old \<noteq> None) = (client new \<noteq> None)"
    by (auto simp: same_frame_def option_eq_def split: option.splits)
  show "calculate_events old new = Some [General new] \<longleftrightarrow> \<not> same_frame old new"
  proof (cases "(server old \<noteq> None) = (server new \<noteq> None) \<and> (client old \<noteq> None) = (client new \<noteq> None)")
    case True
    have s: "part_events server_instance server_config_eq (server old) (server new) = None \<longleftrightarrow>
        \<not> option_eq server_eq_without_service (server old) (server new)"
      by (rule part_events_server(1)) (use True config_wfD assms in auto)
    have c: "part_events client_instance client_config_eq (client old) (client new) = None \<longleftrightarrow>
        \<not> option_eq client_eq_without_service (client old) (client new)"
      by (rule part_events_client(1)) (use True config_wfD assms in auto)
    have kinds: "General new \<notin> set v" if
        "part_events server_instance server_config_eq (server old) (server new) = Some v
        \<or> part_events client_instance client_config_eq (client old) (client new) = Some v" for v
      using that
      by (auto simp: part_events_def calculate_instance_config_events_def dest!: service_events_kinds
          split: if_splits)
    have "v @ w \<noteq> [General new]" if
        "part_events server_instance server_config_eq (server old) (server new) = Some v"
        "part_events client_instance client_config_eq (client old) (client new) = Some w" for v w
      using kinds [of v] kinds [of w] that by (metis Un_iff list.set_intros(1) set_append)
    with True s c eq_frame show ?thesis
      by (auto simp: calculate_events_def same_frame_def split: option.splits)
  next
    case False
    then show ?thesis using presence eq_frame by (auto simp: calculate_events_def)
  qed
qed

theorem general_event_iff_frame_changed_witness:
  "calculate_events config_a (config_b\<lparr>client := None, server := map_option (\<lambda>sc. sc\<lparr>sc_bind_addr := ''x''\<rparr>) (server config_b)\<rparr>) =
   Some [General (config_b\<lparr>client := None, server := map_option (\<lambda>sc. sc\<lparr>sc_bind_addr := ''x''\<rparr>) (server config_b)\<rparr>)]"
  by (subst general_event_iff_frame_changed [THEN conjunct1])
    (simp_all add: config_wf_def config_a_def config_b_def hash_ok_def server_services_ok_def same_frame_def
      option_eq_def server_eq_without_service_def default_server_config_def)

lemma config_watcher_views:
  assumes "config_wf cfg" "list_all (\<lambda>x. case x of Modified (Inr c) \<Rightarrow> config_wf c | _ \<Rightarrow> True) xs"
  shows "fold apply_server_event (fst (config_watcher xs cfg)) (server_view cfg) = server_view (snd (config_watcher xs cfg))
    \<and> fold apply_client_event (fst (config_watcher xs cfg)) (client_view cfg) = client_view (snd (config_watcher xs cfg))"
  using assms
  by (induction xs cfg rule: config_watcher.induct)
    (auto simp: calculate_events_views split: prod.splits)

text \<open>The last configuration that was valid when it was read.\<close>

fun last_valid :: "watch_input list \<Rightarrow> config \<Rightarrow> config" where
  "last_valid [] c = c"
| "last_valid (Watch_Shutdown # xs) c = c"
| "last_valid (Modified (Inl e) # xs) c = last_valid xs c"
| "last_valid (Modified (Inr c') # xs) c = last_valid xs c'"

lemma config_watcher_last: "snd (config_watcher xs c) = last_valid xs c"
  by (induction xs c rule: config_watcher.induct) (auto split: prod.splits)

text \<open>
  Whatever is written to the configuration file over time, a consumer that starts from nothing
  and applies the events the watcher sends has the services of the last version of the file that was
  valid: invalid versions in between are ignored and nothing drifts.
\<close>

theorem watcher_tracks_last_valid_config:
  assumes "config_wf cfg" "list_all (\<lambda>x. case x of Modified (Inr c) \<Rightarrow> config_wf c | _ \<Rightarrow> True) xs"
  shows "\<exists>es. watcher_new (Inr cfg) xs = Inr es
    \<and> fold apply_server_event es Map.empty = server_view (last_valid xs cfg)
    \<and> fold apply_client_event es Map.empty = client_view (last_valid xs cfg)"
  using config_watcher_views [OF assms] config_watcher_last [of xs cfg]
  by (simp add: watcher_new_def server_view_def client_view_def)

theorem watcher_tracks_last_valid_config_witness:
  "\<exists>es. watcher_new (Inr config_a) [Modified (Inl (Bad_Config [])), Modified (Inr config_b)] = Inr es
    \<and> fold apply_server_event es Map.empty = server_view config_b"
  using watcher_tracks_last_valid_config [of config_a "[Modified (Inl (Bad_Config [])), Modified (Inr config_b)]"]
  by (auto simp: config_ab_wf)

end
