(* ===== verification/Multi_Map.thy ===== *)
theory Multi_Map
  imports Prelude
begin

text \<open>
  The two-key hash map of \<open>src/rathole/src/multi_map.rs\<close>. Both hash maps hold raw pointers
  into boxes owned by the map: the key of an entry is itself a pointer into the box
  (\<open>Key(&item.0)\<close>, \<open>Key(&item.1)\<close>), so a lookup dereferences the keys it compares. The model
  keeps the boxes in an explicit heap and makes every dereference and every free a checked
  operation: touching a box that is not live is a fault. The library's hash map is modelled by
  its contract, a list of entries searched by key equality.
\<close>

section \<open>State\<close>

type_synonym addr = nat

text \<open>An entry of a hash map: the key pointer and the item pointer (\<open>RawItem\<close>).\<close>

type_synonym entry = "addr \<times> addr"

record ('k1, 'k2, 'v) multi_map =
  boxes :: "(addr \<times> ('k1 \<times> 'k2 \<times> 'v)) list"
  map1 :: "entry list"
  map2 :: "entry list"

definition mm_new :: "('k1, 'k2, 'v) multi_map" where
  "mm_new = \<lparr>boxes = [], map1 = [], map2 = []\<rparr>"

section \<open>Boxes\<close>

definition fresh_addr :: "(addr \<times> 'b) list \<Rightarrow> addr" where
  "fresh_addr h = Suc (foldr (\<lambda>e m. max (fst e) m) h 0)"

definition deref :: "(addr \<times> 'b) list \<Rightarrow> addr \<Rightarrow> fault + 'b" where
  "deref h a = ok_or (map_of h a) (Use_After_Free a)"

text \<open>\<open>Box::from_raw\<close>: take the contents and give the memory back.\<close>

definition from_raw :: "addr \<Rightarrow> (addr \<times> 'b) list \<Rightarrow> fault + ('b \<times> (addr \<times> 'b) list)" where
  "from_raw a h =
     (case map_of h a of
        None \<Rightarrow> Inl (Double_Free a)
      | Some b \<Rightarrow> Inr (b, filter (\<lambda>e. fst e \<noteq> a) h))"

definition write_box :: "addr \<Rightarrow> 'b \<Rightarrow> (addr \<times> 'b) list \<Rightarrow> (addr \<times> 'b) list" where
  "write_box a b h = map (\<lambda>e. if fst e = a then (a, b) else e) h"

section \<open>The hash maps, keyed through pointers\<close>

text \<open>
  \<open>proj\<close> reads the key out of the box a key pointer points into: the first component for
  \<open>Key<K1>\<close>, the second for \<open>Key<K2>\<close>. A search compares entries until one is equal.
\<close>

fun hm_get :: "('b \<Rightarrow> 'k) \<Rightarrow> (addr \<times> 'b) list \<Rightarrow> 'k \<Rightarrow> entry list \<Rightarrow> fault + addr option" where
  "hm_get proj h k [] = Inr None"
| "hm_get proj h k ((kp, ip) # es) =
     rbind (deref h kp) (\<lambda>b. if proj b = k then Inr (Some ip) else hm_get proj h k es)"

fun hm_remove ::
  "('b \<Rightarrow> 'k) \<Rightarrow> (addr \<times> 'b) list \<Rightarrow> 'k \<Rightarrow> entry list \<Rightarrow> fault + (addr option \<times> entry list)" where
  "hm_remove proj h k [] = Inr (None, [])"
| "hm_remove proj h k ((kp, ip) # es) =
     rbind (deref h kp) (\<lambda>b.
       if proj b = k then Inr (Some ip, es)
       else rbind (hm_remove proj h k es) (\<lambda>(r, es'). Inr (r, (kp, ip) # es')))"

text \<open>\<open>HashMap::insert\<close> keeps the old key and replaces the value when an equal key is present.\<close>

fun hm_insert ::
  "('b \<Rightarrow> 'k) \<Rightarrow> (addr \<times> 'b) list \<Rightarrow> entry \<Rightarrow> 'k \<Rightarrow> entry list \<Rightarrow> fault + entry list" where
  "hm_insert proj h e k [] = Inr [e]"
| "hm_insert proj h e k ((kp, ip) # es) =
     rbind (deref h kp) (\<lambda>b.
       if proj b = k then Inr ((kp, snd e) # es)
       else rbind (hm_insert proj h e k es) (\<lambda>es'. Inr ((kp, ip) # es')))"

definition key1 :: "'k1 \<times> 'k2 \<times> 'v \<Rightarrow> 'k1" where
  "key1 t = fst t"

definition key2 :: "'k1 \<times> 'k2 \<times> 'v \<Rightarrow> 'k2" where
  "key2 t = fst (snd t)"

definition item :: "'k1 \<times> 'k2 \<times> 'v \<Rightarrow> 'v" where
  "item t = snd (snd t)"

lemma key_simps [simp]:
  "key1 (a, b, c) = a" "key2 (a, b, c) = b" "item (a, b, c) = c"
  by (simp_all add: key1_def key2_def item_def)

section \<open>Operations\<close>

type_synonym ('k1, 'k2, 'v) mm_insert_result =
  "(('k1 \<times> 'k2 \<times> 'v) + unit) \<times> ('k1, 'k2, 'v) multi_map"

text \<open>
  \<open>insert\<close>: the inner sum is the code's \<open>Result\<close>, \<open>Inl\<close> hands the triple back. The second
  \<open>contains_key\<close> runs only when the first is false.
\<close>

definition mm_insert ::
  "'k1 \<Rightarrow> 'k2 \<Rightarrow> 'v \<Rightarrow> ('k1, 'k2, 'v) multi_map \<Rightarrow> fault + ('k1, 'k2, 'v) mm_insert_result" where
  "mm_insert k1 k2 v m =
     rbind (hm_get key1 (boxes m) k1 (map1 m)) (\<lambda>c1.
     rbind (if c1 \<noteq> None then Inr True
            else rbind (hm_get key2 (boxes m) k2 (map2 m)) (\<lambda>c2. Inr (c2 \<noteq> None))) (\<lambda>taken.
     if taken then Inr (Inl (k1, k2, v), m)
     else
       let a = fresh_addr (boxes m); h = (a, (k1, k2, v)) # boxes m in
       rbind (hm_insert key1 h (a, a) k1 (map1 m)) (\<lambda>m1.
       rbind (hm_insert key2 h (a, a) k2 (map2 m)) (\<lambda>m2.
       Inr (Inr (), \<lparr>boxes = h, map1 = m1, map2 = m2\<rparr>)))))"

definition mm_get1 :: "'k1 \<Rightarrow> ('k1, 'k2, 'v) multi_map \<Rightarrow> fault + 'v option" where
  "mm_get1 k1 m =
     rbind (hm_get key1 (boxes m) k1 (map1 m)) (\<lambda>r.
       case r of None \<Rightarrow> Inr None
       | Some a \<Rightarrow> rbind (deref (boxes m) a) (\<lambda>t. Inr (Some (item t))))"

definition mm_get2 :: "'k2 \<Rightarrow> ('k1, 'k2, 'v) multi_map \<Rightarrow> fault + 'v option" where
  "mm_get2 k2 m =
     rbind (hm_get key2 (boxes m) k2 (map2 m)) (\<lambda>r.
       case r of None \<Rightarrow> Inr None
       | Some a \<Rightarrow> rbind (deref (boxes m) a) (\<lambda>t. Inr (Some (item t))))"

text \<open>
  \<open>get1_mut\<close> and \<open>get_mut2\<close> lend a mutable reference to the value in the box; the borrower's
  update of it is the function \<open>f\<close>.
\<close>

definition update_item :: "('v \<Rightarrow> 'v) \<Rightarrow> 'k1 \<times> 'k2 \<times> 'v \<Rightarrow> 'k1 \<times> 'k2 \<times> 'v" where
  "update_item f t = (key1 t, key2 t, f (item t))"

definition mm_get1_mut ::
  "('v \<Rightarrow> 'v) \<Rightarrow> 'k1 \<Rightarrow> ('k1, 'k2, 'v) multi_map \<Rightarrow> fault + ('v option \<times> ('k1, 'k2, 'v) multi_map)" where
  "mm_get1_mut f k1 m =
     rbind (hm_get key1 (boxes m) k1 (map1 m)) (\<lambda>r.
       case r of None \<Rightarrow> Inr (None, m)
       | Some a \<Rightarrow> rbind (deref (boxes m) a) (\<lambda>t.
           Inr (Some (item t), m\<lparr>boxes := write_box a (update_item f t) (boxes m)\<rparr>)))"

definition mm_get_mut2 ::
  "('v \<Rightarrow> 'v) \<Rightarrow> 'k2 \<Rightarrow> ('k1, 'k2, 'v) multi_map \<Rightarrow> fault + ('v option \<times> ('k1, 'k2, 'v) multi_map)" where
  "mm_get_mut2 f k2 m =
     rbind (hm_get key2 (boxes m) k2 (map2 m)) (\<lambda>r.
       case r of None \<Rightarrow> Inr (None, m)
       | Some a \<Rightarrow> rbind (deref (boxes m) a) (\<lambda>t.
           Inr (Some (item t), m\<lparr>boxes := write_box a (update_item f t) (boxes m)\<rparr>)))"

text \<open>
  \<open>remove1\<close>: unlink in \<open>map1\<close>, read the other key through the box, unlink in \<open>map2\<close> while the
  box is still live, and only then free it, when the local \<open>item\<close> goes out of scope.
\<close>

definition mm_remove1 ::
  "'k1 \<Rightarrow> ('k1, 'k2, 'v) multi_map \<Rightarrow> fault + ('v option \<times> ('k1, 'k2, 'v) multi_map)" where
  "mm_remove1 k1 m =
     rbind (hm_remove key1 (boxes m) k1 (map1 m)) (\<lambda>(r, m1).
       case r of None \<Rightarrow> Inr (None, m\<lparr>map1 := m1\<rparr>)
       | Some a \<Rightarrow>
           rbind (deref (boxes m) a) (\<lambda>t.
           rbind (hm_remove key2 (boxes m) (key2 t) (map2 m)) (\<lambda>(_, m2).
           rbind (from_raw a (boxes m)) (\<lambda>(t', h).
             Inr (Some (item t'), \<lparr>boxes = h, map1 = m1, map2 = m2\<rparr>)))))"

definition mm_remove2 ::
  "'k2 \<Rightarrow> ('k1, 'k2, 'v) multi_map \<Rightarrow> fault + ('v option \<times> ('k1, 'k2, 'v) multi_map)" where
  "mm_remove2 k2 m =
     rbind (hm_remove key2 (boxes m) k2 (map2 m)) (\<lambda>(r, m2).
       case r of None \<Rightarrow> Inr (None, m\<lparr>map2 := m2\<rparr>)
       | Some a \<Rightarrow>
           rbind (deref (boxes m) a) (\<lambda>t.
           rbind (hm_remove key1 (boxes m) (key1 t) (map1 m)) (\<lambda>(_, m1).
           rbind (from_raw a (boxes m)) (\<lambda>(t', h).
             Inr (Some (item t'), \<lparr>boxes = h, map1 = m1, map2 = m2\<rparr>)))))"

text \<open>\<open>Drop\<close>: clear \<open>map1\<close>, then drain \<open>map2\<close> and free the box of each entry.\<close>

fun free_all :: "entry list \<Rightarrow> (addr \<times> 'b) list \<Rightarrow> fault + (addr \<times> 'b) list" where
  "free_all [] h = Inr h"
| "free_all ((kp, ip) # es) h = rbind (from_raw ip h) (\<lambda>(_, h'). free_all es h')"

definition mm_drop :: "('k1, 'k2, 'v) multi_map \<Rightarrow> fault + (addr \<times> ('k1 \<times> 'k2 \<times> 'v)) list" where
  "mm_drop m = free_all (map2 m) (boxes m)"

section \<open>Invariant and abstraction\<close>

definition live :: "(addr \<times> 'b) list \<Rightarrow> entry list \<Rightarrow> bool" where
  "live h es = (fst ` set es \<subseteq> fst ` set h)"

definition key_at :: "('b \<Rightarrow> 'k) \<Rightarrow> (addr \<times> 'b) list \<Rightarrow> entry \<Rightarrow> 'k" where
  "key_at proj h e = proj (the (map_of h (fst e)))"

text \<open>
  \<open>indexes\<close>: a hash map has exactly one entry for each box, whose key pointer and item
  pointer both point to that box, and the keys in the boxes are distinct.
\<close>

definition indexes :: "('b \<Rightarrow> 'k) \<Rightarrow> (addr \<times> 'b) list \<Rightarrow> entry list \<Rightarrow> bool" where
  "indexes proj h es =
     (distinct es \<and> set es = (\<lambda>e. (fst e, fst e)) ` set h
      \<and> distinct (map (\<lambda>e. proj (snd e)) h))"

definition mm_inv :: "('k1, 'k2, 'v) multi_map \<Rightarrow> bool" where
  "mm_inv m =
     (distinct (map fst (boxes m))
      \<and> indexes key1 (boxes m) (map1 m) \<and> indexes key2 (boxes m) (map2 m))"

text \<open>The abstract value: a table from the first key to the second key and the item.\<close>

definition mm_tbl :: "('k1, 'k2, 'v) multi_map \<Rightarrow> ('k1 \<rightharpoonup> 'k2 \<times> 'v)" where
  "mm_tbl m = map_of (map (\<lambda>e. (key1 (snd e), (key2 (snd e), item (snd e)))) (boxes m))"

lemma fresh_addr_gt: "e \<in> set h \<Longrightarrow> fst e < fresh_addr h"
  unfolding fresh_addr_def by (induction h) (auto simp: less_Suc_eq_le max_def)

lemma fresh_addr_notin: "fresh_addr h \<notin> fst ` set h"
  using fresh_addr_gt by fastforce

lemma live_Cons [simp]: "live h (e # es) \<longleftrightarrow> (\<exists>b. map_of h (fst e) = Some b) \<and> live h es"
  using map_of_eq_None_iff [of h "fst e"] by (auto simp: live_def)

lemma live_Nil [simp]: "live h []"
  by (simp add: live_def)

lemma deref_live: "map_of h a = Some b \<Longrightarrow> deref h a = Inr b"
  by (simp add: deref_def)

lemma deref_in: "distinct (map fst h) \<Longrightarrow> (a, b) \<in> set h \<Longrightarrow> deref h a = Inr b"
  by (simp add: deref_def)

lemma from_raw_in:
  "distinct (map fst h) \<Longrightarrow> (a, b) \<in> set h \<Longrightarrow> from_raw a h = Inr (b, filter (\<lambda>e. fst e \<noteq> a) h)"
  by (simp add: from_raw_def)

text \<open>On live entries the three hash-map operations never fault and are plain list functions.\<close>

lemma hm_get_live:
  "live h es \<Longrightarrow> hm_get proj h k es = Inr (map_option snd (find (\<lambda>e. key_at proj h e = k) es))"
  by (induction es) (auto simp: key_at_def deref_live)

lemma hm_insert_new:
  "live h es \<Longrightarrow> (\<forall>x \<in> set es. key_at proj h x \<noteq> k) \<Longrightarrow> hm_insert proj h e k es = Inr (es @ [e])"
  by (induction es) (auto simp: key_at_def deref_live)

lemma hm_remove_live:
  assumes "live h es" "distinct es" "inj_on (key_at proj h) (set es)"
  shows "hm_remove proj h k es =
    Inr (map_option snd (find (\<lambda>e. key_at proj h e = k) es), filter (\<lambda>e. key_at proj h e \<noteq> k) es)"
  using assms
proof (induction es)
  case Nil
  then show ?case by simp
next
  case (Cons e es)
  have rest: "filter (\<lambda>x. key_at proj h x \<noteq> key_at proj h e) es = es"
    using Cons.prems by (auto intro!: filter_True) (metis image_eqI)
  show ?case
  proof (cases "key_at proj h e = k")
    case True
    then show ?thesis
      using Cons.prems rest by (cases e) (auto simp: key_at_def deref_live)
  next
    case False
    then show ?thesis
      using Cons by (cases e) (auto simp: key_at_def deref_live inj_on_def)
  qed
qed

text \<open>With the invariant a hash map agrees with a search through the boxes themselves.\<close>

definition box_with :: "('b \<Rightarrow> 'k) \<Rightarrow> (addr \<times> 'b) list \<Rightarrow> 'k \<Rightarrow> (addr \<times> 'b) option" where
  "box_with proj h k = find (\<lambda>e. proj (snd e) = k) h"

lemma box_with_Some: "box_with proj h k = Some e \<Longrightarrow> e \<in> set h \<and> proj (snd e) = k"
  unfolding box_with_def by (induction h) (auto split: if_splits)

lemma box_with_None: "box_with proj h k = None \<longleftrightarrow> (\<forall>e \<in> set h. proj (snd e) \<noteq> k)"
  unfolding box_with_def by (induction h) auto

lemma indexes_distinct: "indexes proj h es \<Longrightarrow> distinct es"
  by (simp add: indexes_def)

lemma indexes_live: "indexes proj h es \<Longrightarrow> live h es"
  by (simp add: indexes_def live_def image_image)

lemma indexes_key_at:
  "distinct (map fst h) \<Longrightarrow> e \<in> set h \<Longrightarrow> key_at proj h (fst e, x) = proj (snd e)"
  by (cases e) (simp add: key_at_def)

lemma indexes_inj:
  assumes "distinct (map fst h)" "indexes proj h es"
  shows "inj_on (key_at proj h) (set es)"
proof (rule inj_onI)
  fix x y assume x: "x \<in> set es" and y: "y \<in> set es" and eq: "key_at proj h x = key_at proj h y"
  from x y assms(2) obtain u v where uv: "u \<in> set h" "v \<in> set h" "x = (fst u, fst u)" "y = (fst v, fst v)"
    by (auto simp: indexes_def)
  with eq assms(1) have "proj (snd u) = proj (snd v)" by (simp add: indexes_key_at)
  with uv assms(2) have "u = v" by (auto simp: indexes_def distinct_map inj_on_def)
  with uv show "x = y" by simp
qed

lemma find_unique:
  assumes "x \<in> set xs" "P x" "\<And>y. y \<in> set xs \<Longrightarrow> P y \<Longrightarrow> y = x"
  shows "find P xs = Some x"
  using assms
proof (induction xs)
  case Nil
  then show ?case by simp
next
  case (Cons z zs)
  show ?case
  proof (cases "P z")
    case True
    have "z = x" by (rule Cons.prems(3)) (simp_all add: True)
    with True show ?thesis by simp
  next
    case False
    with Cons.prems(1,2) have x: "x \<in> set zs" by auto
    have "find P zs = Some x"
      by (rule Cons.IH [OF x Cons.prems(2)]) (rule Cons.prems(3), simp_all)
    with False show ?thesis by simp
  qed
qed

lemma find_indexes:
  assumes d: "distinct (map fst h)" and ix: "indexes proj h es"
  shows "find (\<lambda>e. key_at proj h e = k) es = map_option (\<lambda>e. (fst e, fst e)) (box_with proj h k)"
proof (cases "box_with proj h k")
  case None
  then have "find (\<lambda>e. key_at proj h e = k) es = None"
    unfolding find_None_iff box_with_None using ix d
    by (auto simp: indexes_def indexes_key_at simp del: fst_conv)
  with None show ?thesis by simp
next
  case (Some e)
  then have e: "e \<in> set h" "proj (snd e) = k" by (auto dest: box_with_Some)
  have "find (\<lambda>e. key_at proj h e = k) es = Some (fst e, fst e)"
  proof (rule find_unique)
    show "(fst e, fst e) \<in> set es" using e ix by (auto simp: indexes_def)
    show "key_at proj h (fst e, fst e) = k" using e d by (simp add: indexes_key_at)
    fix y assume "y \<in> set es" "key_at proj h y = k"
    then show "y = (fst e, fst e)"
      using indexes_inj [OF d ix] \<open>(fst e, fst e) \<in> set es\<close> \<open>key_at proj h (fst e, fst e) = k\<close>
      by (auto dest: inj_onD)
  qed
  with Some show ?thesis by simp
qed

lemma hm_get_indexes:
  assumes "distinct (map fst h)" "indexes proj h es"
  shows "hm_get proj h k es = Inr (map_option fst (box_with proj h k))"
  using assms
  by (simp add: hm_get_live indexes_live find_indexes option.map_comp comp_def)

lemma hm_remove_indexes:
  assumes "distinct (map fst h)" "indexes proj h es"
  shows "hm_remove proj h k es =
    Inr (map_option fst (box_with proj h k), filter (\<lambda>e. key_at proj h e \<noteq> k) es)"
  using assms
  by (simp add: hm_remove_live indexes_live indexes_distinct indexes_inj find_indexes
      option.map_comp comp_def)

lemma indexes_insert:
  assumes "distinct (map fst h)" "indexes proj h es" "a \<notin> fst ` set h" "box_with proj h (proj b) = None"
  shows "indexes proj ((a, b) # h) (es @ [(a, a)])"
  using assms by (force simp: indexes_def box_with_None)

lemma indexes_remove:
  assumes d: "distinct (map fst h)" and ix: "indexes proj h es" and e: "e \<in> set h"
  shows "indexes proj (filter (\<lambda>x. fst x \<noteq> fst e) h) (filter (\<lambda>x. key_at proj h x \<noteq> proj (snd e)) es)"
proof -
  have eq: "key_at proj h (fst u, fst u) = proj (snd e) \<longleftrightarrow> fst u = fst e" if "u \<in> set h" for u
    using that e d ix by (auto simp: indexes_key_at indexes_def distinct_map inj_on_def)
  then have "filter (\<lambda>x. key_at proj h x \<noteq> proj (snd e)) es = filter (\<lambda>x. fst x \<noteq> fst e) es"
    using ix by (intro filter_cong) (auto simp: indexes_def)
  with ix show ?thesis
    by (auto simp: indexes_def distinct_fst_filter)
qed

lemma hm_insert_indexes:
  assumes "distinct (map fst h)" "indexes proj h es" "a \<notin> fst ` set h" "box_with proj h (proj b) = None"
  shows "hm_insert proj ((a, b) # h) (a, a) (proj b) es = Inr (es @ [(a, a)])"
proof (rule hm_insert_new)
  show "live ((a, b) # h) es" using indexes_live [OF assms(2)] by (auto simp: live_def)
  show "\<forall>x \<in> set es. key_at proj ((a, b) # h) x \<noteq> proj b"
  proof
    fix x assume "x \<in> set es"
    with assms(2) obtain u where u: "u \<in> set h" "x = (fst u, fst u)" by (auto simp: indexes_def)
    with assms(1,3) have "key_at proj ((a, b) # h) x = proj (snd u)"
      by (cases u) (force simp: key_at_def)
    with u assms(4) show "key_at proj ((a, b) # h) x \<noteq> proj b" by (auto simp: box_with_None)
  qed
qed

section \<open>The operations against the table\<close>

lemma map_of_find:
  "map_of (map (\<lambda>e. (f e, g e)) h) k = map_option g (find (\<lambda>e. f e = k) h)"
  by (induction h) auto

lemma mm_tbl_eq:
  "mm_tbl m k = map_option (\<lambda>e. (key2 (snd e), item (snd e))) (box_with key1 (boxes m) k)"
  by (simp add: mm_tbl_def box_with_def map_of_find)

lemma mm_invD:
  assumes "mm_inv m"
  shows "distinct (map fst (boxes m))" "indexes key1 (boxes m) (map1 m)" "indexes key2 (boxes m) (map2 m)"
  using assms by (simp_all add: mm_inv_def)

lemma box_deref:
  "mm_inv m \<Longrightarrow> box_with proj (boxes m) k = Some e \<Longrightarrow> deref (boxes m) (fst e) = Inr (snd e)"
  using box_with_Some [of proj "boxes m" k e] by (simp add: mm_invD deref_in)

lemma box_with_unique:
  assumes "indexes proj h es" "e \<in> set h"
  shows "box_with proj h (proj (snd e)) = Some e"
  using assms unfolding box_with_def indexes_def
  by (intro find_unique) (auto simp: distinct_map inj_on_def)

lemma mm_tbl_in:
  assumes "mm_inv m"
  shows "mm_tbl m k1 = Some (k2, v) \<longleftrightarrow> (\<exists>a. (a, (k1, k2, v)) \<in> set (boxes m))"
proof
  assume "mm_tbl m k1 = Some (k2, v)"
  then obtain e where "box_with key1 (boxes m) k1 = Some e" "k2 = key2 (snd e)" "v = item (snd e)"
    by (auto simp: mm_tbl_eq)
  with box_with_Some [of key1 "boxes m" k1 e] show "\<exists>a. (a, (k1, k2, v)) \<in> set (boxes m)"
    by (cases e) (auto simp: key1_def key2_def item_def)
next
  assume "\<exists>a. (a, (k1, k2, v)) \<in> set (boxes m)"
  with box_with_unique [OF mm_invD(2) [OF assms]] show "mm_tbl m k1 = Some (k2, v)"
    by (fastforce simp: mm_tbl_eq)
qed

lemma mm_tbl_inj:
  assumes "mm_inv m" "mm_tbl m a = Some (k2, v)" "mm_tbl m b = Some (k2, w)"
  shows "a = b"
proof -
  from assms obtain x y where xy: "(x, (a, k2, v)) \<in> set (boxes m)" "(y, (b, k2, w)) \<in> set (boxes m)"
    by (auto simp: mm_tbl_in)
  with box_with_unique [OF mm_invD(3) [OF assms(1)] xy(1)]
       box_with_unique [OF mm_invD(3) [OF assms(1)] xy(2)]
  show ?thesis by simp
qed

lemma mm_new_inv: "mm_inv mm_new" "mm_tbl mm_new = Map.empty"
  by (simp_all add: mm_inv_def mm_new_def indexes_def mm_tbl_def)

lemma mm_get1_tbl:
  assumes "mm_inv m"
  shows "mm_get1 k m = Inr (map_option snd (mm_tbl m k))"
proof (cases "box_with key1 (boxes m) k")
  case None
  with assms show ?thesis by (simp add: mm_get1_def mm_invD hm_get_indexes mm_tbl_eq)
next
  case (Some e)
  with assms show ?thesis by (simp add: box_deref mm_get1_def mm_invD hm_get_indexes mm_tbl_eq)
qed

lemma mm_get2_tbl:
  assumes "mm_inv m"
  shows "mm_get2 k m = Inr (map_option (\<lambda>e. item (snd e)) (box_with key2 (boxes m) k))"
proof (cases "box_with key2 (boxes m) k")
  case None
  with assms show ?thesis by (simp add: mm_get2_def mm_invD hm_get_indexes)
next
  case (Some e)
  with assms show ?thesis by (simp add: box_deref mm_get2_def mm_invD hm_get_indexes)
qed

lemma mm_get2_Some:
  assumes "mm_inv m" "mm_tbl m k1 = Some (k2, v)"
  shows "mm_get2 k2 m = Inr (Some v)"
proof -
  from assms obtain a where "(a, (k1, k2, v)) \<in> set (boxes m)" by (auto simp: mm_tbl_in)
  from box_with_unique [OF mm_invD(3) [OF assms(1)] this] show ?thesis
    by (simp add: mm_get2_tbl assms)
qed

lemma mm_get2_None:
  assumes "mm_inv m" "\<And>k1 v. mm_tbl m k1 \<noteq> Some (k2, v)"
  shows "mm_get2 k2 m = Inr None"
proof -
  have "box_with key2 (boxes m) k2 = None"
    using assms(2) by (fastforce simp: mm_tbl_in [OF assms(1)] box_with_None key2_def)
  then show ?thesis by (simp add: mm_get2_tbl assms)
qed

lemma box_with_key1_None: "box_with key1 (boxes m) k = None \<longleftrightarrow> mm_tbl m k = None"
  by (simp add: mm_tbl_eq)

lemma box_with_key2_None:
  assumes "mm_inv m"
  shows "box_with key2 (boxes m) k2 = None \<longleftrightarrow> (\<forall>k1 v. mm_tbl m k1 \<noteq> Some (k2, v))"
  by (fastforce simp: mm_tbl_in [OF assms] box_with_None key2_def)

lemma mm_insert_taken:
  assumes "mm_inv m" "mm_tbl m k1 \<noteq> None \<or> (\<exists>a w. mm_tbl m a = Some (k2, w))"
  shows "mm_insert k1 k2 v m = Inr (Inl (k1, k2, v), m)"
proof -
  have "box_with key1 (boxes m) k1 \<noteq> None \<or> box_with key2 (boxes m) k2 \<noteq> None"
    using assms by (auto simp: box_with_key1_None box_with_key2_None)
  with assms show ?thesis
    by (auto simp: mm_insert_def mm_invD hm_get_indexes)
qed

lemma mm_insert_new:
  assumes inv: "mm_inv m" and k1: "mm_tbl m k1 = None"
    and k2: "\<And>a w. mm_tbl m a \<noteq> Some (k2, w)"
  shows "\<exists>m'. mm_insert k1 k2 v m = Inr (Inr (), m') \<and> mm_inv m' \<and> mm_tbl m' = (mm_tbl m)(k1 \<mapsto> (k2, v))"
proof -
  let ?h = "boxes m" and ?b = "(k1, k2, v)"
  let ?a = "fresh_addr ?h"
  let ?m = "\<lparr>boxes = (?a, ?b) # ?h, map1 = map1 m @ [(?a, ?a)], map2 = map2 m @ [(?a, ?a)]\<rparr>"
  note inv' = mm_invD [OF inv]
  have b1: "box_with key1 ?h (key1 ?b) = None" using k1 by (simp add: box_with_key1_None)
  have b2: "box_with key2 ?h (key2 ?b) = None" using k2 by (simp add: box_with_key2_None inv)
  note ins = hm_insert_indexes [OF inv'(1) inv'(2) fresh_addr_notin b1, simplified]
             hm_insert_indexes [OF inv'(1) inv'(3) fresh_addr_notin b2, simplified]
  have "mm_insert k1 k2 v m = Inr (Inr (), ?m)"
    using b1 b2 by (simp add: mm_insert_def inv' hm_get_indexes ins Let_def)
  moreover have "mm_inv ?m"
    using indexes_insert [OF inv'(1) inv'(2) fresh_addr_notin b1]
      indexes_insert [OF inv'(1) inv'(3) fresh_addr_notin b2] inv'(1) fresh_addr_notin [of ?h]
    by (simp add: mm_inv_def)
  moreover have "mm_tbl ?m = (mm_tbl m)(k1 \<mapsto> (k2, v))"
    by (simp add: mm_tbl_def fun_eq_iff)
  ultimately show ?thesis by blast
qed

text \<open>Both removals free one box; the rest of the argument is shared.\<close>

definition without :: "('k1, 'k2, 'v) multi_map \<Rightarrow> (addr \<times> ('k1 \<times> 'k2 \<times> 'v)) \<Rightarrow> ('k1, 'k2, 'v) multi_map" where
  "without m e =
     \<lparr>boxes = filter (\<lambda>x. fst x \<noteq> fst e) (boxes m),
      map1 = filter (\<lambda>x. key_at key1 (boxes m) x \<noteq> key1 (snd e)) (map1 m),
      map2 = filter (\<lambda>x. key_at key2 (boxes m) x \<noteq> key2 (snd e)) (map2 m)\<rparr>"

lemma without_inv: "mm_inv m \<Longrightarrow> e \<in> set (boxes m) \<Longrightarrow> mm_inv (without m e)"
  by (auto simp: mm_inv_def without_def indexes_remove distinct_fst_filter)

lemma without_tbl:
  assumes inv: "mm_inv m" and e: "e \<in> set (boxes m)"
  shows "mm_tbl (without m e) = (mm_tbl m)(key1 (snd e) := None)"
proof
  fix k
  have same: "fst u = fst e \<longleftrightarrow> key1 (snd u) = key1 (snd e)" if "u \<in> set (boxes m)" for u
    using that e mm_invD(1,2) [OF inv] by (auto simp: indexes_def distinct_map inj_on_def)
  then have same': "a \<noteq> fst e \<longleftrightarrow> k \<noteq> key1 (snd e)" if "(a, (k, k2, v)) \<in> set (boxes m)" for a k2 v
    using that by fastforce
  have "mm_tbl (without m e) k = Some (k2, v) \<longleftrightarrow> mm_tbl m k = Some (k2, v) \<and> k \<noteq> key1 (snd e)" for k2 v
    unfolding mm_tbl_in [OF inv] mm_tbl_in [OF without_inv [OF inv e]]
    using same' by (auto simp: without_def)
  then show "mm_tbl (without m e) k = ((mm_tbl m)(key1 (snd e) := None)) k"
    by (cases "mm_tbl (without m e) k"; cases "mm_tbl m k") auto
qed

lemma mm_remove1_Some:
  assumes inv: "mm_inv m" and e: "box_with key1 (boxes m) k1 = Some e"
  shows "mm_remove1 k1 m = Inr (Some (item (snd e)), without m e)"
proof -
  note inv' = mm_invD [OF inv]
  from e have in_h: "(fst e, snd e) \<in> set (boxes m)" and k: "key1 (snd e) = k1"
    using box_with_Some [OF e] by auto
  show ?thesis
    using k e by (simp add: mm_remove1_def inv' hm_remove_indexes deref_in [OF inv'(1) in_h]
        from_raw_in [OF inv'(1) in_h] without_def)
qed

lemma mm_remove1_None:
  assumes inv: "mm_inv m" and none: "box_with key1 (boxes m) k1 = None"
  shows "mm_remove1 k1 m = Inr (None, m)"
proof -
  have "\<forall>x \<in> set (map1 m). key_at key1 (boxes m) x \<noteq> k1"
    using none mm_invD(1,2) [OF inv] by (auto simp: indexes_def indexes_key_at box_with_None simp del: fst_conv)
  then show ?thesis
    using none by (simp add: mm_remove1_def mm_invD [OF inv] hm_remove_indexes)
qed

lemma mm_remove2_Some:
  assumes inv: "mm_inv m" and e: "box_with key2 (boxes m) k2 = Some e"
  shows "mm_remove2 k2 m = Inr (Some (item (snd e)), without m e)"
proof -
  note inv' = mm_invD [OF inv]
  from e have in_h: "(fst e, snd e) \<in> set (boxes m)" and k: "key2 (snd e) = k2"
    using box_with_Some [OF e] by auto
  show ?thesis
    using k e by (simp add: mm_remove2_def inv' hm_remove_indexes deref_in [OF inv'(1) in_h]
        from_raw_in [OF inv'(1) in_h] without_def)
qed

lemma mm_remove2_None:
  assumes inv: "mm_inv m" and none: "box_with key2 (boxes m) k2 = None"
  shows "mm_remove2 k2 m = Inr (None, m)"
proof -
  have "\<forall>x \<in> set (map2 m). key_at key2 (boxes m) x \<noteq> k2"
    using none mm_invD(1,3) [OF inv] by (auto simp: indexes_def indexes_key_at box_with_None simp del: fst_conv)
  then show ?thesis
    using none by (simp add: mm_remove2_def mm_invD [OF inv] hm_remove_indexes)
qed

lemma mm_remove1_tbl:
  assumes inv: "mm_inv m"
  shows "\<exists>m'. mm_remove1 k m = Inr (map_option snd (mm_tbl m k), m')
    \<and> mm_inv m' \<and> mm_tbl m' = (mm_tbl m)(k := None)"
proof (cases "box_with key1 (boxes m) k")
  case None
  then show ?thesis using inv by (auto simp: mm_remove1_None mm_tbl_eq fun_eq_iff)
next
  case (Some e)
  note e = box_with_Some [OF this]
  show ?thesis
    using mm_remove1_Some [OF inv Some] without_inv [OF inv] without_tbl [OF inv] e Some
    by (auto simp: mm_tbl_eq)
qed

lemma mm_remove2_tbl:
  assumes inv: "mm_inv m" and k: "mm_tbl m k1 = Some (k2, v)"
  shows "\<exists>m'. mm_remove2 k2 m = Inr (Some v, m') \<and> mm_inv m' \<and> mm_tbl m' = (mm_tbl m)(k1 := None)"
proof -
  from k obtain a where e: "(a, (k1, k2, v)) \<in> set (boxes m)" by (auto simp: mm_tbl_in [OF inv])
  from box_with_unique [OF mm_invD(3) [OF inv] e]
  have "box_with key2 (boxes m) k2 = Some (a, (k1, k2, v))" by simp
  from mm_remove2_Some [OF inv this] without_inv [OF inv e] without_tbl [OF inv e] show ?thesis by simp
qed

lemma mm_remove2_absent:
  assumes "mm_inv m" "\<And>k1 v. mm_tbl m k1 \<noteq> Some (k2, v)"
  shows "mm_remove2 k2 m = Inr (None, m)"
  using assms by (simp add: mm_remove2_None box_with_key2_None)

section \<open>Mutable access and drop\<close>

lemma write_box_keys:
  "map fst (write_box a b h) = map fst h"
  by (auto simp: write_box_def)

lemma write_box_same:
  "(\<And>e. e \<in> set h \<Longrightarrow> fst e = a \<Longrightarrow> g b = g (snd e)) \<Longrightarrow>
    map (\<lambda>e. g (snd e)) (write_box a b h) = map (\<lambda>e. g (snd e)) h"
  by (induction h) (auto simp: write_box_def)

lemma write_box_index:
  assumes "indexes proj h es" "\<And>e. e \<in> set h \<Longrightarrow> fst e = a \<Longrightarrow> proj b = proj (snd e)"
  shows "indexes proj (write_box a b h) es"
proof -
  have *: "(\<lambda>e. (fst e, fst e)) ` set X = (\<lambda>a. (a, a)) ` set (map fst X)" for X :: "(addr \<times> 'c) list"
    by (simp add: image_image)
  have "(\<lambda>e. (fst e, fst e)) ` set (write_box a b h) = (\<lambda>e. (fst e, fst e)) ` set h"
    unfolding * write_box_keys ..
  with assms write_box_same [of h a proj b] show ?thesis by (simp add: indexes_def)
qed

text \<open>The boxes after an update through the mutable reference to box \<open>e\<close>.\<close>

definition updated ::
  "('v \<Rightarrow> 'v) \<Rightarrow> ('k1, 'k2, 'v) multi_map \<Rightarrow> (addr \<times> ('k1 \<times> 'k2 \<times> 'v)) \<Rightarrow> ('k1, 'k2, 'v) multi_map" where
  "updated f m e = m\<lparr>boxes := write_box (fst e) (update_item f (snd e)) (boxes m)\<rparr>"

lemma updated_inv:
  assumes "mm_inv m" "e \<in> set (boxes m)"
  shows "mm_inv (updated f m e)"
proof -
  have u: "u = e" if "u \<in> set (boxes m)" "fst u = fst e" for u
    using that assms distinct_map_inj [OF mm_invD(1) [OF assms(1)]] by blast
  have "indexes key1 (boxes (updated f m e)) (map1 m)"
    unfolding updated_def using mm_invD(2) [OF assms(1)]
    by (auto intro!: write_box_index simp: update_item_def dest!: u)
  moreover have "indexes key2 (boxes (updated f m e)) (map2 m)"
    unfolding updated_def using mm_invD(3) [OF assms(1)]
    by (auto intro!: write_box_index simp: update_item_def dest!: u)
  ultimately show ?thesis
    using mm_invD(1) [OF assms(1)] by (simp add: mm_inv_def updated_def write_box_keys)
qed

lemma mm_get1_mut_Some:
  assumes "mm_inv m" "box_with key1 (boxes m) k1 = Some e"
  shows "mm_get1_mut f k1 m = Inr (Some (item (snd e)), updated f m e)"
  using assms by (simp add: mm_get1_mut_def mm_invD hm_get_indexes box_deref updated_def)

lemma mm_get_mut2_Some:
  assumes "mm_inv m" "box_with key2 (boxes m) k2 = Some e"
  shows "mm_get_mut2 f k2 m = Inr (Some (item (snd e)), updated f m e)"
  using assms by (simp add: mm_get_mut2_def mm_invD hm_get_indexes box_deref updated_def)

lemma mm_get_mut_None:
  assumes "mm_inv m"
  shows "box_with key1 (boxes m) k1 = None \<Longrightarrow> mm_get1_mut f k1 m = Inr (None, m)"
    and "box_with key2 (boxes m) k2 = None \<Longrightarrow> mm_get_mut2 f k2 m = Inr (None, m)"
  using assms by (simp_all add: mm_get1_mut_def mm_get_mut2_def mm_invD hm_get_indexes)

lemma free_all_indexed:
  assumes "distinct (map fst h)" "distinct es" "set es = (\<lambda>e. (fst e, fst e)) ` set h"
  shows "free_all es h = Inr []"
  using assms
proof (induction es arbitrary: h)
  case Nil
  then show ?case by simp
next
  case (Cons x es)
  have "x \<in> (\<lambda>e. (fst e, fst e)) ` set h" using Cons.prems(3) by auto
  then obtain a b where x: "x = (a, a)" and ab: "(a, b) \<in> set h" by auto
  let ?h = "filter (\<lambda>e. fst e \<noteq> a) h"
  have "set es = set (x # es) - {(a, a)}" using Cons.prems(2) x by auto
  also have "\<dots> = (\<lambda>e. (fst e, fst e)) ` set ?h"
    unfolding Cons.prems(3) by auto
  finally have "free_all es ?h = Inr []"
    using Cons.prems by (intro Cons.IH) (simp_all add: distinct_fst_filter)
  then show ?case
    using from_raw_in [OF Cons.prems(1) ab] by (simp add: x)
qed

lemma mm_drop_frees_all: "mm_inv m \<Longrightarrow> mm_drop m = Inr []"
  by (auto simp: mm_drop_def mm_inv_def indexes_def intro!: free_all_indexed)

section \<open>Sequences of operations against a list of triples\<close>

datatype ('k1, 'k2, 'v) mm_op =
    Insert 'k1 'k2 'v
  | Get1 'k1
  | Get2 'k2
  | Get1_Mut "'v \<Rightarrow> 'v" 'k1
  | Get_Mut2 "'v \<Rightarrow> 'v" 'k2
  | Remove1 'k1
  | Remove2 'k2

datatype ('k1, 'k2, 'v) mm_out =
    Done
  | Rejected "'k1 \<times> 'k2 \<times> 'v"
  | Got "'v option"

fun mm_step ::
  "('k1, 'k2, 'v) mm_op \<Rightarrow> ('k1, 'k2, 'v) multi_map \<Rightarrow>
    fault + (('k1, 'k2, 'v) mm_out \<times> ('k1, 'k2, 'v) multi_map)" where
  "mm_step (Insert k1 k2 v) m =
     rbind (mm_insert k1 k2 v m) (\<lambda>(r, m'). Inr (case r of Inl t \<Rightarrow> Rejected t | Inr _ \<Rightarrow> Done, m'))"
| "mm_step (Get1 k1) m = rbind (mm_get1 k1 m) (\<lambda>r. Inr (Got r, m))"
| "mm_step (Get2 k2) m = rbind (mm_get2 k2 m) (\<lambda>r. Inr (Got r, m))"
| "mm_step (Get1_Mut f k1) m = rbind (mm_get1_mut f k1 m) (\<lambda>(r, m'). Inr (Got r, m'))"
| "mm_step (Get_Mut2 f k2) m = rbind (mm_get_mut2 f k2 m) (\<lambda>(r, m'). Inr (Got r, m'))"
| "mm_step (Remove1 k1) m = rbind (mm_remove1 k1 m) (\<lambda>(r, m'). Inr (Got r, m'))"
| "mm_step (Remove2 k2) m = rbind (mm_remove2 k2 m) (\<lambda>(r, m'). Inr (Got r, m'))"

fun mm_run ::
  "('k1, 'k2, 'v) mm_op list \<Rightarrow> ('k1, 'k2, 'v) multi_map \<Rightarrow>
    fault + (('k1, 'k2, 'v) mm_out list \<times> ('k1, 'k2, 'v) multi_map)" where
  "mm_run [] m = Inr ([], m)"
| "mm_run (x # xs) m =
     rbind (mm_step x m) (\<lambda>(r, m'). rbind (mm_run xs m') (\<lambda>(rs, m''). Inr (r # rs, m'')))"

text \<open>
  The specification: a plain list of triples, newest first, searched by either key. It knows
  nothing of pointers.
\<close>

fun spec_step ::
  "('k1, 'k2, 'v) mm_op \<Rightarrow> ('k1 \<times> 'k2 \<times> 'v) list \<Rightarrow> ('k1, 'k2, 'v) mm_out \<times> ('k1 \<times> 'k2 \<times> 'v) list" where
  "spec_step (Insert k1 k2 v) T =
     (if \<exists>t \<in> set T. key1 t = k1 \<or> key2 t = k2 then (Rejected (k1, k2, v), T)
      else (Done, (k1, k2, v) # T))"
| "spec_step (Get1 k1) T = (Got (map_option item (find (\<lambda>t. key1 t = k1) T)), T)"
| "spec_step (Get2 k2) T = (Got (map_option item (find (\<lambda>t. key2 t = k2) T)), T)"
| "spec_step (Get1_Mut f k1) T =
     (Got (map_option item (find (\<lambda>t. key1 t = k1) T)),
      map (\<lambda>t. if key1 t = k1 then update_item f t else t) T)"
| "spec_step (Get_Mut2 f k2) T =
     (Got (map_option item (find (\<lambda>t. key2 t = k2) T)),
      map (\<lambda>t. if key2 t = k2 then update_item f t else t) T)"
| "spec_step (Remove1 k1) T =
     (Got (map_option item (find (\<lambda>t. key1 t = k1) T)), filter (\<lambda>t. key1 t \<noteq> k1) T)"
| "spec_step (Remove2 k2) T =
     (Got (map_option item (find (\<lambda>t. key2 t = k2) T)), filter (\<lambda>t. key2 t \<noteq> k2) T)"

fun spec_run ::
  "('k1, 'k2, 'v) mm_op list \<Rightarrow> ('k1 \<times> 'k2 \<times> 'v) list \<Rightarrow>
    ('k1, 'k2, 'v) mm_out list \<times> ('k1 \<times> 'k2 \<times> 'v) list" where
  "spec_run [] T = ([], T)"
| "spec_run (x # xs) T =
     (let (r, T') = spec_step x T; (rs, T'') = spec_run xs T' in (r # rs, T''))"

definition contents :: "('k1, 'k2, 'v) multi_map \<Rightarrow> ('k1 \<times> 'k2 \<times> 'v) list" where
  "contents m = map snd (boxes m)"

lemma find_map_snd: "find P (map snd h) = map_option snd (find (\<lambda>e. P (snd e)) h)"
  by (induction h) auto

lemma find_contents:
  "find (\<lambda>t. proj t = k) (contents m) = map_option snd (box_with proj (boxes m) k)"
  by (simp add: contents_def box_with_def find_map_snd)

lemma contents_none:
  "box_with proj (boxes m) k = None \<Longrightarrow> filter (\<lambda>t. proj t \<noteq> k) (contents m) = contents m"
  by (auto simp: contents_def box_with_None intro!: filter_True)

lemma contents_map_none:
  "box_with proj (boxes m) k = None \<Longrightarrow> map (\<lambda>t. if proj t = k then g t else t) (contents m) = contents m"
  by (auto simp: contents_def box_with_None intro!: map_idI)

lemma same_box:
  assumes "mm_inv m" "indexes proj (boxes m) es" "box_with proj (boxes m) k = Some e" "u \<in> set (boxes m)"
  shows "fst u = fst e \<longleftrightarrow> proj (snd u) = k"
  using assms(4) box_with_Some [OF assms(3)] mm_invD(1) [OF assms(1)] assms(2)
  by (auto simp: indexes_def distinct_map inj_on_def)

lemma contents_without:
  assumes "mm_inv m" "indexes proj (boxes m) es" "box_with proj (boxes m) k = Some e"
  shows "contents (without m e) = filter (\<lambda>t. proj t \<noteq> k) (contents m)"
  using same_box [OF assms]
  by (simp add: contents_def without_def filter_map comp_def cong: filter_cong)

lemma contents_updated:
  assumes "mm_inv m" "indexes proj (boxes m) es" "box_with proj (boxes m) k = Some e"
  shows "contents (updated f m e) = map (\<lambda>t. if proj t = k then update_item f t else t) (contents m)"
proof -
  have uniq: "u = e" if "u \<in> set (boxes m)" "fst u = fst e" for u
    using box_with_Some [OF assms(3)] distinct_map_inj [OF mm_invD(1) [OF assms(1)]] that by blast
  have "snd (if fst u = fst e then (fst e, update_item f (snd e)) else u) =
      (if proj (snd u) = k then update_item f (snd u) else snd u)" if "u \<in> set (boxes m)" for u
    using same_box [OF assms that] uniq [OF that] by (cases "fst u = fst e") simp_all
  then show ?thesis by (simp add: contents_def updated_def write_box_def)
qed

lemma contents_ex:
  "(\<exists>t \<in> set (contents m). key1 t = k1 \<or> key2 t = k2) \<longleftrightarrow>
    box_with key1 (boxes m) k1 \<noteq> None \<or> box_with key2 (boxes m) k2 \<noteq> None"
  unfolding box_with_None by (auto simp: contents_def)

lemma contents_insert:
  assumes "mm_inv m" "mm_insert k1 k2 v m = Inr (Inr (), m')"
  shows "contents m' = (k1, k2, v) # contents m"
  using assms
  by (auto simp: mm_insert_def contents_def Let_def result_simps split: if_splits)

lemmas mm_refine_simps =
  mm_remove1_Some mm_remove1_None mm_remove2_Some mm_remove2_None mm_get1_mut_Some
  mm_get_mut2_Some mm_get_mut_None find_contents contents_none contents_map_none

lemma mm_step_refines:
  assumes inv: "mm_inv m"
  shows "\<exists>m'. mm_step x m = Inr (fst (spec_step x (contents m)), m') \<and> mm_inv m'
    \<and> contents m' = snd (spec_step x (contents m))"
proof (cases x)
  case (Insert k1 k2 v)
  show ?thesis
  proof (cases "box_with key1 (boxes m) k1 = None \<and> box_with key2 (boxes m) k2 = None")
    case True
    then obtain m' where m': "mm_insert k1 k2 v m = Inr (Inr (), m')" "mm_inv m'"
      using mm_insert_new [OF inv] by (metis box_with_key1_None box_with_key2_None inv)
    with Insert True contents_insert [OF inv m'(1)] show ?thesis by (simp add: contents_ex)
  next
    case False
    then have "mm_insert k1 k2 v m = Inr (Inl (k1, k2, v), m)"
      by (intro mm_insert_taken inv) (auto simp: box_with_key1_None box_with_key2_None inv)
    with Insert False inv show ?thesis by (simp add: contents_ex)
  qed
next
  case (Get1 k)
  with inv show ?thesis
    by (cases "box_with key1 (boxes m) k") (simp_all add: mm_get1_tbl mm_tbl_eq find_contents)
next
  case (Get2 k)
  with inv show ?thesis
    by (cases "box_with key2 (boxes m) k") (simp_all add: mm_get2_tbl find_contents)
next
  case (Get1_Mut f k)
  with inv show ?thesis
    by (cases "box_with key1 (boxes m) k")
      (auto simp: mm_refine_simps updated_inv dest: box_with_Some intro: contents_updated mm_invD)
next
  case (Get_Mut2 f k)
  with inv show ?thesis
    by (cases "box_with key2 (boxes m) k")
      (auto simp: mm_refine_simps updated_inv dest: box_with_Some intro: contents_updated mm_invD)
next
  case (Remove1 k)
  with inv show ?thesis
    by (cases "box_with key1 (boxes m) k")
      (auto simp: mm_refine_simps without_inv dest: box_with_Some intro: contents_without mm_invD)
next
  case (Remove2 k)
  with inv show ?thesis
    by (cases "box_with key2 (boxes m) k")
      (auto simp: mm_refine_simps without_inv dest: box_with_Some intro: contents_without mm_invD)
qed

lemma mm_run_refines:
  assumes "mm_inv m"
  shows "\<exists>m'. mm_run xs m = Inr (fst (spec_run xs (contents m)), m') \<and> mm_inv m'
    \<and> contents m' = snd (spec_run xs (contents m))"
  using assms
proof (induction xs arbitrary: m)
  case Nil
  then show ?case by simp
next
  case (Cons x xs)
  from mm_step_refines [OF Cons.prems, of x] obtain m1 where
    m1: "mm_step x m = Inr (fst (spec_step x (contents m)), m1)" "mm_inv m1"
      "contents m1 = snd (spec_step x (contents m))" by blast
  from Cons.IH [OF m1(2)] m1 show ?case
    by (auto simp: split_beta Let_def)
qed

section \<open>The interface\<close>

text \<open>
  What a user of a two-key table may rely on: the table is a partial map from the first key
  that no two first keys send to the same second key; both lookups read it, insertion refuses a
  clash on either key, and removal by one key removes the entry under both.
\<close>

locale two_key_table =
  fixes ins :: "'k1 \<Rightarrow> 'k2 \<Rightarrow> 'v \<Rightarrow> 'm \<Rightarrow> fault + ((('k1 \<times> 'k2 \<times> 'v) + unit) \<times> 'm)"
    and get1 :: "'k1 \<Rightarrow> 'm \<Rightarrow> fault + 'v option"
    and get2 :: "'k2 \<Rightarrow> 'm \<Rightarrow> fault + 'v option"
    and rem1 :: "'k1 \<Rightarrow> 'm \<Rightarrow> fault + ('v option \<times> 'm)"
    and inv :: "'m \<Rightarrow> bool"
    and tbl :: "'m \<Rightarrow> ('k1 \<rightharpoonup> 'k2 \<times> 'v)"
  assumes tbl_inj: "inv m \<Longrightarrow> tbl m a = Some (k2, v) \<Longrightarrow> tbl m b = Some (k2, w) \<Longrightarrow> a = b"
    and get1_tbl: "inv m \<Longrightarrow> get1 k m = Inr (map_option snd (tbl m k))"
    and get2_Some: "inv m \<Longrightarrow> tbl m k1 = Some (k2, v) \<Longrightarrow> get2 k2 m = Inr (Some v)"
    and get2_None: "inv m \<Longrightarrow> (\<And>k1 v. tbl m k1 \<noteq> Some (k2, v)) \<Longrightarrow> get2 k2 m = Inr None"
    and ins_taken: "inv m \<Longrightarrow> tbl m k1 \<noteq> None \<or> (\<exists>a w. tbl m a = Some (k2, w)) \<Longrightarrow>
      ins k1 k2 v m = Inr (Inl (k1, k2, v), m)"
    and ins_new: "inv m \<Longrightarrow> tbl m k1 = None \<Longrightarrow> (\<And>a w. tbl m a \<noteq> Some (k2, w)) \<Longrightarrow>
      \<exists>m'. ins k1 k2 v m = Inr (Inr (), m') \<and> inv m' \<and> tbl m' = (tbl m)(k1 \<mapsto> (k2, v))"
    and rem1_tbl: "inv m \<Longrightarrow>
      \<exists>m'. rem1 k m = Inr (map_option snd (tbl m k), m') \<and> inv m' \<and> tbl m' = (tbl m)(k := None)"
begin

lemma rem1_cases:
  assumes "inv m"
  obtains m' where "rem1 k m = Inr (map_option snd (tbl m k), m')" "inv m'" "tbl m' = (tbl m)(k := None)"
  using rem1_tbl [OF assms] by blast

lemma get2_cases:
  assumes "inv m"
  obtains (absent) "get2 k2 m = Inr None" "\<And>k1 v. tbl m k1 \<noteq> Some (k2, v)"
    | (present) k1 v where "get2 k2 m = Inr (Some v)" "tbl m k1 = Some (k2, v)"
  using get2_Some [OF assms] get2_None [OF assms] by (metis (no_types))

text \<open>Removal under the first key also removes the entry under its second key.\<close>

lemma get2_after_rem1:
  assumes "inv m" "tbl m k1 = Some (k2, v)" "rem1 k1 m = Inr (r, m')"
  shows "get2 k2 m' = Inr None"
proof -
  from rem1_tbl [OF assms(1), of k1] assms(3) have m': "inv m'" "tbl m' = (tbl m)(k1 := None)" by auto
  have "tbl m' a \<noteq> Some (k2, w)" for a w
    using tbl_inj [OF assms(1,2), of a w] m'(2) by auto
  with m'(1) show ?thesis by (rule get2_None)
qed

text \<open>
  Replacing the entry of a first key (remove it, then insert afresh) succeeds unless the new
  second key belongs to a different first key.
\<close>

lemma replace_ok:
  assumes "inv m" "\<And>a w. tbl m a = Some (k2, w) \<Longrightarrow> a = k1"
  shows "\<exists>m1 m2. rem1 k1 m = Inr (map_option snd (tbl m k1), m1) \<and> inv m1 \<and> tbl m1 = (tbl m)(k1 := None)
    \<and> ins k1 k2 v m1 = Inr (Inr (), m2) \<and> inv m2 \<and> tbl m2 = (tbl m)(k1 \<mapsto> (k2, v))"
proof -
  obtain m1 where m1: "rem1 k1 m = Inr (map_option snd (tbl m k1), m1)" "inv m1"
      "tbl m1 = (tbl m)(k1 := None)" using rem1_tbl [OF assms(1)] by blast
  have "tbl m1 a \<noteq> Some (k2, w)" for a w using assms(2) [of a w] m1(3) by auto
  then obtain m2 where "ins k1 k2 v m1 = Inr (Inr (), m2)" "inv m2" "tbl m2 = (tbl m1)(k1 \<mapsto> (k2, v))"
    using ins_new [OF m1(2), of k1 k2 v] m1(3) by auto
  with m1 show ?thesis by auto
qed

lemma replace_clash:
  assumes "inv m" "tbl m a = Some (k2, w)" "a \<noteq> k1"
  shows "\<exists>m1. rem1 k1 m = Inr (map_option snd (tbl m k1), m1) \<and> inv m1 \<and> tbl m1 = (tbl m)(k1 := None)
    \<and> ins k1 k2 v m1 = Inr (Inl (k1, k2, v), m1)"
proof -
  obtain m1 where m1: "rem1 k1 m = Inr (map_option snd (tbl m k1), m1)" "inv m1"
      "tbl m1 = (tbl m)(k1 := None)" using rem1_tbl [OF assms(1)] by blast
  with assms(2,3) have "tbl m1 a = Some (k2, w)" by simp
  with m1 ins_taken [OF m1(2), of k1 k2 v] show ?thesis by blast
qed

end

interpretation mm: two_key_table mm_insert mm_get1 mm_get2 mm_remove1 mm_inv mm_tbl
proof
  fix m :: "('a, 'b, 'c) multi_map" and a b k2 v w
  show "mm_inv m \<Longrightarrow> mm_tbl m a = Some (k2, v) \<Longrightarrow> mm_tbl m b = Some (k2, w) \<Longrightarrow> a = b"
    by (rule mm_tbl_inj)
qed (auto intro: mm_get1_tbl mm_get2_Some mm_get2_None mm_insert_taken mm_insert_new mm_remove1_tbl)

section \<open>Properties\<close>

text \<open>
  C4. Memory safety and refinement of the two-key map: from the empty map every sequence of
  operations runs without touching or freeing a dead box, its results are those of the plain
  list of triples, and dropping the map afterwards frees every box exactly once.
\<close>

theorem multi_map_safe_and_refines:
  "\<exists>m. mm_run xs mm_new = Inr (fst (spec_run xs []), m) \<and> contents m = snd (spec_run xs [])
    \<and> mm_inv m \<and> mm_drop m = Inr []"
  using mm_run_refines [OF mm_new_inv(1), of xs]
  by (auto simp: mm_new_def contents_def mm_drop_frees_all)

text \<open>
  Removing an entry by its first key unlinks it under its second key too: after
  \<open>remove1\<close>, \<open>get2\<close> with the second key of the removed entry finds nothing.
\<close>

theorem remove1_unlinks_second_key:
  assumes "mm_inv m" "mm_tbl m k1 = Some (k2, v)" "mm_remove1 k1 m = Inr (r, m')"
  shows "r = Some v \<and> mm_get2 k2 m' = Inr None \<and> mm_get1 k1 m' = Inr None"
  using mm.get2_after_rem1 [OF assms] mm.rem1_tbl [OF assms(1), of k1] assms
  by (auto simp: mm.get1_tbl)

theorem remove1_unlinks_second_key_witness:
  "\<exists>m m'. mm_run [Insert (1::nat) (2::nat) (3::nat)] mm_new = Inr ([Done], m)
    \<and> mm_remove1 1 m = Inr (Some 3, m') \<and> mm_get2 2 m' = Inr None"
proof -
  let ?m = "\<lparr>boxes = [(Suc 0, (1::nat, 2::nat, 3::nat))], map1 = [(Suc 0, Suc 0)], map2 = [(Suc 0, Suc 0)]\<rparr>"
  let ?e = "\<lparr>boxes = [], map1 = [], map2 = []\<rparr> :: (nat, nat, nat) multi_map"
  have run: "mm_run [Insert (1::nat) (2::nat) (3::nat)] mm_new = Inr ([Done], ?m)"
    by (simp add: mm_new_def mm_insert_def fresh_addr_def)
  have rem: "mm_remove1 1 ?m = Inr (Some 3, ?e)"
    by (simp add: mm_remove1_def deref_def from_raw_def key1_def key2_def item_def)
  have "mm_inv ?m" "mm_tbl ?m 1 = Some (2, 3)"
    by (simp_all add: mm_inv_def indexes_def mm_tbl_def key1_def key2_def item_def)
  from remove1_unlinks_second_key [OF this rem] run rem show ?thesis by blast
qed

end
