(* ===== verification/Server.thy ===== *)
theory Server
  imports Bincode_Wire Config_Watcher Multi_Map
begin

text \<open>
  The server of \<open>src/rathole/src/server.rs\<close>: the table of services by digest, the table of control
  channels by service digest and by session key (the \<open>MultiMap\<close>), the two handshakes, hot reload,
  and the tasks behind a control channel (commands and heartbeats, the TCP pool, the UDP pool).
  Tasks run concurrently; every operation here is one stretch of a task between two waits, and
  \<open>sys_step\<close> interleaves them. Random nonces, arriving streams and timers are inputs. A write
  reaches the peer at once, so \<open>flush\<close> adds nothing.
\<close>

section \<open>State\<close>

definition TCP_POOL_SIZE :: nat where "TCP_POOL_SIZE = 8"
definition UDP_POOL_SIZE :: nat where "UDP_POOL_SIZE = 2"
definition CHAN_SIZE :: nat where "CHAN_SIZE = 2048"
definition UDP_BUFFER_SIZE :: nat where "UDP_BUFFER_SIZE = 2048"

text \<open>
  What a control channel's handle and its tasks share: the stream of the control channel, the
  requests for data channels not yet sent to the client, the data channels waiting for a visitor,
  the visitors waiting for a data channel, and which of the tasks have ended.
\<close>

record chan =
  c_conn :: conn
  c_service :: server_service
  c_heartbeat_interval :: u64
  c_reqs :: nat
  c_data :: "conn list"
  c_visitors :: "nat list"
  c_forwarding :: "(nat \<times> conn) list"
  c_shutdown :: bool
  c_ctl_alive :: bool
  c_listening :: bool
  c_pool_alive :: bool

text \<open>\<open>ControlChannelHandle\<close>: the number of its shared state, and the service.\<close>

record handle =
  h_id :: nat
  h_service :: server_service

record server_state =
  srv_config :: server_config
  srv_services :: "(digest, server_service) hash"
  srv_channels :: "(digest, digest, handle) multi_map"
  srv_chans :: "chan list"

definition generate_service_hashmap :: "codec \<Rightarrow> server_config \<Rightarrow> (digest, server_service) hash" where
  "generate_service_hashmap k sc =
     fold (\<lambda>(n, s) ret. hash_insert (digest k (as_bytes n)) s ret) (sc_services sc) []"

definition server_from :: "codec \<Rightarrow> server_config \<Rightarrow> server_state" where
  "server_from k sc =
     \<lparr>srv_config = sc, srv_services = generate_service_hashmap k sc, srv_channels = mm_new, srv_chans = []\<rparr>"

section \<open>Handles\<close>

definition pool_size :: "service_type \<Rightarrow> nat" where
  "pool_size st = (case st of Service_Tcp \<Rightarrow> TCP_POOL_SIZE | Service_Udp \<Rightarrow> UDP_POOL_SIZE | Service_Http \<Rightarrow> 0)"

text \<open>
  \<open>ControlChannelHandle::new\<close>: the requests for the pool are queued before the match on the type,
  whose HTTP branch is \<open>todo!()\<close>.
\<close>

definition handle_new :: "conn \<Rightarrow> server_service \<Rightarrow> u64 \<Rightarrow> chan list \<Rightarrow> fault + (handle \<times> chan list)" where
  "handle_new c svc hb chans =
     (let ch = \<lparr>c_conn = c, c_service = svc, c_heartbeat_interval = hb, c_reqs = pool_size (ss_type svc),
                c_data = [], c_visitors = [], c_forwarding = [], c_shutdown = False, c_ctl_alive = True,
                c_listening = True, c_pool_alive = True\<rparr>
      in case ss_type svc of
           Service_Http \<Rightarrow> Inl (Panic ''not yet implemented'')
         | _ \<Rightarrow> Inr (\<lparr>h_id = length chans, h_service = svc\<rparr>, chans @ [ch]))"

text \<open>Dropping the handle closes its shutdown channel and its sender of data channels.\<close>

definition drop_handle :: "handle option \<Rightarrow> chan list \<Rightarrow> chan list" where
  "drop_handle h chans =
     (case h of
        None \<Rightarrow> chans
      | Some x \<Rightarrow>
          if h_id x < length chans then chans[h_id x := (chans ! h_id x)\<lparr>c_shutdown := True\<rparr>] else chans)"

section \<open>Hot reload\<close>

definition remove_channel :: "digest \<Rightarrow> server_state \<Rightarrow> fault + server_state" where
  "remove_channel d w =
     rbind (mm_remove1 d (srv_channels w)) (\<lambda>(old, m).
     Inr (w\<lparr>srv_channels := m, srv_chans := drop_handle old (srv_chans w)\<rparr>))"

definition handle_hot_reload :: "codec \<Rightarrow> config_change \<Rightarrow> server_state \<Rightarrow> fault + server_state" where
  "handle_hot_reload k e w =
     (case e of
        ServerChange (Add_Server cfg) \<Rightarrow>
          (let h = digest k (as_bytes (ss_name cfg))
           in remove_channel h (w\<lparr>srv_services := hash_insert h cfg (srv_services w)\<rparr>))
      | ServerChange (Delete_Server s) \<Rightarrow>
          (let h = digest k (as_bytes s)
           in remove_channel h (w\<lparr>srv_services := hash_remove h (srv_services w)\<rparr>))
      | _ \<Rightarrow> Inr w)"

section \<open>Handshakes\<close>

text \<open>
  The control channel handshake up to the wait for the client's answer: it sends the nonce and
  looks the service up. The stream comes back so that what was written is visible.
\<close>

definition handshake_begin ::
  "codec \<Rightarrow> (digest, server_service) hash \<Rightarrow> digest \<Rightarrow> bytes \<Rightarrow> conn \<Rightarrow>
    fault + ((err + (server_service \<times> bytes)) \<times> conn)" where
  "handshake_begin k services d nonce c =
     (case write_all (ser_hello k (ControlChannelHello CURRENT_PROTO_VERSION nonce)) c of
        (Inl e, c1) \<Rightarrow> Inr (Inl e, c1)
      | (Inr _, c1) \<Rightarrow>
          (case map_of services d of
             None \<Rightarrow>
               (case write_all (ser_ack k ServiceNotExist) c1 of
                  (Inl e, c2) \<Rightarrow> Inr (Inl e, c2)
                | (Inr _, c2) \<Rightarrow> Inr (Inl (Msg ''No such a service''), c2))
           | Some svc \<Rightarrow>
               (case ss_token svc of
                  None \<Rightarrow> Inl (Panic ''called `Option::unwrap()` on a `None` value'')
                | Some t \<Rightarrow> Inr (Inr (svc, as_bytes t @ nonce), c1))))"

text \<open>The rest, from the moment the answer is there.\<close>

definition handshake_finish ::
  "codec \<Rightarrow> digest \<Rightarrow> server_service \<Rightarrow> bytes \<Rightarrow> conn \<Rightarrow> server_state \<Rightarrow>
    fault + ((err + unit) \<times> conn \<times> server_state)" where
  "handshake_finish k d svc concat_bytes c w =
     (case read_auth k c of
        (Inl e, c1) \<Rightarrow> Inr (Inl e, c1, w)
      | (Inr (Auth answer), c1) \<Rightarrow>
          (let session_key = digest k concat_bytes
           in if session_key \<noteq> answer
              then (case write_all (ser_ack k AuthFailed) c1 of
                      (Inl e, c2) \<Rightarrow> Inr (Inl e, c2, w)
                    | (Inr _, c2) \<Rightarrow>
                        Inr (Inl (Msg (''Service '' @ ss_name svc @ '' failed the authentication'')), c2, w))
              else rbind (remove_channel d w) (\<lambda>w1.
                   (case write_all (ser_ack k Ok) c1 of
                      (Inl e, c2) \<Rightarrow> Inr (Inl e, c2, w1)
                    | (Inr _, c2) \<Rightarrow>
                        rbind (handle_new c2 svc (sc_heartbeat_interval (srv_config w1)) (srv_chans w1)) (\<lambda>(h, chans).
                        rbind (mm_insert d session_key h (srv_channels w1)) (\<lambda>(r, m).
                        Inr (Inr (), c2,
                          w1\<lparr>srv_channels := m,
                             srv_chans := (case r of Inl _ \<Rightarrow> drop_handle (Some h) chans | Inr _ \<Rightarrow> chans)\<rparr>)))))))"

definition do_control_channel_handshake ::
  "codec \<Rightarrow> digest \<Rightarrow> bytes \<Rightarrow> conn \<Rightarrow> server_state \<Rightarrow> fault + ((err + unit) \<times> conn \<times> server_state)" where
  "do_control_channel_handshake k d nonce c w =
     rbind (handshake_begin k (srv_services w) d nonce c) (\<lambda>(r, c1).
     case r of
       Inl e \<Rightarrow> Inr (Inl e, c1, w)
     | Inr (svc, concat_bytes) \<Rightarrow> handshake_finish k d svc concat_bytes c1 w)"

text \<open>Sending into the bounded queue waits while it is full.\<close>

datatype 'a poll = Ready 'a | Pending

definition do_data_channel_handshake ::
  "digest \<Rightarrow> conn \<Rightarrow> server_state \<Rightarrow> fault + ((err + unit) poll \<times> server_state)" where
  "do_data_channel_handshake nonce c w =
     rbind (mm_get2 nonce (srv_channels w)) (\<lambda>r.
     case r of
       None \<Rightarrow> Inr (Ready (Inr ()), w)
     | Some h \<Rightarrow>
         (let ch = srv_chans w ! h_id h
          in if \<not> c_pool_alive ch
             then Inr (Ready (Inl (Context ''Data channel for a stale control channel'' (Msg ''channel closed''))), w)
             else if CHAN_SIZE * 2 \<le> length (c_data ch) then Inr (Pending, w)
             else Inr (Ready (Inr ()),
                    w\<lparr>srv_chans := (srv_chans w)[h_id h := ch\<lparr>c_data := c_data ch @ [c]\<rparr>]\<rparr>)))"

text \<open>\<open>handle_connection\<close>, for a stream on which everything the client sends has arrived.\<close>

definition handle_connection ::
  "codec \<Rightarrow> bytes \<Rightarrow> conn \<Rightarrow> server_state \<Rightarrow> fault + ((err + unit) poll \<times> server_state)" where
  "handle_connection k nonce c w =
     (case read_hello k c of
        (Inl e, c1) \<Rightarrow> Inr (Ready (Inl e), w)
      | (Inr (ControlChannelHello v d), c1) \<Rightarrow>
          rbind (do_control_channel_handshake k d nonce c1 w) (\<lambda>(r, c2, w'). Inr (Ready r, w'))
      | (Inr (DataChannelHello v n), c1) \<Rightarrow> do_data_channel_handshake n c1 w)"

section \<open>The tasks of a control channel\<close>

definition conn_write_and_flush :: "bytes \<Rightarrow> (conn, unit) act" where
  "conn_write_and_flush bs = with_context ''Failed to write data'' (write_all bs)"

datatype ctl_event = Request_Ready | Heartbeat_Timer | Shutdown_Closed

definition ctl_write :: "bytes \<Rightarrow> chan \<Rightarrow> chan" where
  "ctl_write bs ch =
     (case with_context ''Failed to write control cmds'' (conn_write_and_flush bs) (c_conn ch) of
        (Inr _, c) \<Rightarrow> ch\<lparr>c_conn := c\<rparr>
      | (Inl _, c) \<Rightarrow> ch\<lparr>c_conn := c, c_ctl_alive := False\<rparr>)"

text \<open>
  \<open>ControlChannel::run\<close>: one round of its \<open>select!\<close>, for the branch that is ready. A request is
  ready when one is queued, or, as \<open>None\<close>, when the queue is empty and its senders are gone.
\<close>

definition ctl_step :: "codec \<Rightarrow> ctl_event \<Rightarrow> chan \<Rightarrow> chan" where
  "ctl_step k ev ch =
     (if \<not> c_ctl_alive ch then ch
      else case ev of
        Request_Ready \<Rightarrow>
          (if c_reqs ch > 0 then ctl_write (ser_ccmd k CreateDataChannel) (ch\<lparr>c_reqs := c_reqs ch - 1\<rparr>)
           else if \<not> c_listening ch \<and> \<not> c_pool_alive ch then ch\<lparr>c_ctl_alive := False\<rparr>
           else ch)
      | Heartbeat_Timer \<Rightarrow>
          (if c_heartbeat_interval ch \<noteq> 0 then ctl_write (ser_ccmd k HeartBeat) ch else ch)
      | Shutdown_Closed \<Rightarrow> (if c_shutdown ch then ch\<lparr>c_ctl_alive := False\<rparr> else ch))"

text \<open>
  \<open>tcp_listen_and_send\<close>: a visitor first asks for a data channel, then is queued; while the queue
  is full the task waits there and accepts nobody.
\<close>

definition visitor_arrives :: "nat \<Rightarrow> chan \<Rightarrow> chan" where
  "visitor_arrives v ch =
     (if \<not> c_listening ch \<or> CHAN_SIZE < length (c_visitors ch) then ch
      else if c_shutdown ch \<or> \<not> c_ctl_alive ch then ch\<lparr>c_listening := False\<rparr>
      else ch\<lparr>c_reqs := c_reqs ch + 1,
              c_visitors := (if c_pool_alive ch then c_visitors ch @ [v] else c_visitors ch)\<rparr>)"

text \<open>
  \<open>run_tcp_connection_pool\<close>: the inner loop looks for a working data channel for one visitor; each
  broken one is replaced by a new request.
\<close>

datatype pool_result =
    Paired conn "conn list" nat
  | Await_Data nat
  | Requests_Closed "conn list"

fun try_channels :: "codec \<Rightarrow> bool \<Rightarrow> conn list \<Rightarrow> nat \<Rightarrow> pool_result" where
  "try_channels k ctl_alive [] reqs = Await_Data reqs"
| "try_channels k ctl_alive (d # ds) reqs =
     (case conn_write_and_flush (ser_dcmd k StartForwardTcp) d of
        (Inr _, d') \<Rightarrow> Paired d' ds reqs
      | (Inl _, d') \<Rightarrow> if ctl_alive then try_channels k ctl_alive ds (reqs + 1) else Requests_Closed ds)"

definition tcp_pool_step :: "codec \<Rightarrow> chan \<Rightarrow> chan" where
  "tcp_pool_step k ch =
     (if \<not> c_pool_alive ch then ch
      else case c_visitors ch of
        [] \<Rightarrow> (if c_listening ch then ch else ch\<lparr>c_pool_alive := False\<rparr>)
      | v # vs \<Rightarrow>
          (case try_channels k (c_ctl_alive ch) (c_data ch) (c_reqs ch) of
             Paired d ds reqs \<Rightarrow>
               ch\<lparr>c_visitors := vs, c_data := ds, c_reqs := reqs, c_forwarding := (v, d) # c_forwarding ch\<rparr>
           | Await_Data reqs \<Rightarrow>
               (if c_shutdown ch then ch\<lparr>c_data := [], c_reqs := reqs, c_pool_alive := False\<rparr>
                else ch\<lparr>c_data := [], c_reqs := reqs\<rparr>)
           | Requests_Closed ds \<Rightarrow> ch\<lparr>c_data := ds, c_pool_alive := False\<rparr>))"

text \<open>
  \<open>run_udp_connection_pool\<close>: the state once a data channel is there. A datagram is cut to the
  receive buffer; any error ends the pool.
\<close>

record udp_pool =
  up_conn :: conn
  up_sent :: "(socket_addr \<times> bytes) list"

datatype udp_event = From_Visitor socket_addr bytes | From_Client

definition udp_pool_start :: "codec \<Rightarrow> conn list \<Rightarrow> err + udp_pool" where
  "udp_pool_start k chans =
     (case chans of
        [] \<Rightarrow> Inl (Msg ''No available data channels'')
      | d # ds \<Rightarrow>
          (case conn_write_and_flush (ser_dcmd k StartForwardUdp) d of
             (Inl e, d') \<Rightarrow> Inl e
           | (Inr _, d') \<Rightarrow> Inr \<lparr>up_conn = d', up_sent = []\<rparr>))"

definition udp_pool_step :: "codec \<Rightarrow> udp_event \<Rightarrow> udp_pool \<Rightarrow> err + udp_pool" where
  "udp_pool_step k ev p =
     (case ev of
        From_Visitor a data \<Rightarrow>
          (case udp_write_slice k a (take UDP_BUFFER_SIZE data) (up_conn p) of
             (Inl e, c) \<Rightarrow> Inl e
           | (Inr _, c) \<Rightarrow> Inr (p\<lparr>up_conn := c\<rparr>))
      | From_Client \<Rightarrow>
          (case act_bind read_u8 (udp_read k) (up_conn p) of
             (Inl e, c) \<Rightarrow> Inl e
           | (Inr t, c) \<Rightarrow> Inr (p\<lparr>up_conn := c, up_sent := up_sent p @ [(udp_from t, udp_data t)]\<rparr>)))"

fun udp_pool_run :: "codec \<Rightarrow> udp_event list \<Rightarrow> udp_pool \<Rightarrow> err + udp_pool" where
  "udp_pool_run k [] p = Inr p"
| "udp_pool_run k (ev # evs) p = rbind (udp_pool_step k ev p) (udp_pool_run k evs)"

end
