(* ===== verification/Server_System.thy ===== *)
theory Server_System
  imports Server
begin

text \<open>
  The server as a system of interleaved tasks: the accept loop of \<open>Server::run\<close>, one task per
  connection, and the tasks behind the control channels. One event is one stretch of one task. The
  invariant of the tables holds in every interleaving; the properties follow from it.
\<close>

section \<open>The system\<close>

text \<open>
  A connection task: not started, waiting for the client's answer, delivering a data channel
  (retried while the queue is full), or done.
\<close>

datatype conn_task =
    Fresh bytes conn
  | Awaiting digest server_service bytes conn
  | Delivering digest conn
  | Finished

record sys =
  sys_server :: server_state
  sys_tasks :: "conn_task list"
  sys_running :: bool

datatype srv_event =
    Accept_Io_Error
  | Accept_Transport_Error
  | Transport_Handshake_Failed
  | Accepted bytes conn
  | Shutdown_Signal
  | Update "config_change option"
  | Task nat
  | Ctl nat ctl_event
  | Visitor nat nat
  | Tcp_Pool nat

definition task_step :: "codec \<Rightarrow> conn_task \<Rightarrow> server_state \<Rightarrow> fault + (conn_task \<times> server_state)" where
  "task_step k t w =
     (case t of
        Fresh nonce c \<Rightarrow>
          (case read_hello k c of
             (Inl e, c1) \<Rightarrow> Inr (Finished, w)
           | (Inr (ControlChannelHello v d), c1) \<Rightarrow>
               rbind (handshake_begin k (srv_services w) d nonce c1) (\<lambda>(r, c2).
               case r of Inl e \<Rightarrow> Inr (Finished, w) | Inr (svc, cb) \<Rightarrow> Inr (Awaiting d svc cb c2, w))
           | (Inr (DataChannelHello v n), c1) \<Rightarrow> Inr (Delivering n c1, w))
      | Awaiting d svc cb c \<Rightarrow> rbind (handshake_finish k d svc cb c w) (\<lambda>(r, c1, w'). Inr (Finished, w'))
      | Delivering n c \<Rightarrow>
          rbind (do_data_channel_handshake n c w) (\<lambda>(r, w').
          case r of Pending \<Rightarrow> Inr (Delivering n c, w') | Ready _ \<Rightarrow> Inr (Finished, w'))
      | Finished \<Rightarrow> Inr (Finished, w))"

text \<open>The table of control channels is replaced by a new one: the old one and its handles drop.\<close>

definition server_shutdown :: "server_state \<Rightarrow> fault + server_state" where
  "server_shutdown w =
     rbind (mm_drop (srv_channels w)) (\<lambda>_.
     Inr (w\<lparr>srv_channels := mm_new,
            srv_chans := fold (\<lambda>e. drop_handle (Some (item (snd e)))) (boxes (srv_channels w)) (srv_chans w)\<rparr>))"

definition update_chan :: "nat \<Rightarrow> (chan \<Rightarrow> chan) \<Rightarrow> sys \<Rightarrow> sys" where
  "update_chan i f s =
     (let chans = srv_chans (sys_server s)
      in if i < length chans then s\<lparr>sys_server := (sys_server s)\<lparr>srv_chans := chans[i := f (chans ! i)]\<rparr>\<rparr> else s)"

definition sys_step :: "codec \<Rightarrow> srv_event \<Rightarrow> sys \<Rightarrow> fault + sys" where
  "sys_step k ev s =
     (case ev of
        Accepted nonce c \<Rightarrow> Inr (if sys_running s then s\<lparr>sys_tasks := sys_tasks s @ [Fresh nonce c]\<rparr> else s)
      | Shutdown_Signal \<Rightarrow>
          (if sys_running s
           then rbind (server_shutdown (sys_server s)) (\<lambda>w. Inr (s\<lparr>sys_server := w, sys_running := False\<rparr>))
           else Inr s)
      | Update (Some e) \<Rightarrow>
          (if sys_running s
           then rbind (handle_hot_reload k e (sys_server s)) (\<lambda>w. Inr (s\<lparr>sys_server := w\<rparr>))
           else Inr s)
      | Task i \<Rightarrow>
          (if i < length (sys_tasks s)
           then rbind (task_step k (sys_tasks s ! i) (sys_server s)) (\<lambda>(t, w).
                Inr (s\<lparr>sys_server := w, sys_tasks := (sys_tasks s)[i := t]\<rparr>))
           else Inr s)
      | Ctl i e \<Rightarrow> Inr (update_chan i (ctl_step k e) s)
      | Visitor i v \<Rightarrow> Inr (update_chan i (visitor_arrives v) s)
      | Tcp_Pool i \<Rightarrow> Inr (update_chan i (tcp_pool_step k) s)
      | _ \<Rightarrow> Inr s)"

fun sys_run :: "codec \<Rightarrow> srv_event list \<Rightarrow> sys \<Rightarrow> fault + sys" where
  "sys_run k [] s = Inr s"
| "sys_run k (ev # evs) s = rbind (sys_step k ev s) (sys_run k evs)"

text \<open>
  \<open>run_server\<close>: without a \<open>[server]\<close> block an error; the four transports run the same server.
  The transport is built and bound before the loop; \<open>ready\<close> is the outcome of that.
\<close>

definition run_server ::
  "codec \<Rightarrow> config \<Rightarrow> err + unit \<Rightarrow> srv_event list \<Rightarrow> fault + (err + sys)" where
  "run_server k cfg ready evs =
     (case server cfg of
        None \<Rightarrow> Inr (Inl (Msg ''Try to run as a server, but the configuration is missing. Please add the `[server]` block''))
      | Some sc \<Rightarrow>
          (case ready of
             Inl e \<Rightarrow> Inr (Inl e)
           | Inr _ \<Rightarrow>
               rbind (sys_run k evs \<lparr>sys_server = server_from k sc, sys_tasks = [], sys_running = True\<rparr>)
                 (\<lambda>s. Inr (Inr s))))"

section \<open>The invariant of the tables\<close>

text \<open>
  \<open>table_ok\<close>: an entry of the table of control channels is under the digest of its service's name
  and under a session key made of that service's token and one of the nonces \<open>N\<close>; its handle belongs to a channel that has not
  been shut down, of the same service; no two entries share a handle; and every channel that has not
  been shut down is in the table.
\<close>

definition entry_ok :: "codec \<Rightarrow> bytes set \<Rightarrow> digest \<Rightarrow> digest \<Rightarrow> handle \<Rightarrow> bool" where
  "entry_ok k N d key h =
     (d = digest k (as_bytes (ss_name (h_service h)))
      \<and> (\<exists>t. \<exists>nonce \<in> N. ss_token (h_service h) = Some t \<and> key = digest k (as_bytes t @ nonce)))"

definition table_ok :: "codec \<Rightarrow> bytes set \<Rightarrow> (digest \<rightharpoonup> digest \<times> handle) \<Rightarrow> chan list \<Rightarrow> bool" where
  "table_ok k N tbl chans =
     ((\<forall>d key h. tbl d = Some (key, h) \<longrightarrow>
         entry_ok k N d key h \<and> h_id h < length chans \<and> \<not> c_shutdown (chans ! h_id h)
         \<and> c_service (chans ! h_id h) = h_service h)
      \<and> (\<forall>d d' key key' h h'. tbl d = Some (key, h) \<longrightarrow> tbl d' = Some (key', h') \<longrightarrow> h_id h = h_id h' \<longrightarrow> d = d')
      \<and> (\<forall>i < length chans. \<not> c_shutdown (chans ! i) \<longrightarrow> (\<exists>d key h. tbl d = Some (key, h) \<and> h_id h = i)))"

lemma table_okD:
  assumes "table_ok k N tbl chans" "tbl d = Some (key, h)"
  shows "entry_ok k N d key h" "h_id h < length chans" "\<not> c_shutdown (chans ! h_id h)"
    "c_service (chans ! h_id h) = h_service h"
  using assms by (auto simp: table_ok_def)

lemma table_ok_uniq:
  "table_ok k N tbl chans \<Longrightarrow> tbl d = Some (key, h) \<Longrightarrow> tbl d' = Some (key', h') \<Longrightarrow> h_id h = h_id h' \<Longrightarrow> d = d'"
  by (auto simp: table_ok_def)

lemma table_ok_registered:
  "table_ok k N tbl chans \<Longrightarrow> i < length chans \<Longrightarrow> \<not> c_shutdown (chans ! i) \<Longrightarrow>
    \<exists>d key h. tbl d = Some (key, h) \<and> h_id h = i"
  by (auto simp: table_ok_def)

lemma table_okI:
  assumes "\<And>d key h. tbl d = Some (key, h) \<Longrightarrow>
      entry_ok k N d key h \<and> h_id h < length chans \<and> \<not> c_shutdown (chans ! h_id h)
      \<and> c_service (chans ! h_id h) = h_service h"
    and "\<And>d d' key key' h h'. tbl d = Some (key, h) \<Longrightarrow> tbl d' = Some (key', h') \<Longrightarrow> h_id h = h_id h' \<Longrightarrow> d = d'"
    and "\<And>i. i < length chans \<Longrightarrow> \<not> c_shutdown (chans ! i) \<Longrightarrow> \<exists>d key h. tbl d = Some (key, h) \<and> h_id h = i"
  shows "table_ok k N tbl chans"
  unfolding table_ok_def
proof (intro conjI [of "\<forall>d. _ d"] conjI [of "\<forall>d d'. _ d d'"])
  show "\<forall>d key h. tbl d = Some (key, h) \<longrightarrow>
      entry_ok k N d key h \<and> h_id h < length chans \<and> \<not> c_shutdown (chans ! h_id h)
      \<and> c_service (chans ! h_id h) = h_service h" using assms(1) by simp
  show "\<forall>d d' key key' h h'. tbl d = Some (key, h) \<longrightarrow> tbl d' = Some (key', h') \<longrightarrow> h_id h = h_id h' \<longrightarrow> d = d'"
    using assms(2) by simp
  show "\<forall>i < length chans. \<not> c_shutdown (chans ! i) \<longrightarrow> (\<exists>d key h. tbl d = Some (key, h) \<and> h_id h = i)"
    using assms(3) by simp
qed

lemma length_drop_handle [simp]: "length (drop_handle h chans) = length chans"
  by (simp add: drop_handle_def split: option.splits)

lemma drop_handle_nth:
  "i < length chans \<Longrightarrow> drop_handle h chans ! i =
    (if (\<exists>x. h = Some x \<and> h_id x = i) then (chans ! i)\<lparr>c_shutdown := True\<rparr> else chans ! i)"
  by (auto simp: drop_handle_def nth_list_update split: option.splits)

lemma table_ok_remove:
  assumes ok: "table_ok k N tbl chans"
  shows "table_ok k N (tbl(d := None)) (drop_handle (map_option snd (tbl d)) chans)"
proof (rule table_okI)
  fix d' key h
  assume e: "(tbl(d := None)) d' = Some (key, h)"
  then have d': "d' \<noteq> d" "tbl d' = Some (key, h)" by (auto split: if_splits)
  note D = table_okD [OF ok d'(2)]
  have "map_option snd (tbl d) \<noteq> Some x" if "h_id x = h_id h" for x
    using table_ok_uniq [OF ok d'(2), of d _ x] d'(1) that by fastforce
  then have same: "drop_handle (map_option snd (tbl d)) chans ! h_id h = chans ! h_id h"
    using D(2) by (auto simp: drop_handle_nth)
  show "entry_ok k N d' key h \<and> h_id h < length (drop_handle (map_option snd (tbl d)) chans)
    \<and> \<not> c_shutdown (drop_handle (map_option snd (tbl d)) chans ! h_id h)
    \<and> c_service (drop_handle (map_option snd (tbl d)) chans ! h_id h) = h_service h"
    using D same by simp
next
  fix d1 d2 key key' h h'
  assume "(tbl(d := None)) d1 = Some (key, h)" "(tbl(d := None)) d2 = Some (key', h')" "h_id h = h_id h'"
  then show "d1 = d2" using table_ok_uniq [OF ok] by (auto split: if_splits)
next
  fix i
  assume i: "i < length (drop_handle (map_option snd (tbl d)) chans)"
    and up: "\<not> c_shutdown (drop_handle (map_option snd (tbl d)) chans ! i)"
  then have "\<not> c_shutdown (chans ! i)" and nd: "\<And>x. map_option snd (tbl d) = Some x \<Longrightarrow> h_id x \<noteq> i"
    by (auto simp: drop_handle_nth split: if_splits)
  with table_ok_registered [OF ok, of i] i obtain d' key h where h: "tbl d' = Some (key, h)" "h_id h = i"
    by auto
  with nd have "d' \<noteq> d" by auto
  with h show "\<exists>d' key h. (tbl(d := None)) d' = Some (key, h) \<and> h_id h = i" by auto
qed

lemma table_ok_insert:
  assumes ok: "table_ok k N tbl chans" and new: "tbl d = None" "entry_ok k N d key h0"
    and h0: "h_id h0 = length chans" and ch: "\<not> c_shutdown ch" "c_service ch = h_service h0"
  shows "table_ok k N (tbl(d \<mapsto> (key, h0))) (chans @ [ch])"
proof (rule table_okI)
  fix d' key' h
  assume e: "(tbl(d \<mapsto> (key, h0))) d' = Some (key', h)"
  show "entry_ok k N d' key' h \<and> h_id h < length (chans @ [ch]) \<and> \<not> c_shutdown ((chans @ [ch]) ! h_id h)
    \<and> c_service ((chans @ [ch]) ! h_id h) = h_service h"
  proof (cases "d' = d")
    case True
    with e have "key' = key" "h = h0" by simp_all
    with True new(2) h0 ch show ?thesis by (simp add: nth_append)
  next
    case False
    with e have "tbl d' = Some (key', h)" by simp
    from table_okD [OF ok this] show ?thesis by (simp add: nth_append)
  qed
next
  fix d1 d2 k1 k2 h1 h2
  assume e: "(tbl(d \<mapsto> (key, h0))) d1 = Some (k1, h1)" "(tbl(d \<mapsto> (key, h0))) d2 = Some (k2, h2)" "h_id h1 = h_id h2"
  show "d1 = d2"
    using e h0 table_okD(2) [OF ok, of d1 k1 h1] table_okD(2) [OF ok, of d2 k2 h2]
      table_ok_uniq [OF ok, of d1 k1 h1 d2 k2 h2]
    by (simp split: if_splits)
next
  fix i
  assume i: "i < length (chans @ [ch])" "\<not> c_shutdown ((chans @ [ch]) ! i)"
  show "\<exists>d' k' h'. (tbl(d \<mapsto> (key, h0))) d' = Some (k', h') \<and> h_id h' = i"
  proof (cases "i = length chans")
    case True
    then show ?thesis using h0 by (intro exI [of _ d] exI [of _ key] exI [of _ h0]) simp
  next
    case False
    with i table_ok_registered [OF ok, of i] obtain d' k' h' where d': "tbl d' = Some (k', h')" "h_id h' = i"
      by (auto simp: nth_append)
    with new(1) have "d' \<noteq> d" by auto
    with d' show ?thesis by (intro exI [of _ d'] exI [of _ k'] exI [of _ h']) simp
  qed
qed

lemma table_ok_append_dropped:
  assumes ok: "table_ok k N tbl chans" and h: "h_id h = length chans"
  shows "table_ok k N tbl (drop_handle (Some h) (chans @ [ch]))"
proof -
  have same: "drop_handle (Some h) (chans @ [ch]) ! i = chans ! i" if "i < length chans" for i
    using that h by (simp add: drop_handle_nth nth_append)
  have last: "c_shutdown (drop_handle (Some h) (chans @ [ch]) ! length chans)"
    using h by (simp add: drop_handle_nth)
  show ?thesis
  proof (rule table_okI)
    fix i
    assume i: "i < length (drop_handle (Some h) (chans @ [ch]))" "\<not> c_shutdown (drop_handle (Some h) (chans @ [ch]) ! i)"
    with last have "i < length chans" by (cases "i = length chans") auto
    with i(2) same table_ok_registered [OF ok, of i] show "\<exists>d key h. tbl d = Some (key, h) \<and> h_id h = i" by simp
  next
    fix d1 d2 k1 k2 h1 h2
    assume "tbl d1 = Some (k1, h1)" "tbl d2 = Some (k2, h2)" "h_id h1 = h_id h2"
    then show "d1 = d2" by (rule table_ok_uniq [OF ok])
  next
    fix d key x
    assume "tbl d = Some (key, x)"
    from table_okD [OF ok this] same [of "h_id x"]
    show "entry_ok k N d key x \<and> h_id x < length (drop_handle (Some h) (chans @ [ch]))
      \<and> \<not> c_shutdown (drop_handle (Some h) (chans @ [ch]) ! h_id x)
      \<and> c_service (drop_handle (Some h) (chans @ [ch]) ! h_id x) = h_service x" by simp
  qed
qed

lemma table_ok_update:
  assumes ok: "table_ok k N tbl chans"
    and ch: "c_shutdown ch = c_shutdown (chans ! i)" "c_service ch = c_service (chans ! i)"
  shows "table_ok k N tbl (chans[i := ch])"
proof -
  have same: "c_shutdown (chans[i := ch] ! j) = c_shutdown (chans ! j) \<and>
      c_service (chans[i := ch] ! j) = c_service (chans ! j)" for j
  proof (cases "i < length chans \<and> i = j")
    case True
    then show ?thesis using ch by simp
  next
    case False
    then have "chans[i := ch] ! j = chans ! j" by (cases "i = j") (simp_all add: list_update_beyond)
    then show ?thesis by simp
  qed
  show ?thesis
  proof (rule table_okI)
    fix d key h
    assume "tbl d = Some (key, h)"
    from table_okD [OF ok this] show "entry_ok k N d key h \<and> h_id h < length (chans[i := ch])
      \<and> \<not> c_shutdown (chans[i := ch] ! h_id h) \<and> c_service (chans[i := ch] ! h_id h) = h_service h"
      by (simp add: same)
  next
    fix d1 d2 k1 k2 h1 h2
    assume "tbl d1 = Some (k1, h1)" "tbl d2 = Some (k2, h2)" "h_id h1 = h_id h2"
    then show "d1 = d2" by (rule table_ok_uniq [OF ok])
  next
    fix j
    assume "j < length (chans[i := ch])" "\<not> c_shutdown (chans[i := ch] ! j)"
    then show "\<exists>d key h. tbl d = Some (key, h) \<and> h_id h = j"
      using table_ok_registered [OF ok, of j] by (simp add: same)
  qed
qed

lemma length_drop_all: "length (fold (\<lambda>e. drop_handle (Some (f e))) es chans) = length chans"
  by (induction es arbitrary: chans) simp_all

lemma drop_all_keeps_shutdown:
  "i < length chans \<Longrightarrow> c_shutdown (chans ! i) \<Longrightarrow>
    c_shutdown (fold (\<lambda>e. drop_handle (Some (f e))) es chans ! i)"
  by (induction es arbitrary: chans) (simp_all add: drop_handle_nth)

lemma drop_all_shutdown:
  "i < length chans \<Longrightarrow> \<exists>e \<in> set es. h_id (f e) = i \<Longrightarrow>
    c_shutdown (fold (\<lambda>e. drop_handle (Some (f e))) es chans ! i)"
proof (induction es arbitrary: chans)
  case (Cons e es)
  then show ?case
    by (cases "h_id (f e) = i") (simp_all add: drop_all_keeps_shutdown drop_handle_nth)
qed simp

lemma table_ok_drop_all:
  assumes ok: "table_ok k N tbl chans" and es: "\<And>d key h. tbl d = Some (key, h) \<Longrightarrow> \<exists>e \<in> set es. f e = h"
  shows "table_ok k N Map.empty (fold (\<lambda>e. drop_handle (Some (f e))) es chans)"
proof -
  have "c_shutdown (fold (\<lambda>e. drop_handle (Some (f e))) es chans ! i)" if i: "i < length chans" for i
  proof (cases "c_shutdown (chans ! i)")
    case True
    then show ?thesis by (rule drop_all_keeps_shutdown [OF i])
  next
    case False
    with table_ok_registered [OF ok i] es have "\<exists>e \<in> set es. h_id (f e) = i" by metis
    then show ?thesis by (rule drop_all_shutdown [OF i])
  qed
  then show ?thesis by (simp add: table_ok_def length_drop_all)
qed

section \<open>Every step keeps the invariant\<close>

definition service_ok :: "server_service \<Rightarrow> bool" where
  "service_ok svc = (ss_token svc \<noteq> None \<and> ss_type svc \<noteq> Service_Http)"

definition services_inv :: "codec \<Rightarrow> (digest, server_service) hash \<Rightarrow> bool" where
  "services_inv k svs =
     (\<forall>d svc. map_of svs d = Some svc \<longrightarrow> d = digest k (as_bytes (ss_name svc)) \<and> service_ok svc)"

definition server_inv :: "codec \<Rightarrow> bytes set \<Rightarrow> server_state \<Rightarrow> bool" where
  "server_inv k N w =
     (mm_inv (srv_channels w) \<and> table_ok k N (mm_tbl (srv_channels w)) (srv_chans w) \<and> services_inv k (srv_services w))"

fun task_ok :: "codec \<Rightarrow> bytes set \<Rightarrow> conn_task \<Rightarrow> bool" where
  "task_ok k N (Awaiting d svc cb c) =
     (d = digest k (as_bytes (ss_name svc)) \<and> service_ok svc
      \<and> (\<exists>t. \<exists>nonce \<in> N. ss_token svc = Some t \<and> cb = as_bytes t @ nonce))"
| "task_ok k N (Fresh nonce c) = (nonce \<in> N)"
| "task_ok k N t = True"

definition sys_inv :: "codec \<Rightarrow> bytes set \<Rightarrow> sys \<Rightarrow> bool" where
  "sys_inv k N s = (server_inv k N (sys_server s) \<and> list_all (task_ok k N) (sys_tasks s))"

text \<open>Events the watcher sends after a validated configuration without HTTP services.\<close>

fun event_ok :: "bytes set \<Rightarrow> srv_event \<Rightarrow> bool" where
  "event_ok N (Update (Some (ServerChange (Add_Server cfg)))) = service_ok cfg"
| "event_ok N (Accepted nonce c) = (nonce \<in> N)"
| "event_ok N ev = True"

lemma remove_channel_ok:
  assumes "mm_inv (srv_channels w)" "table_ok k N (mm_tbl (srv_channels w)) (srv_chans w)"
  obtains w' where "remove_channel d w = Inr w'" "mm_inv (srv_channels w')"
    "mm_tbl (srv_channels w') = (mm_tbl (srv_channels w))(d := None)"
    "table_ok k N (mm_tbl (srv_channels w')) (srv_chans w')"
    "srv_services w' = srv_services w" "srv_config w' = srv_config w"
    "srv_chans w' = drop_handle (map_option snd (mm_tbl (srv_channels w) d)) (srv_chans w)"
proof -
  obtain m' where m': "mm_remove1 d (srv_channels w) = Inr (map_option snd (mm_tbl (srv_channels w) d), m')"
      "mm_inv m'" "mm_tbl m' = (mm_tbl (srv_channels w))(d := None)"
    by (rule mm.rem1_cases [OF assms(1)])
  with table_ok_remove [OF assms(2), of d] that show ?thesis
    by (simp add: remove_channel_def)
qed

lemma hot_reload_inv:
  assumes inv: "server_inv k N w" and ev: "event_ok N (Update (Some e))"
  shows "\<exists>w'. handle_hot_reload k e w = Inr w' \<and> server_inv k N w'"
proof -
  have rem: "\<exists>w'. remove_channel d (w\<lparr>srv_services := svs\<rparr>) = Inr w' \<and> server_inv k N w'"
    if "services_inv k svs" for d svs
    using inv that
    by (auto simp: server_inv_def intro: remove_channel_ok [of "w\<lparr>srv_services := svs\<rparr>" k N d])
  show ?thesis
  proof (cases e)
    case (ServerChange c)
    have svs: "services_inv k (srv_services w)" using inv by (simp add: server_inv_def)
    show ?thesis
    proof (cases c)
      case (Add_Server cfg)
      with ev ServerChange have "service_ok cfg" by simp
      with svs have "services_inv k (hash_insert (digest k (as_bytes (ss_name cfg))) cfg (srv_services w))"
        by (simp add: services_inv_def)
      from rem [OF this] show ?thesis by (simp add: handle_hot_reload_def ServerChange Add_Server Let_def)
    next
      case (Delete_Server n)
      from svs have "services_inv k (hash_remove (digest k (as_bytes n)) (srv_services w))"
        by (simp add: services_inv_def)
      from rem [OF this] show ?thesis by (simp add: handle_hot_reload_def ServerChange Delete_Server Let_def)
    qed
  qed (use inv in \<open>simp_all add: handle_hot_reload_def\<close>)
qed

lemma handshake_begin_ok:
  assumes "services_inv k svs" "nonce \<in> N"
  shows "\<exists>r c1. handshake_begin k svs d nonce c = Inr (r, c1) \<and>
    (\<forall>svc cb. r = Inr (svc, cb) \<longrightarrow> task_ok k N (Awaiting d svc cb c1))"
proof -
  obtain r1 c1 where w: "write_all (ser_hello k (ControlChannelHello CURRENT_PROTO_VERSION nonce)) c = (r1, c1)"
    by fastforce
  obtain r2 c2 where a: "write_all (ser_ack k ServiceNotExist) c1 = (r2, c2)" by fastforce
  show ?thesis
  proof (cases "map_of svs d")
    case None
    then show ?thesis by (cases r1; cases r2) (simp_all add: handshake_begin_def w a)
  next
    case (Some svc)
    with assms(1) have svc: "d = digest k (as_bytes (ss_name svc))" "service_ok svc"
      by (simp_all add: services_inv_def)
    then obtain t where "ss_token svc = Some t" by (auto simp: service_ok_def)
    with Some svc assms(2) show ?thesis by (cases r1) (auto simp: handshake_begin_def w)
  qed
qed

lemma handle_new_ok:
  assumes "service_ok svc"
  obtains h ch where "handle_new c svc hb chans = Inr (h, chans @ [ch])" "h = \<lparr>h_id = length chans, h_service = svc\<rparr>"
    "\<not> c_shutdown ch" "c_service ch = svc" "c_conn ch = c" "c_reqs ch = pool_size (ss_type svc)"
    "c_pool_alive ch" "c_data ch = []"
  using assms by (cases "ss_type svc") (auto simp: handle_new_def service_ok_def Let_def)

lemma handshake_finish_inv:
  assumes inv: "server_inv k N w" and t: "task_ok k N (Awaiting d svc cb c)"
  shows "\<exists>r c' w'. handshake_finish k d svc cb c w = Inr (r, c', w') \<and> server_inv k N w'"
proof -
  obtain r1 c1 where ra: "read_auth k c = (r1, c1)" by fastforce
  show ?thesis
  proof (cases r1)
    case (Inl e)
    with ra inv show ?thesis by (simp add: handshake_finish_def)
  next
    case (Inr a)
    obtain ans where a: "a = Auth ans" by (cases a)
    obtain r2 c2 where wf: "write_all (ser_ack k AuthFailed) c1 = (r2, c2)" by fastforce
    obtain r3 c3 where wo: "write_all (ser_ack k Ok) c1 = (r3, c3)" by fastforce
    show ?thesis
    proof (cases "digest k cb = ans")
      case False
      with ra Inr a wf inv show ?thesis by (cases r2) (simp_all add: handshake_finish_def Let_def)
    next
      case True
      obtain w1 where w1: "remove_channel d w = Inr w1" "mm_inv (srv_channels w1)"
          "mm_tbl (srv_channels w1) = (mm_tbl (srv_channels w))(d := None)"
          "table_ok k N (mm_tbl (srv_channels w1)) (srv_chans w1)" "srv_services w1 = srv_services w"
        using inv by (auto simp: server_inv_def intro: remove_channel_ok [of w k N d])
      show ?thesis
      proof (cases r3)
        case (Inl e)
        with True ra Inr a wo w1 inv show ?thesis by (simp add: handshake_finish_def server_inv_def Let_def)
      next
        case (Inr u)
        have svc: "service_ok svc" using t by simp
        obtain h ch where h: "handle_new c3 svc (sc_heartbeat_interval (srv_config w1)) (srv_chans w1) = Inr (h, srv_chans w1 @ [ch])"
            "h = \<lparr>h_id = length (srv_chans w1), h_service = svc\<rparr>" "\<not> c_shutdown ch" "c_service ch = svc"
          using handle_new_ok [OF svc, of c3 "sc_heartbeat_interval (srv_config w1)" "srv_chans w1"] by metis
        have eo: "entry_ok k N d (digest k cb) h" using t h(2) by (auto simp: entry_ok_def)
        have none: "mm_tbl (srv_channels w1) d = None" by (simp add: w1(3))
        show ?thesis
        proof (cases "\<exists>a x. mm_tbl (srv_channels w1) a = Some (digest k cb, x)")
          case clash: True
          have i: "mm_insert d (digest k cb) h (srv_channels w1) = Inr (Inl (d, digest k cb, h), srv_channels w1)"
            using clash by (intro mm.ins_taken [OF w1(2)]) blast
          have "table_ok k N (mm_tbl (srv_channels w1)) (drop_handle (Some h) (srv_chans w1 @ [ch]))"
            using h(2) by (intro table_ok_append_dropped [OF w1(4)]) simp
          with True ra \<open>r1 = Inr a\<close> a wo Inr w1 h(1) i inv show ?thesis
            by (simp add: handshake_finish_def server_inv_def Let_def)
        next
          case fresh: False
          then obtain m' where i: "mm_insert d (digest k cb) h (srv_channels w1) = Inr (Inr (), m')" "mm_inv m'"
              "mm_tbl m' = (mm_tbl (srv_channels w1))(d \<mapsto> (digest k cb, h))"
            using mm.ins_new [OF w1(2) none, of "digest k cb" h] by blast
          have "table_ok k N (mm_tbl m') (srv_chans w1 @ [ch])"
            unfolding i(3) using h by (intro table_ok_insert [OF w1(4) none eo]) simp_all
          with True ra \<open>r1 = Inr a\<close> a wo Inr w1 h(1) i inv show ?thesis
            by (simp add: handshake_finish_def server_inv_def Let_def)
        qed
      qed
    qed
  qed
qed

lemma server_inv_update:
  assumes "server_inv k N w" "c_shutdown ch = c_shutdown (srv_chans w ! i)" "c_service ch = c_service (srv_chans w ! i)"
  shows "server_inv k N (w\<lparr>srv_chans := (srv_chans w)[i := ch]\<rparr>)"
  using assms by (simp add: server_inv_def table_ok_update)

lemma data_handshake_inv:
  assumes "server_inv k N w"
  shows "\<exists>r w'. do_data_channel_handshake n c w = Inr (r, w') \<and> server_inv k N w'"
proof -
  have inv: "mm_inv (srv_channels w)" using assms by (simp add: server_inv_def)
  show ?thesis
  proof (cases n rule: mm.get2_cases [OF inv])
    case 1
    with assms show ?thesis by (simp add: do_data_channel_handshake_def)
  next
    case (2 d h)
    with assms server_inv_update [OF assms] show ?thesis
      by (simp add: do_data_channel_handshake_def Let_def)
  qed
qed

lemma ctl_write_frame: "c_shutdown (ctl_write bs ch) = c_shutdown ch" "c_service (ctl_write bs ch) = c_service ch"
  by (simp_all add: ctl_write_def split: prod.splits sum.splits)

lemma chan_step_frame:
  "c_shutdown (ctl_step k e ch) = c_shutdown ch" "c_service (ctl_step k e ch) = c_service ch"
  "c_shutdown (visitor_arrives v ch) = c_shutdown ch" "c_service (visitor_arrives v ch) = c_service ch"
  "c_shutdown (tcp_pool_step k ch) = c_shutdown ch" "c_service (tcp_pool_step k ch) = c_service ch"
  by (simp_all add: ctl_step_def visitor_arrives_def tcp_pool_step_def ctl_write_frame
      split: ctl_event.splits list.splits pool_result.splits)

lemma task_step_inv:
  assumes inv: "server_inv k N w" and t: "task_ok k N t"
  shows "\<exists>t' w'. task_step k t w = Inr (t', w') \<and> server_inv k N w' \<and> task_ok k N t'"
proof (cases t)
  case (Fresh nonce c)
  obtain r1 c1 where rh: "read_hello k c = (r1, c1)" by fastforce
  consider (err) e where "r1 = Inl e" | (control) v d where "r1 = Inr (ControlChannelHello v d)"
    | (data) v n where "r1 = Inr (DataChannelHello v n)"
    by (metis hello.exhaust sumE)
  then show ?thesis
  proof cases
    case control
    obtain r c2 where b: "handshake_begin k (srv_services w) d nonce c1 = Inr (r, c2)"
        "\<forall>svc cb. r = Inr (svc, cb) \<longrightarrow> task_ok k N (Awaiting d svc cb c2)"
      using handshake_begin_ok [of k "srv_services w" nonce N d c1] inv t by (auto simp: server_inv_def Fresh)
    with inv show ?thesis
      by (cases r) (auto simp: task_step_def Fresh rh control)
  qed (use inv in \<open>simp_all add: task_step_def Fresh rh\<close>)
next
  case (Awaiting d svc cb c)
  with handshake_finish_inv [OF inv, of d svc cb c] t show ?thesis by (auto simp: task_step_def)
next
  case (Delivering n c)
  obtain r w' where "do_data_channel_handshake n c w = Inr (r, w')" "server_inv k N w'"
    using data_handshake_inv [OF inv] by blast
  then show ?thesis by (cases r) (simp_all add: task_step_def Delivering)
next
  case Finished
  with inv show ?thesis by (simp add: task_step_def)
qed

lemma shutdown_inv:
  assumes "server_inv k N w"
  shows "\<exists>w'. server_shutdown w = Inr w' \<and> server_inv k N w'"
proof -
  have inv: "mm_inv (srv_channels w)" and ok: "table_ok k N (mm_tbl (srv_channels w)) (srv_chans w)"
    using assms by (simp_all add: server_inv_def)
  have "\<exists>e \<in> set (boxes (srv_channels w)). item (snd e) = h"
    if "mm_tbl (srv_channels w) d = Some (key, h)" for d key h
    using mm_tbl_in that by (force simp: mm_tbl_def dest: map_of_SomeD)
  with table_ok_drop_all [OF ok, of "boxes (srv_channels w)" "\<lambda>e. item (snd e)"] assms inv show ?thesis
    by (simp add: server_shutdown_def mm_drop_frees_all server_inv_def mm_new_inv)
qed

lemma sys_step_inv:
  assumes inv: "sys_inv k N s" and ev: "event_ok N ev"
  shows "\<exists>s'. sys_step k ev s = Inr s' \<and> sys_inv k N s'"
proof -
  have w: "server_inv k N (sys_server s)" and ts: "list_all (task_ok k N) (sys_tasks s)"
    using inv by (simp_all add: sys_inv_def)
  have upd: "sys_inv k N (update_chan i f s)"
    if "\<And>ch. c_shutdown (f ch) = c_shutdown ch \<and> c_service (f ch) = c_service ch" for i f
    using inv that by (simp add: update_chan_def Let_def sys_inv_def server_inv_update)
  show ?thesis
  proof (cases ev)
    case (Task i)
    show ?thesis
    proof (cases "i < length (sys_tasks s)")
      case True
      with ts have "task_ok k N (sys_tasks s ! i)" by (simp add: list_all_length)
      with task_step_inv [OF w] obtain t' w' where "task_step k (sys_tasks s ! i) (sys_server s) = Inr (t', w')"
        "server_inv k N w'" "task_ok k N t'" by blast
      with ts True show ?thesis
        by (simp add: sys_step_def Task sys_inv_def list_all_length nth_list_update)
    next
      case False
      with inv show ?thesis by (simp add: sys_step_def Task)
    qed
  next
    case (Update e)
    show ?thesis
    proof (cases e)
      case (Some c)
      with hot_reload_inv [OF w, of c] ev Update obtain w' where
        "handle_hot_reload k c (sys_server s) = Inr w'" "server_inv k N w'" by blast
      with inv ts show ?thesis by (simp add: sys_step_def sys_inv_def Update Some)
    qed (use inv Update in \<open>simp add: sys_step_def\<close>)
  next
    case Shutdown_Signal
    with shutdown_inv [OF w] inv ts show ?thesis by (auto simp: sys_step_def sys_inv_def)
  qed (use inv upd ev in \<open>auto simp: sys_step_def sys_inv_def chan_step_frame\<close>)
qed

lemma sys_run_inv:
  assumes "sys_inv k N s" "list_all (event_ok N) evs"
  shows "\<exists>s'. sys_run k evs s = Inr s' \<and> sys_inv k N s'"
  using assms
proof (induction evs arbitrary: s)
  case (Cons ev evs)
  with sys_step_inv [of k N s ev] show ?case by fastforce
qed simp

section \<open>Properties of the system\<close>

lemma generate_services:
  assumes "list_all (\<lambda>(n, s). ss_name s = n) svs"
  shows "map_of (fold (\<lambda>(n, s) ret. hash_insert (digest k (as_bytes n)) s ret) svs h0) d = Some svc \<Longrightarrow>
    (\<exists>n. (n, svc) \<in> set svs \<and> d = digest k (as_bytes n)) \<or> map_of h0 d = Some svc"
  by (induction svs arbitrary: h0) (fastforce split: if_splits prod.splits)+

lemma generated_services_inv:
  assumes "server_services_ok (sc_services sc)" "list_all (\<lambda>(n, s). ss_type s \<noteq> Service_Http) (sc_services sc)"
  shows "services_inv k (generate_service_hashmap k sc)"
proof -
  have names: "list_all (\<lambda>(n, s). ss_name s = n) (sc_services sc)"
    using assms(1) by (auto simp: server_services_ok_def list_all_iff)
  show ?thesis
    using generate_services [OF names, of k "[]"] assms
    by (fastforce simp: services_inv_def generate_service_hashmap_def service_ok_def server_services_ok_def list_all_iff)
qed

lemma server_from_inv:
  assumes "server_services_ok (sc_services sc)" "list_all (\<lambda>(n, s). ss_type s \<noteq> Service_Http) (sc_services sc)"
  shows "sys_inv k N \<lparr>sys_server = server_from k sc, sys_tasks = [], sys_running = True\<rparr>"
  using generated_services_inv [OF assms]
  by (simp add: sys_inv_def server_inv_def server_from_def mm_new_inv table_ok_def)

text \<open>The nonces the server drew in a run.\<close>

definition nonces_of :: "srv_event list \<Rightarrow> bytes set" where
  "nonces_of evs = {nonce. \<exists>c. Accepted nonce c \<in> set evs}"

definition added_services_ok :: "srv_event list \<Rightarrow> bool" where
  "added_services_ok evs =
     list_all (\<lambda>ev. case ev of Update (Some (ServerChange (Add_Server cfg))) \<Rightarrow> service_ok cfg | _ \<Rightarrow> True) evs"

lemma event_ok_nonces: "added_services_ok evs \<Longrightarrow> list_all (event_ok (nonces_of evs)) evs"
  unfolding added_services_ok_def list_all_iff
proof
  fix ev
  assume "\<forall>ev \<in> set evs. case ev of Update (Some (ServerChange (Add_Server cfg))) \<Rightarrow> service_ok cfg | _ \<Rightarrow> True"
    and ev: "ev \<in> set evs"
  then have "case ev of Update (Some (ServerChange (Add_Server cfg))) \<Rightarrow> service_ok cfg | _ \<Rightarrow> True" by blast
  with ev show "event_ok (nonces_of evs) ev"
    by (cases "(nonces_of evs, ev)" rule: event_ok.cases) (auto simp: nonces_of_def)
qed

lemma run_server_inv:
  assumes "server cfg = Some sc" "server_services_ok (sc_services sc)"
    and "list_all (\<lambda>(n, s). ss_type s \<noteq> Service_Http) (sc_services sc)" "added_services_ok evs"
  shows "\<exists>s. run_server k cfg (Inr ()) evs = Inr (Inr s) \<and> sys_inv k (nonces_of evs) s"
  using sys_run_inv [OF server_from_inv [OF assms(2,3)] event_ok_nonces [OF assms(4)], of k] assms(1)
  by (auto simp: run_server_def)


definition one_service :: server_config where
  "one_service = default_server_config\<lparr>sc_services :=
     [(''app'', \<lparr>ss_type = Service_Tcp, ss_name = ''app'', ss_bind_addr = ''0.0.0.0:80'', ss_token = Some ''t'', ss_nodelay = None\<rparr>)]\<rparr>"

lemma one_service_ok:
  "server_services_ok (sc_services one_service)"
  "list_all (\<lambda>(n, s). ss_type s \<noteq> Service_Http) (sc_services one_service)"
  by (simp_all add: one_service_def server_services_ok_def)


end
