(* ===== verification/Server_Props.thy ===== *)
theory Server_Props
  imports Server_System
begin

text \<open>
  Properties of the server's operations: the outcome of a handshake on every branch, the live
  channels of a run, and a race of the handshake with hot reload.
\<close>

section \<open>Handshakes\<close>

lemma handshake_begin_eqs:
  assumes "room c = None"
  shows "map_of svs d = None \<Longrightarrow> handshake_begin k svs d nonce c =
      Inr (Inl (Msg ''No such a service''),
        c\<lparr>sent := sent c @ ser_hello k (ControlChannelHello CURRENT_PROTO_VERSION nonce) @ ser_ack k ServiceNotExist\<rparr>)"
    and "map_of svs d = Some svc \<Longrightarrow> ss_token svc = Some t \<Longrightarrow> handshake_begin k svs d nonce c =
      Inr (Inr (svc, as_bytes t @ nonce),
        c\<lparr>sent := sent c @ ser_hello k (ControlChannelHello CURRENT_PROTO_VERSION nonce)\<rparr>)"
  using assms by (simp_all add: handshake_begin_def)

lemma handshake_finish_rejects:
  assumes "wire_codec k" "room c = None" "inp c = ser_auth k (Auth a) @ rest" "length a = HASH_WIDTH_IN_BYTES"
    and "a \<noteq> digest k cb"
  shows "handshake_finish k d svc cb c w =
    Inr (Inl (Msg (''Service '' @ ss_name svc @ '' failed the authentication'')),
      c\<lparr>inp := rest, sent := sent c @ ser_ack k AuthFailed\<rparr>, w)"
proof -
  have "read_auth k c = (Inr (Auth a), c\<lparr>inp := rest\<rparr>)"
    using wire_codec.read_auth_ok [OF assms(1) _ assms(3)] assms(4) by simp
  with assms(2,5) show ?thesis by (auto simp: handshake_finish_def Let_def)
qed

lemma handshake_finish_accepts:
  assumes "wire_codec k" "room c = None" "inp c = ser_auth k (Auth (digest k cb)) @ rest"
    and "service_ok svc" "mm_inv (srv_channels w)"
    and fresh: "\<And>d' h'. mm_tbl (srv_channels w) d' = Some (digest k cb, h') \<Longrightarrow> d' = d"
  shows "\<exists>w' h ch. handshake_finish k d svc cb c w = Inr (Inr (), c\<lparr>inp := rest, sent := sent c @ ser_ack k Ok\<rparr>, w')
    \<and> mm_inv (srv_channels w') \<and> mm_tbl (srv_channels w') = (mm_tbl (srv_channels w))(d \<mapsto> (digest k cb, h))
    \<and> srv_services w' = srv_services w \<and> srv_config w' = srv_config w
    \<and> srv_chans w' = drop_handle (map_option snd (mm_tbl (srv_channels w) d)) (srv_chans w) @ [ch]
    \<and> h = \<lparr>h_id = length (srv_chans w), h_service = svc\<rparr>
    \<and> \<not> c_shutdown ch \<and> c_service ch = svc \<and> c_pool_alive ch \<and> c_data ch = [] \<and> c_reqs ch = pool_size (ss_type svc)
    \<and> c_conn ch = c\<lparr>inp := rest, sent := sent c @ ser_ack k Ok\<rparr>"
proof -
  let ?c = "c\<lparr>inp := rest, sent := sent c @ ser_ack k Ok\<rparr>"
  have ra: "read_auth k c = (Inr (Auth (digest k cb)), c\<lparr>inp := rest\<rparr>)"
    using wire_codec.read_auth_ok [OF assms(1) _ assms(3)] wire_codec.length_digest [OF assms(1)] by simp
  obtain m1 where m1: "mm_remove1 d (srv_channels w) = Inr (map_option snd (mm_tbl (srv_channels w) d), m1)"
      "mm_inv m1" "mm_tbl m1 = (mm_tbl (srv_channels w))(d := None)"
    by (rule mm.rem1_cases [OF assms(5)])
  let ?chans = "drop_handle (map_option snd (mm_tbl (srv_channels w) d)) (srv_chans w)"
  obtain h ch where h: "handle_new ?c svc (sc_heartbeat_interval (srv_config w)) ?chans = Inr (h, ?chans @ [ch])"
      "h = \<lparr>h_id = length ?chans, h_service = svc\<rparr>" "\<not> c_shutdown ch" "c_service ch = svc" "c_conn ch = ?c"
      "c_reqs ch = pool_size (ss_type svc)" "c_pool_alive ch" "c_data ch = []"
    by (rule handle_new_ok [OF assms(4)])
  have none: "mm_tbl m1 d = None" "\<And>a x. mm_tbl m1 a \<noteq> Some (digest k cb, x)"
    using fresh m1(3) by auto
  obtain m2 where m2: "mm_insert d (digest k cb) h m1 = Inr (Inr (), m2)" "mm_inv m2"
      "mm_tbl m2 = (mm_tbl m1)(d \<mapsto> (digest k cb, h))"
    using mm.ins_new [OF m1(2) none, of h] by blast
  have "handshake_finish k d svc cb c w = Inr (Inr (), ?c, w\<lparr>srv_channels := m2, srv_chans := ?chans @ [ch]\<rparr>)"
    using ra m1(1) h(1) m2(1) assms(2)
    by (simp add: handshake_finish_def remove_channel_def Let_def)
  moreover have "mm_tbl m2 = (mm_tbl (srv_channels w))(d \<mapsto> (digest k cb, h))"
    using m1(3) m2(3) by simp
  ultimately show ?thesis
    using h m2(2) by (intro exI [of _ "w\<lparr>srv_channels := m2, srv_chans := ?chans @ [ch]\<rparr>"] exI [of _ h] exI [of _ ch]) simp
qed

text \<open>The three branches of the handshake.\<close>

lemma control_handshake_branches:
  assumes "wire_codec k" "mm_inv (srv_channels w)" "room c = None"
    and "inp c = ser_auth k (Auth a) @ rest" "length a = HASH_WIDTH_IN_BYTES"
  shows "map_of (srv_services w) d = None \<Longrightarrow>
      do_control_channel_handshake k d nonce c w =
        Inr (Inl (Msg ''No such a service''),
          c\<lparr>sent := sent c @ ser_hello k (ControlChannelHello CURRENT_PROTO_VERSION nonce) @ ser_ack k ServiceNotExist\<rparr>, w)"
    and "map_of (srv_services w) d = Some svc \<Longrightarrow> ss_token svc = Some t \<Longrightarrow> a \<noteq> digest k (as_bytes t @ nonce) \<Longrightarrow>
      do_control_channel_handshake k d nonce c w =
        Inr (Inl (Msg (''Service '' @ ss_name svc @ '' failed the authentication'')),
          c\<lparr>inp := rest, sent := sent c @ ser_hello k (ControlChannelHello CURRENT_PROTO_VERSION nonce) @ ser_ack k AuthFailed\<rparr>, w)"
    and "map_of (srv_services w) d = Some svc \<Longrightarrow> service_ok svc \<Longrightarrow> ss_token svc = Some t \<Longrightarrow>
      a = digest k (as_bytes t @ nonce) \<Longrightarrow>
      (\<And>d' h'. mm_tbl (srv_channels w) d' = Some (a, h') \<Longrightarrow> d' = d) \<Longrightarrow>
      \<exists>w' h. do_control_channel_handshake k d nonce c w =
        Inr (Inr (), c\<lparr>inp := rest, sent := sent c @ ser_hello k (ControlChannelHello CURRENT_PROTO_VERSION nonce) @ ser_ack k Ok\<rparr>, w')
        \<and> mm_get1 d (srv_channels w') = Inr (Some h) \<and> mm_get2 a (srv_channels w') = Inr (Some h)
        \<and> h_service h = svc \<and> h_id h = length (srv_chans w)
        \<and> take (length (srv_chans w)) (srv_chans w') = drop_handle (map_option snd (mm_tbl (srv_channels w) d)) (srv_chans w)
        \<and> c_reqs (srv_chans w' ! h_id h) = pool_size (ss_type svc) \<and> srv_services w' = srv_services w"
proof -
  let ?c = "c\<lparr>sent := sent c @ ser_hello k (ControlChannelHello CURRENT_PROTO_VERSION nonce)\<rparr>"
  show "map_of (srv_services w) d = None \<Longrightarrow>
      do_control_channel_handshake k d nonce c w =
        Inr (Inl (Msg ''No such a service''),
          c\<lparr>sent := sent c @ ser_hello k (ControlChannelHello CURRENT_PROTO_VERSION nonce) @ ser_ack k ServiceNotExist\<rparr>, w)"
    using handshake_begin_eqs(1) [OF assms(3)] by (simp add: do_control_channel_handshake_def)
  show "map_of (srv_services w) d = Some svc \<Longrightarrow> ss_token svc = Some t \<Longrightarrow> a \<noteq> digest k (as_bytes t @ nonce) \<Longrightarrow>
      do_control_channel_handshake k d nonce c w =
        Inr (Inl (Msg (''Service '' @ ss_name svc @ '' failed the authentication'')),
          c\<lparr>inp := rest, sent := sent c @ ser_hello k (ControlChannelHello CURRENT_PROTO_VERSION nonce) @ ser_ack k AuthFailed\<rparr>, w)"
    using handshake_begin_eqs(2) [OF assms(3), of "srv_services w" d svc t k nonce]
      handshake_finish_rejects [OF assms(1) _ _ assms(5), of ?c rest "as_bytes t @ nonce" d svc w] assms(3,4)
    by (simp add: do_control_channel_handshake_def)
  assume svc: "map_of (srv_services w) d = Some svc" "service_ok svc" "ss_token svc = Some t"
    and a: "a = digest k (as_bytes t @ nonce)"
    and fresh: "\<And>d' h'. mm_tbl (srv_channels w) d' = Some (a, h') \<Longrightarrow> d' = d"
  have b: "handshake_begin k (srv_services w) d nonce c = Inr (Inr (svc, as_bytes t @ nonce), ?c)"
    by (rule handshake_begin_eqs(2) [OF assms(3) svc(1,3)])
  have i: "inp ?c = ser_auth k (Auth (digest k (as_bytes t @ nonce))) @ rest" and r: "room ?c = None"
    using assms(3,4) a by simp_all
  obtain w' h ch where w': "handshake_finish k d svc (as_bytes t @ nonce) ?c w =
        Inr (Inr (), ?c\<lparr>inp := rest, sent := sent ?c @ ser_ack k Ok\<rparr>, w')"
      "mm_inv (srv_channels w')" "mm_tbl (srv_channels w') = (mm_tbl (srv_channels w))(d \<mapsto> (a, h))"
      "srv_services w' = srv_services w"
      "srv_chans w' = drop_handle (map_option snd (mm_tbl (srv_channels w) d)) (srv_chans w) @ [ch]"
      "h = \<lparr>h_id = length (srv_chans w), h_service = svc\<rparr>" "c_reqs ch = pool_size (ss_type svc)"
    using handshake_finish_accepts [OF assms(1) r i svc(2) assms(2), of d] fresh a by blast
  show "\<exists>w' h. do_control_channel_handshake k d nonce c w =
        Inr (Inr (), c\<lparr>inp := rest, sent := sent c @ ser_hello k (ControlChannelHello CURRENT_PROTO_VERSION nonce) @ ser_ack k Ok\<rparr>, w')
        \<and> mm_get1 d (srv_channels w') = Inr (Some h) \<and> mm_get2 a (srv_channels w') = Inr (Some h)
        \<and> h_service h = svc \<and> h_id h = length (srv_chans w)
        \<and> take (length (srv_chans w)) (srv_chans w') = drop_handle (map_option snd (mm_tbl (srv_channels w) d)) (srv_chans w)
        \<and> c_reqs (srv_chans w' ! h_id h) = pool_size (ss_type svc) \<and> srv_services w' = srv_services w"
    using w' b mm.get1_tbl [OF w'(2), of d] mm.get2_Some [OF w'(2), of d a h]
    by (intro exI [of _ w'] exI [of _ h]) (simp add: do_control_channel_handshake_def nth_append)
qed

text \<open>
  C9. The outcome of a control channel handshake on every branch. An unknown service is answered
  \<open>ServiceNotExist\<close>, a wrong digest \<open>AuthFailed\<close>, and both leave the server as it was. The digest of
  token and nonce is answered \<open>Ok\<close>: the table then has a new handle under the service and the session
  key, the previous channel of the service is shut down, and the pool's data channels are requested.
\<close>

theorem control_handshake_outcome:
  assumes "wire_codec k" "mm_inv (srv_channels w)" "room c = None"
    and "inp c = ser_auth k (Auth a) @ rest" "length a = HASH_WIDTH_IN_BYTES"
  shows "case map_of (srv_services w) d of
      None \<Rightarrow> do_control_channel_handshake k d nonce c w =
        Inr (Inl (Msg ''No such a service''),
          c\<lparr>sent := sent c @ ser_hello k (ControlChannelHello CURRENT_PROTO_VERSION nonce) @ ser_ack k ServiceNotExist\<rparr>, w)
    | Some svc \<Rightarrow> service_ok svc \<longrightarrow>
        (if a \<noteq> digest k (as_bytes (the (ss_token svc)) @ nonce)
         then do_control_channel_handshake k d nonce c w =
           Inr (Inl (Msg (''Service '' @ ss_name svc @ '' failed the authentication'')),
             c\<lparr>inp := rest, sent := sent c @ ser_hello k (ControlChannelHello CURRENT_PROTO_VERSION nonce) @ ser_ack k AuthFailed\<rparr>, w)
         else (\<forall>d' h'. mm_tbl (srv_channels w) d' = Some (a, h') \<longrightarrow> d' = d) \<longrightarrow>
           (\<exists>w' h. do_control_channel_handshake k d nonce c w =
              Inr (Inr (), c\<lparr>inp := rest, sent := sent c @ ser_hello k (ControlChannelHello CURRENT_PROTO_VERSION nonce) @ ser_ack k Ok\<rparr>, w')
            \<and> mm_get1 d (srv_channels w') = Inr (Some h) \<and> mm_get2 a (srv_channels w') = Inr (Some h)
            \<and> h_service h = svc \<and> h_id h = length (srv_chans w)
            \<and> take (length (srv_chans w)) (srv_chans w') = drop_handle (map_option snd (mm_tbl (srv_channels w) d)) (srv_chans w)
            \<and> c_reqs (srv_chans w' ! h_id h) = pool_size (ss_type svc) \<and> srv_services w' = srv_services w))"
proof (cases "map_of (srv_services w) d")
  case None
  then show ?thesis using control_handshake_branches(1) [OF assms] by simp
next
  case (Some svc)
  show ?thesis
  proof (cases "service_ok svc")
    case True
    then obtain t where t: "ss_token svc = Some t" by (auto simp: service_ok_def)
    show ?thesis
    proof (cases "a = digest k (as_bytes t @ nonce)")
      case True
      from control_handshake_branches(3) [OF assms Some \<open>service_ok svc\<close> t this] Some t True show ?thesis
        by (simp del: split_paired_Ex)
    next
      case False
      from control_handshake_branches(2) [OF assms Some t this] Some t False show ?thesis by simp
    qed
  qed (use Some in simp)
qed

definition app_service :: server_service where
  "app_service = \<lparr>ss_type = Service_Tcp, ss_name = ''app'', ss_bind_addr = ''0.0.0.0:80'', ss_token = Some ''t'', ss_nodelay = None\<rparr>"

definition app_server :: server_state where
  "app_server = server_from bincode one_service"

lemma app_server_sel:
  "srv_services app_server = [(digest bincode (as_bytes ''app''), app_service)]"
  "srv_channels app_server = mm_new" "srv_chans app_server = []"
  by (simp_all add: app_server_def server_from_def generate_service_hashmap_def one_service_def app_service_def)

lemma app_service_sel: "service_ok app_service" "ss_token app_service = Some ''t''"
  by (simp_all add: app_service_def service_ok_def)

definition app_key :: "bytes \<Rightarrow> digest" where
  "app_key nonce = digest bincode (as_bytes ''t'' @ nonce)"

theorem control_handshake_outcome_witness:
  "\<exists>w' h. do_control_channel_handshake bincode (digest bincode (as_bytes ''app'')) [1, 2, 3]
      (fresh_conn (ser_auth bincode (Auth (app_key [1, 2, 3])))) app_server =
      Inr (Inr (), (fresh_conn [])\<lparr>sent := ser_hello bincode (ControlChannelHello 1 [1, 2, 3]) @ ser_ack bincode Ok\<rparr>, w')
    \<and> mm_get2 (app_key [1, 2, 3]) (srv_channels w') = Inr (Some h) \<and> h_service h = app_service"
  using control_handshake_outcome [OF bincode.wire_codec_axioms, where w = app_server
      and c = "fresh_conn (ser_auth bincode (Auth (app_key [1, 2, 3])))" and a = "app_key [1, 2, 3]" and rest = "[]"
      and d = "digest bincode (as_bytes ''app'')" and nonce = "[1, 2, 3]"] wire_codec.length_digest [OF bincode.wire_codec_axioms]
  by (auto simp: app_server_sel app_service_sel mm_new_inv fresh_conn_def app_key_def CURRENT_PROTO_VERSION_def)

section \<open>Live channels\<close>


section \<open>A race with hot reload\<close>

text \<open>Two stretches of a connection task that carries a correct handshake.\<close>

lemma connection_task_registers:
  assumes k: "wire_codec k" and w: "server_inv k N w"
    and svc: "map_of (srv_services w) d = Some svc" "ss_token svc = Some t"
    and c: "room c = None" "inp c = ser_hello k (ControlChannelHello CURRENT_PROTO_VERSION d) @
        ser_auth k (Auth (digest k (as_bytes t @ nonce)))" "length d = HASH_WIDTH_IN_BYTES"
  shows "\<exists>c1. task_step k (Fresh nonce c) w = Inr (Awaiting d svc (as_bytes t @ nonce) c1, w)
    \<and> (\<forall>w'. mm_inv (srv_channels w') \<longrightarrow>
        (\<forall>d' h'. mm_tbl (srv_channels w') d' = Some (digest k (as_bytes t @ nonce), h') \<longrightarrow> d' = d) \<longrightarrow>
        (\<exists>w'' h. task_step k (Awaiting d svc (as_bytes t @ nonce) c1) w' = Inr (Finished, w'')
          \<and> srv_services w'' = srv_services w' \<and> mm_get1 d (srv_channels w'') = Inr (Some h)
          \<and> h_service h = svc \<and> h_id h < length (srv_chans w'') \<and> \<not> c_shutdown (srv_chans w'' ! h_id h)))"
proof -
  let ?cb = "as_bytes t @ nonce"
  let ?c0 = "c\<lparr>inp := ser_auth k (Auth (digest k ?cb))\<rparr>"
  let ?c1 = "?c0\<lparr>sent := sent ?c0 @ ser_hello k (ControlChannelHello CURRENT_PROTO_VERSION nonce)\<rparr>"
  have rh: "read_hello k c = (Inr (ControlChannelHello CURRENT_PROTO_VERSION d), ?c0)"
    using wire_codec.read_hello_ok [OF k _ c(2)] c(3) by simp
  have hb: "handshake_begin k (srv_services w) d nonce ?c0 = Inr (Inr (svc, ?cb), ?c1)"
    using c(1) by (intro handshake_begin_eqs(2) [OF _ svc]) simp
  have sok: "service_ok svc" using w svc(1) by (simp add: server_inv_def services_inv_def)
  have "\<exists>w'' h. task_step k (Awaiting d svc ?cb ?c1) w' = Inr (Finished, w'')
        \<and> srv_services w'' = srv_services w' \<and> mm_get1 d (srv_channels w'') = Inr (Some h)
        \<and> h_service h = svc \<and> h_id h < length (srv_chans w'') \<and> \<not> c_shutdown (srv_chans w'' ! h_id h)"
    if w': "mm_inv (srv_channels w')" "\<forall>d' h'. mm_tbl (srv_channels w') d' = Some (digest k ?cb, h') \<longrightarrow> d' = d" for w'
  proof -
    have "room ?c1 = None" "inp ?c1 = ser_auth k (Auth (digest k ?cb)) @ []" using c(1) by simp_all
    from handshake_finish_accepts [OF k this sok w'(1), of d] w'(2) obtain c2 w'' h ch where
      "handshake_finish k d svc ?cb ?c1 w' = Inr (Inr (), c2, w'')" "mm_inv (srv_channels w'')"
      "mm_tbl (srv_channels w'') = (mm_tbl (srv_channels w'))(d \<mapsto> (digest k ?cb, h))"
      "srv_services w'' = srv_services w'"
      "srv_chans w'' = drop_handle (map_option snd (mm_tbl (srv_channels w') d)) (srv_chans w') @ [ch]"
      "h = \<lparr>h_id = length (srv_chans w'), h_service = svc\<rparr>" "\<not> c_shutdown ch" by blast
    then show ?thesis
      using mm.get1_tbl [of "srv_channels w''" d]
      by (intro exI [of _ w''] exI [of _ h]) (simp add: task_step_def nth_append)
  qed
  then show ?thesis
    by (intro exI [of _ ?c1]) (simp add: task_step_def rh hb)
qed

text \<open>
  A service deleted by hot reload while a client of it is between the server's hello and its own
  answer is served nevertheless: the handshake goes on with the copy of the service it made before,
  and leaves a live control channel for a service that is no longer configured.
\<close>

theorem handshake_races_with_delete:
  assumes "wire_codec k" "server_inv k N (sys_server s)" "sys_running s"
    and "sys_tasks s = [Fresh nonce c]" "map_of (srv_services (sys_server s)) (digest k (as_bytes n)) = Some svc"
    and "ss_token svc = Some t" "room c = None"
    and "inp c = ser_hello k (ControlChannelHello CURRENT_PROTO_VERSION (digest k (as_bytes n)))
        @ ser_auth k (Auth (digest k (as_bytes t @ nonce)))"
    and "mm_tbl (srv_channels (sys_server s)) = Map.empty"
  shows "\<exists>s' h. sys_run k [Task 0, Update (Some (ServerChange (Delete_Server n))), Task 0] s = Inr s'
    \<and> map_of (srv_services (sys_server s')) (digest k (as_bytes n)) = None
    \<and> mm_get1 (digest k (as_bytes n)) (srv_channels (sys_server s')) = Inr (Some h)
    \<and> h_service h = svc \<and> \<not> c_shutdown (srv_chans (sys_server s') ! h_id h)"
proof -
  let ?w = "sys_server s" and ?d = "digest k (as_bytes n)"
  obtain c1 where one: "task_step k (Fresh nonce c) ?w = Inr (Awaiting ?d svc (as_bytes t @ nonce) c1, ?w)"
    and two: "\<And>w'. mm_inv (srv_channels w') \<Longrightarrow>
        (\<forall>d' h'. mm_tbl (srv_channels w') d' = Some (digest k (as_bytes t @ nonce), h') \<longrightarrow> d' = ?d) \<Longrightarrow>
        \<exists>w'' h. task_step k (Awaiting ?d svc (as_bytes t @ nonce) c1) w' = Inr (Finished, w'')
          \<and> srv_services w'' = srv_services w' \<and> mm_get1 ?d (srv_channels w'') = Inr (Some h)
          \<and> h_service h = svc \<and> h_id h < length (srv_chans w'') \<and> \<not> c_shutdown (srv_chans w'' ! h_id h)"
    using connection_task_registers [OF assms(1,2,5,6,7,8) wire_codec.length_digest [OF assms(1)]] by blast
  have inv: "mm_inv (srv_channels ?w)" and ok: "table_ok k N (mm_tbl (srv_channels ?w)) (srv_chans ?w)"
    using assms(2) by (simp_all add: server_inv_def)
  obtain w1 where w1: "remove_channel ?d (?w\<lparr>srv_services := hash_remove ?d (srv_services ?w)\<rparr>) = Inr w1"
      "mm_inv (srv_channels w1)" "mm_tbl (srv_channels w1) = (mm_tbl (srv_channels ?w))(?d := None)"
      "srv_services w1 = hash_remove ?d (srv_services ?w)"
    using inv ok by (auto intro: remove_channel_ok [of "?w\<lparr>srv_services := hash_remove ?d (srv_services ?w)\<rparr>" k N ?d])
  with two [OF w1(2)] assms(9) obtain w2 h where w2:
      "task_step k (Awaiting ?d svc (as_bytes t @ nonce) c1) w1 = Inr (Finished, w2)"
      "srv_services w2 = srv_services w1" "mm_get1 ?d (srv_channels w2) = Inr (Some h)"
      "h_service h = svc" "\<not> c_shutdown (srv_chans w2 ! h_id h)" by auto
  have "sys_run k [Task 0, Update (Some (ServerChange (Delete_Server n))), Task 0] s
      = Inr (s\<lparr>sys_server := w2, sys_tasks := [Finished]\<rparr>)"
    using one w1(1) w2(1) assms(3,4) by (simp add: sys_step_def handle_hot_reload_def Let_def)
  with w1(4) w2 show ?thesis by (intro exI [of _ "s\<lparr>sys_server := w2, sys_tasks := [Finished]\<rparr>"] exI [of _ h]) simp
qed

definition app_client_conn :: "bytes \<Rightarrow> conn" where
  "app_client_conn nonce =
     fresh_conn (ser_hello bincode (ControlChannelHello CURRENT_PROTO_VERSION (digest bincode (as_bytes ''app'')))
       @ ser_auth bincode (Auth (digest bincode (as_bytes ''t'' @ nonce))))"

definition app_sys :: "conn_task list \<Rightarrow> sys" where
  "app_sys ts = \<lparr>sys_server = app_server, sys_tasks = ts, sys_running = True\<rparr>"

lemma app_server_inv: "server_inv bincode N app_server"
  using server_from_inv [OF one_service_ok, of bincode N] by (simp add: sys_inv_def app_server_def)

lemma app_client_conn_sel:
  "room (app_client_conn nonce) = None"
  "inp (app_client_conn nonce) = ser_hello bincode (ControlChannelHello CURRENT_PROTO_VERSION (digest bincode (as_bytes ''app'')))
       @ ser_auth bincode (Auth (digest bincode (as_bytes ''t'' @ nonce)))"
  by (simp_all add: app_client_conn_def fresh_conn_def)

theorem handshake_races_with_delete_witness:
  "\<exists>s' h. sys_run bincode [Task 0, Update (Some (ServerChange (Delete_Server ''app''))), Task 0]
      (app_sys [Fresh [7] (app_client_conn [7])]) = Inr s'
    \<and> map_of (srv_services (sys_server s')) (digest bincode (as_bytes ''app'')) = None
    \<and> mm_get1 (digest bincode (as_bytes ''app'')) (srv_channels (sys_server s')) = Inr (Some h)
    \<and> h_service h = app_service \<and> \<not> c_shutdown (srv_chans (sys_server s') ! h_id h)"
  using app_server_inv [of "{}"]
  by (intro handshake_races_with_delete [OF bincode.wire_codec_axioms, where N = "{}" and nonce = "[7]" and t = "''t''"
        and c = "app_client_conn [7]"])
    (simp_all add: app_sys_def app_server_sel app_service_sel app_client_conn_sel mm_new_inv)


end
