(* ===== verification/Server_Pools.thy ===== *)
theory Server_Pools
  imports Server_Props "HOL-Library.Sublist"
begin

text \<open>
  Properties of hot reload against a restart of the server, and of the TCP and UDP pools behind a
  control channel.
\<close>

section \<open>Hot reload and restart\<close>

fun reload_all :: "codec \<Rightarrow> config_change list \<Rightarrow> server_state \<Rightarrow> fault + server_state" where
  "reload_all k [] w = Inr w"
| "reload_all k (e # es) w = rbind (handle_hot_reload k e w) (reload_all k es)"

text \<open>The table of services by digest represents the services by name.\<close>

definition serves :: "codec \<Rightarrow> server_state \<Rightarrow> (string \<rightharpoonup> server_service) \<Rightarrow> bool" where
  "serves k w m =
     (\<forall>d v. map_of (srv_services w) d = Some v \<longleftrightarrow> (\<exists>n. m n = Some v \<and> d = digest k (as_bytes n)))"

lemma serves_unique:
  assumes "serves k w m" "serves k w' m"
  shows "map_of (srv_services w) = map_of (srv_services w')"
proof
  fix d
  show "map_of (srv_services w) d = map_of (srv_services w') d"
    using assms unfolding serves_def by (metis not_None_eq)
qed

definition name_digest :: "codec \<Rightarrow> string \<Rightarrow> digest" where
  "name_digest k n = digest k (as_bytes n)"

lemma generated_entries:
  "distinct (map fst svs) \<Longrightarrow> inj_on (name_digest k) (fst ` set svs) \<Longrightarrow> (n, s) \<in> set svs \<Longrightarrow>
    map_of (fold (\<lambda>(n, s) ret. hash_insert (digest k (as_bytes n)) s ret) svs h0) (name_digest k n) = Some s"
  "d \<notin> name_digest k ` fst ` set svs \<Longrightarrow>
    map_of (fold (\<lambda>(n, s) ret. hash_insert (digest k (as_bytes n)) s ret) svs h0) d = map_of h0 d"
proof -
  show other: "d \<notin> name_digest k ` fst ` set svs \<Longrightarrow>
    map_of (fold (\<lambda>(n, s) ret. hash_insert (digest k (as_bytes n)) s ret) svs h0) d = map_of h0 d" for d svs h0
    by (induction svs arbitrary: h0) (auto simp: name_digest_def)
  show "distinct (map fst svs) \<Longrightarrow> inj_on (name_digest k) (fst ` set svs) \<Longrightarrow> (n, s) \<in> set svs \<Longrightarrow>
    map_of (fold (\<lambda>(n, s) ret. hash_insert (digest k (as_bytes n)) s ret) svs h0) (name_digest k n) = Some s"
  proof (induction svs arbitrary: h0)
    case (Cons e svs)
    obtain n' s' where e: "e = (n', s')" by (cases e)
    show ?case
    proof (cases "(n, s) \<in> set svs")
      case True
      with Cons show ?thesis by (simp add: e)
    next
      case False
      with Cons.prems e have "n = n'" "s = s'" by auto
      moreover from Cons.prems e have "name_digest k n' \<notin> name_digest k ` fst ` set svs"
        by (auto simp: inj_on_def)
      ultimately show ?thesis by (simp add: e other) (simp add: name_digest_def)
    qed
  qed simp
qed

lemma generated_serves:
  assumes "hash_ok (sc_services sc)" "inj_on (name_digest k) (fst ` set (sc_services sc))"
    and "srv_services w = generate_service_hashmap k sc"
  shows "serves k w (map_of (sc_services sc))"
  unfolding serves_def
proof (intro allI iffI)
  fix d v
  assume d: "map_of (srv_services w) d = Some v"
  then have "d \<in> name_digest k ` fst ` set (sc_services sc)"
    using generated_entries(2) [of d k "sc_services sc" "[]"] assms(3) by (auto simp: generate_service_hashmap_def)
  then obtain n s where ns: "(n, s) \<in> set (sc_services sc)" "d = name_digest k n" by auto
  with generated_entries(1) [OF _ assms(2) ns(1), of "[]"] d assms(1,3) have "s = v"
    by (simp add: generate_service_hashmap_def hash_ok_def)
  with ns assms(1) show "\<exists>n. map_of (sc_services sc) n = Some v \<and> d = digest k (as_bytes n)"
    by (intro exI [of _ n]) (simp add: hash_ok_def name_digest_def)
next
  fix d v
  assume "\<exists>n. map_of (sc_services sc) n = Some v \<and> d = digest k (as_bytes n)"
  then obtain n where "(n, v) \<in> set (sc_services sc)" "d = name_digest k n"
    by (auto simp: name_digest_def dest: map_of_SomeD)
  with generated_entries(1) [OF _ assms(2), of n v "[]"] assms(1,3) show "map_of (srv_services w) d = Some v"
    by (simp add: generate_service_hashmap_def hash_ok_def)
qed

lemma represents_update:
  assumes "\<forall>d v. M d = Some v \<longleftrightarrow> (\<exists>n. m n = Some v \<and> d = f n)"
    and "inj_on f ns" "dom m \<subseteq> ns" "x \<in> ns"
  shows "\<forall>d v. (M(f x := y)) d = Some v \<longleftrightarrow> (\<exists>n. (m(x := y)) n = Some v \<and> d = f n)"
proof (intro allI)
  fix d v
  have inj: "n = x" if "m n = Some u" "f n = f x" for n u
    using that assms(2-4) by (auto simp: inj_on_def)
  show "(M(f x := y)) d = Some v \<longleftrightarrow> (\<exists>n. (m(x := y)) n = Some v \<and> d = f n)"
  proof (cases "d = f x")
    case True
    then show ?thesis by (metis fun_upd_apply inj)
  next
    case False
    then have "(M(f x := y)) d = Some v \<longleftrightarrow> (\<exists>n. m n = Some v \<and> d = f n)" using assms(1) by simp
    also have "\<dots> \<longleftrightarrow> (\<exists>n. (m(x := y)) n = Some v \<and> d = f n)" using False by (metis fun_upd_apply)
    finally show ?thesis .
  qed
qed

text \<open>Events of a reload without restart, on the names \<open>ns\<close>.\<close>

fun event_on :: "string set \<Rightarrow> config_change \<Rightarrow> bool" where
  "event_on ns (ServerChange (Add_Server c)) = (ss_name c \<in> ns)"
| "event_on ns (ServerChange (Delete_Server n)) = (n \<in> ns)"
| "event_on ns (ClientChange c) = True"
| "event_on ns (General c) = False"

lemma reload_serves:
  assumes "serves k w m" "dom m \<subseteq> ns" "inj_on (name_digest k) ns" "event_on ns e" "mm_inv (srv_channels w)"
  shows "\<exists>w'. handle_hot_reload k e w = Inr w' \<and> mm_inv (srv_channels w')
    \<and> serves k w' (apply_server_event e m) \<and> dom (apply_server_event e m) \<subseteq> ns"
proof -
  have rem: "\<exists>w'. remove_channel d (w\<lparr>srv_services := svs\<rparr>) = Inr w' \<and> mm_inv (srv_channels w') \<and> srv_services w' = svs"
    for d svs
  proof -
    obtain m' where "mm_remove1 d (srv_channels w) = Inr (map_option snd (mm_tbl (srv_channels w) d), m')" "mm_inv m'"
      by (rule mm.rem1_cases [OF assms(5)])
    then show ?thesis by (simp add: remove_channel_def)
  qed
  have upd: "serves k w' (m(n := y))"
    if "n \<in> ns" "map_of (srv_services w') = (map_of (srv_services w))(digest k (as_bytes n) := y)" for n y w'
    using represents_update [of "map_of (srv_services w)" m "name_digest k" ns n y] assms(1-3) that
    by (simp add: serves_def name_digest_def)
  show ?thesis
  proof (cases "(ns, e)" rule: event_on.cases)
    case (1 ns c)
    let ?d = "digest k (as_bytes (ss_name c))"
    obtain w' where w': "remove_channel ?d (w\<lparr>srv_services := hash_insert ?d c (srv_services w)\<rparr>) = Inr w'"
      "mm_inv (srv_channels w')" "srv_services w' = hash_insert ?d c (srv_services w)" using rem by blast
    have "serves k w' (m(ss_name c \<mapsto> c))"
      using assms(4) 1 by (intro upd) (simp_all add: w'(3))
    with w' 1 assms(2,4) show ?thesis by (auto simp: handle_hot_reload_def Let_def)
  next
    case (2 ns n)
    let ?d = "digest k (as_bytes n)"
    obtain w' where w': "remove_channel ?d (w\<lparr>srv_services := hash_remove ?d (srv_services w)\<rparr>) = Inr w'"
      "mm_inv (srv_channels w')" "srv_services w' = hash_remove ?d (srv_services w)" using rem by blast
    have "serves k w' (m(n := None))"
      using assms(4) 2 by (intro upd) (simp_all add: w'(3))
    with w' 2 assms(2,4) show ?thesis by (auto simp: handle_hot_reload_def Let_def)
  qed (use assms in \<open>simp_all add: handle_hot_reload_def\<close>)
qed

lemma reload_all_serves:
  assumes "serves k w m" "dom m \<subseteq> ns" "inj_on (name_digest k) ns" "list_all (event_on ns) es" "mm_inv (srv_channels w)"
  shows "\<exists>w'. reload_all k es w = Inr w' \<and> mm_inv (srv_channels w') \<and> serves k w' (fold apply_server_event es m)"
  using assms
proof (induction es arbitrary: w m)
  case (Cons e es)
  then obtain w' where w': "handle_hot_reload k e w = Inr w'" "mm_inv (srv_channels w')"
      "serves k w' (apply_server_event e m)" "dom (apply_server_event e m) \<subseteq> ns"
    using reload_serves [of k w m ns e] by auto
  with Cons.IH [OF w'(3,4) Cons.prems(3) _ w'(2)] Cons.prems(4) show ?case by simp
qed auto

lemma calculated_events_on:
  assumes "config_wf old" "config_wf new" "server old = Some so" "server new = Some sn"
    and "calculate_events old new = Some es" "es \<noteq> [General new]"
  shows "list_all (event_on (fst ` set (sc_services so) \<union> fst ` set (sc_services sn))) es"
proof -
  let ?ns = "fst ` set (sc_services so) \<union> fst ` set (sc_services sn)"
  obtain v u where vu: "es = v @ u" "part_events server_instance server_config_eq (server old) (server new) = Some v"
      "part_events client_instance client_config_eq (client old) (client new) = Some u"
    using calculate_events_general [OF assms(1,2)] assms(5,6) by auto
  have names: "server_services_ok (sc_services sn)" using config_wfD(1) [OF assms(2,4)] by simp
  have v: "event_on ?ns e" if e: "e \<in> set v" for e
  proof -
    from e vu(2) assms(3,4) have "e \<in> set (service_events server_instance (sc_services so) (sc_services sn))"
      by (auto simp: part_events_def calculate_instance_config_events_def split: if_splits)
    then consider n t where "(n, t) \<in> set (sc_services so)" "e = ServerChange (Delete_Server n)"
      | n c where "(n, c) \<in> set (sc_services sn)" "e = ServerChange (Add_Server c)"
      by (auto simp: service_events_def server_instance_def)
    then show ?thesis
    proof cases
      case 1
      then show ?thesis by (auto intro!: rev_image_eqI)
    next
      case 2
      then have "ss_name c = n" using names by (auto simp: server_services_ok_def list_all_iff)
      with 2 show ?thesis by (auto intro!: rev_image_eqI)
    qed
  qed
  have u: "event_on ?ns e" if e: "e \<in> set u" for e
  proof -
    from e vu(3) have "\<exists>c. e = ClientChange c"
      by (auto simp: part_events_def calculate_instance_config_events_def dest: service_events_kinds split: if_splits)
    then show ?thesis by auto
  qed
  from v u show ?thesis by (auto simp: vu(1) list_all_iff)
qed

text \<open>
  C7. Hot reload equals a restart: when the new configuration needs no restart, handling the events
  of the watcher one by one leaves the running server with the table of services a fresh server
  would generate from the new configuration, provided the digests of the names at hand differ.
\<close>

theorem hot_reload_equals_restart:
  assumes "config_wf old" "config_wf new" "server old = Some so" "server new = Some sn"
    and "calculate_events old new = Some es" "es \<noteq> [General new]"
    and "inj_on (name_digest k) (fst ` set (sc_services so) \<union> fst ` set (sc_services sn))"
    and "mm_inv (srv_channels w)" "srv_services w = generate_service_hashmap k so"
  shows "\<exists>w'. reload_all k es w = Inr w'
    \<and> map_of (srv_services w') = map_of (srv_services (server_from k sn))"
proof -
  let ?ns = "fst ` set (sc_services so) \<union> fst ` set (sc_services sn)"
  have ok: "hash_ok (sc_services so)" "hash_ok (sc_services sn)"
    using config_wfD(1) assms(1-4) by blast+
  have inj: "inj_on (name_digest k) (fst ` set (sc_services so))" "inj_on (name_digest k) (fst ` set (sc_services sn))"
    using assms(7) by (auto intro: inj_on_subset)
  have dom: "dom (map_of (sc_services so)) \<subseteq> ?ns" by (simp add: dom_map_of_conv_image_fst)
  obtain w' where w': "reload_all k es w = Inr w'" "serves k w' (fold apply_server_event es (map_of (sc_services so)))"
    using reload_all_serves [OF generated_serves [OF ok(1) inj(1) assms(9)] dom assms(7)
        calculated_events_on [OF assms(1-6)] assms(8)] by blast
  moreover have "fold apply_server_event es (map_of (sc_services so)) = map_of (sc_services sn)"
    using calculate_events_views(1) [OF assms(1,2)] assms(3-5) by (simp add: server_view_def)
  moreover have "serves k (server_from k sn) (map_of (sc_services sn))"
    by (rule generated_serves [OF ok(2) inj(2)]) (simp add: server_from_def)
  ultimately show ?thesis using serves_unique by metis
qed

text \<open>A digest that keeps the last 32 bytes, padded: enough to tell the names of the witness apart.\<close>

definition padding_codec :: codec where
  "padding_codec = bincode\<lparr>sha256 := (\<lambda>bs. take 32 (bs @ replicate 32 0))\<rparr>"

theorem hot_reload_equals_restart_witness:
  "\<exists>w'. reload_all padding_codec
      [ServerChange (Delete_Server ''app''),
       ServerChange (Add_Server \<lparr>ss_type = Service_Udp, ss_name = ''db'', ss_bind_addr = ''0.0.0.0:53'',
         ss_token = Some ''t'', ss_nodelay = None\<rparr>)] (server_from padding_codec (the (server config_a))) = Inr w'
    \<and> map_of (srv_services w') = map_of (srv_services (server_from padding_codec (the (server config_b))))"
proof (rule hot_reload_equals_restart [OF config_ab_wf _ _ config_ab_events])
  show "server config_a = Some (the (server config_a))" "server config_b = Some (the (server config_b))"
    by (simp_all add: config_a_def config_b_def)
  show "inj_on (name_digest padding_codec)
     (fst ` set (sc_services (the (server config_a))) \<union> fst ` set (sc_services (the (server config_b))))"
    by (simp add: config_a_def config_b_def name_digest_def digest_def padding_codec_def as_bytes_def as_byte_def)
qed (simp_all add: server_from_def mm_new_inv)

section \<open>The TCP pool\<close>

definition cmd_fits :: "codec \<Rightarrow> conn \<Rightarrow> bool" where
  "cmd_fits k c = (case room c of None \<Rightarrow> True | Some n \<Rightarrow> length (ser_dcmd k StartForwardTcp) \<le> n)"

lemma cmd_write:
  "cmd_fits k c \<Longrightarrow> \<exists>c'. conn_write_and_flush (ser_dcmd k StartForwardTcp) c = (Inr (), c')
    \<and> sent c' = sent c @ ser_dcmd k StartForwardTcp \<and> inp c' = inp c"
  "\<not> cmd_fits k c \<Longrightarrow> \<exists>e c'. conn_write_and_flush (ser_dcmd k StartForwardTcp) c = (Inl e, c')"
  by (auto simp: cmd_fits_def conn_write_and_flush_def write_all_def with_context_def split: option.splits)

lemma try_channels_all_broken:
  "list_all (\<lambda>c. \<not> cmd_fits k c) ds \<Longrightarrow> try_channels k True ds reqs = Await_Data (reqs + length ds)"
proof (induction ds arbitrary: reqs)
  case (Cons d ds)
  with cmd_write(2) [of k d] show ?case by auto
qed simp

lemma try_channels_first_good:
  assumes "list_all (\<lambda>c. \<not> cmd_fits k c) bad" "cmd_fits k good"
  shows "\<exists>d'. try_channels k True (bad @ good # rest) reqs = Paired d' rest (reqs + length bad)
    \<and> sent d' = sent good @ ser_dcmd k StartForwardTcp \<and> inp d' = inp good"
  using assms(1)
proof (induction bad arbitrary: reqs)
  case Nil
  from cmd_write(1) [OF assms(2)] show ?case by auto
next
  case (Cons b bad)
  with cmd_write(2) [of k b] Cons.IH [of "Suc reqs"] show ?case by auto
qed

text \<open>
  C21. A visitor gets the first working data channel, after exactly one start command on it; every
  broken channel in front of it is dropped and replaced by one new request, and the channels behind
  it stay for the next visitors. When all are broken the visitor keeps waiting, with one request
  made for each.
\<close>

theorem visitor_gets_first_working_channel:
  assumes "c_pool_alive ch" "c_ctl_alive ch" "\<not> c_shutdown ch" "c_visitors ch = v # vs"
    and "list_all (\<lambda>c. \<not> cmd_fits k c) bad"
  shows "(c_data ch = bad @ good # rest \<and> cmd_fits k good \<longrightarrow>
      (\<exists>d'. tcp_pool_step k ch = ch\<lparr>c_visitors := vs, c_data := rest, c_reqs := c_reqs ch + length bad,
          c_forwarding := (v, d') # c_forwarding ch\<rparr>
        \<and> sent d' = sent good @ ser_dcmd k StartForwardTcp \<and> inp d' = inp good))
    \<and> (c_data ch = bad \<longrightarrow> tcp_pool_step k ch = ch\<lparr>c_data := [], c_reqs := c_reqs ch + length bad\<rparr>)"
proof (intro conjI impI)
  assume data: "c_data ch = bad @ good # rest \<and> cmd_fits k good"
  then obtain d' where d': "try_channels k True (bad @ good # rest) (c_reqs ch) = Paired d' rest (c_reqs ch + length bad)"
      "sent d' = sent good @ ser_dcmd k StartForwardTcp" "inp d' = inp good"
    using try_channels_first_good [OF assms(5), of good rest "c_reqs ch"] by blast
  show "\<exists>d'. tcp_pool_step k ch = ch\<lparr>c_visitors := vs, c_data := rest, c_reqs := c_reqs ch + length bad,
          c_forwarding := (v, d') # c_forwarding ch\<rparr>
        \<and> sent d' = sent good @ ser_dcmd k StartForwardTcp \<and> inp d' = inp good"
    using assms data d' by (intro exI [of _ d']) (simp add: tcp_pool_step_def)
qed (use assms try_channels_all_broken [OF assms(5), of "c_reqs ch"] in \<open>simp add: tcp_pool_step_def\<close>)

definition busy_chan :: "conn list \<Rightarrow> chan" where
  "busy_chan ds =
     \<lparr>c_conn = fresh_conn [], c_service = app_service, c_heartbeat_interval = 30, c_reqs = 0, c_data = ds,
      c_visitors = [5, 6], c_forwarding = [], c_shutdown = False, c_ctl_alive = True, c_listening = True, c_pool_alive = True\<rparr>"

theorem visitor_gets_first_working_channel_witness:
  "\<exists>d'. tcp_pool_step bincode (busy_chan [(fresh_conn [])\<lparr>room := Some 3\<rparr>, fresh_conn [9]]) =
      (busy_chan [])\<lparr>c_visitors := [6], c_reqs := 1, c_forwarding := [(5, d')]\<rparr>
    \<and> sent d' = bc_ser_dcmd StartForwardTcp \<and> inp d' = [9]"
  using visitor_gets_first_working_channel [where ch = "busy_chan [(fresh_conn [])\<lparr>room := Some 3\<rparr>, fresh_conn [9]]"
      and k = bincode and bad = "[(fresh_conn [])\<lparr>room := Some 3\<rparr>]" and good = "fresh_conn [9]" and rest = "[]"]
  by (simp add: busy_chan_def cmd_fits_def fresh_conn_def)

text \<open>The steps of a TCP channel in any order.\<close>

datatype chan_event = Ev_Ctl ctl_event | Ev_Visitor nat | Ev_Pool | Ev_Data conn

definition chan_step :: "codec \<Rightarrow> chan_event \<Rightarrow> chan \<Rightarrow> chan" where
  "chan_step k ev ch =
     (case ev of
        Ev_Ctl e \<Rightarrow> ctl_step k e ch
      | Ev_Visitor v \<Rightarrow> visitor_arrives v ch
      | Ev_Pool \<Rightarrow> tcp_pool_step k ch
      | Ev_Data d \<Rightarrow> ch\<lparr>c_data := c_data ch @ [d]\<rparr>)"

fun chan_run :: "codec \<Rightarrow> chan_event list \<Rightarrow> chan \<Rightarrow> chan" where
  "chan_run k [] ch = ch"
| "chan_run k (ev # evs) ch = chan_run k evs (chan_step k ev ch)"

fun arrivals :: "chan_event list \<Rightarrow> nat list" where
  "arrivals [] = []"
| "arrivals (Ev_Visitor v # evs) = v # arrivals evs"
| "arrivals (ev # evs) = arrivals evs"

definition visitors_in_order :: "chan \<Rightarrow> nat list" where
  "visitors_in_order ch = rev (map fst (c_forwarding ch)) @ c_visitors ch"

lemma ctl_write_visitors: "visitors_in_order (ctl_write bs ch) = visitors_in_order ch"
  by (simp add: ctl_write_def visitors_in_order_def split: prod.splits sum.splits)

lemma add_data_visitors [simp]: "visitors_in_order (ch\<lparr>c_data := ds\<rparr>) = visitors_in_order ch"
  by (simp add: visitors_in_order_def)

lemma chan_step_visitors:
  "visitors_in_order (ctl_step k e ch) = visitors_in_order ch"
  "visitors_in_order (tcp_pool_step k ch) = visitors_in_order ch"
  "visitors_in_order (visitor_arrives v ch) \<in> {visitors_in_order ch, visitors_in_order ch @ [v]}"
  using ctl_write_visitors [unfolded visitors_in_order_def]
  by (auto simp: ctl_step_def tcp_pool_step_def visitor_arrives_def visitors_in_order_def
      split: ctl_event.splits list.splits pool_result.splits)

text \<open>
  C22. Visitors are served in the order they came and each at most once: whatever the interleaving of
  arrivals, data channels, broken connections and commands, those being forwarded, in order, and then
  those waiting are what was there before followed by a subsequence of the arrivals.
\<close>

theorem visitors_served_in_order:
  "\<exists>vs. visitors_in_order (chan_run k evs ch) = visitors_in_order ch @ vs \<and> subseq vs (arrivals evs)"
proof (induction evs arbitrary: ch)
  case (Cons ev evs)
  obtain vs where vs: "visitors_in_order (chan_run k evs (chan_step k ev ch)) = visitors_in_order (chan_step k ev ch) @ vs"
      "subseq vs (arrivals evs)" using Cons.IH by blast
  show ?case
  proof (cases ev)
    case (Ev_Visitor v)
    then have "visitors_in_order (chan_step k ev ch) \<in> {visitors_in_order ch, visitors_in_order ch @ [v]}"
      using chan_step_visitors(3) by (simp add: chan_step_def)
    then show ?thesis
    proof
      assume "visitors_in_order (chan_step k ev ch) = visitors_in_order ch"
      with vs Ev_Visitor show ?thesis by (intro exI [of _ vs]) (simp add: list_emb_Cons)
    next
      assume "visitors_in_order (chan_step k ev ch) \<in> {visitors_in_order ch @ [v]}"
      with vs Ev_Visitor show ?thesis by (intro exI [of _ "v # vs"]) simp
    qed
  qed (use vs chan_step_visitors in \<open>auto simp: chan_step_def\<close>)
qed simp

section \<open>The UDP pool\<close>

definition cut_datagram :: "socket_addr \<times> bytes \<Rightarrow> udp_traffic" where
  "cut_datagram ad = \<lparr>udp_from = fst ad, udp_data = take UDP_BUFFER_SIZE (snd ad)\<rparr>"

lemma udp_pool_run_visitors:
  assumes "wire_codec k" "room (up_conn p) = None"
  shows "udp_pool_run k (map (\<lambda>(a, d). From_Visitor a d) ds) p =
    Inr (p\<lparr>up_conn := (up_conn p)\<lparr>sent := sent (up_conn p) @ udp_stream k (map cut_datagram ds)\<rparr>\<rparr>)"
  using assms(2)
proof (induction ds arbitrary: p)
  case Nil
  then show ?case by (simp add: udp_stream_def)
next
  case (Cons ad ds)
  obtain a d where ad: "ad = (a, d)" by (cases ad)
  with Cons wire_codec.udp_write_slice_ok [OF assms(1) Cons.prems, of a "take UDP_BUFFER_SIZE d"] show ?case
    by (simp add: udp_pool_step_def udp_stream_def cut_datagram_def)
qed

text \<open>
  The UDP pool relays datagrams faithfully: after the start command, the client takes off the data
  channel exactly the datagrams the visitors sent, in order, with their senders, each cut to the
  receive buffer of 2048 bytes, so the 16-bit length on the wire never wraps.
\<close>

theorem udp_pool_relays_datagrams:
  assumes "wire_codec k" "room d = None" "sent d = []" "list_all (\<lambda>(a, bs). plain_addr a) ds"
  shows "\<exists>p p' c1. udp_pool_start k (d # others) = Inr p
    \<and> udp_pool_run k (map (\<lambda>(a, bs). From_Visitor a bs) ds) p = Inr p'
    \<and> read_data_cmd k (c\<lparr>inp := sent (up_conn p') @ rest\<rparr>) = (Inr StartForwardUdp, c1)
    \<and> udp_read_many k (length ds) c1 = (Inr (map cut_datagram ds), c\<lparr>inp := rest\<rparr>)"
proof -
  let ?cmd = "ser_dcmd k StartForwardUdp"
  let ?p = "\<lparr>up_conn = d\<lparr>sent := ?cmd\<rparr>, up_sent = []\<rparr>"
  let ?p' = "?p\<lparr>up_conn := d\<lparr>sent := ?cmd @ udp_stream k (map cut_datagram ds)\<rparr>\<rparr>"
  let ?c1 = "c\<lparr>inp := udp_stream k (map cut_datagram ds) @ rest\<rparr>"
  have start: "udp_pool_start k (d # others) = Inr ?p"
    using assms(2,3) by (simp add: udp_pool_start_def conn_write_and_flush_def with_context_def)
  have run: "udp_pool_run k (map (\<lambda>(a, bs). From_Visitor a bs) ds) ?p = Inr ?p'"
    using udp_pool_run_visitors [OF assms(1), of ?p ds] assms(2) by simp
  have cmd: "read_data_cmd k (c\<lparr>inp := sent (up_conn ?p') @ rest\<rparr>) = (Inr StartForwardUdp, ?c1)"
    using wire_codec.read_data_cmd_ok [OF assms(1), of "c\<lparr>inp := sent (up_conn ?p') @ rest\<rparr>" StartForwardUdp] by simp
  have "list_all (\<lambda>t. plain_addr (udp_from t) \<and> length (udp_data t) < 65536) (map cut_datagram ds)"
    using assms(4) by (auto simp: list_all_iff cut_datagram_def UDP_BUFFER_SIZE_def)
  from udp_read_many_ok [OF assms(1) this, of ?c1 rest]
  have "udp_read_many k (length ds) ?c1 = (Inr (map cut_datagram ds), c\<lparr>inp := rest\<rparr>)" by simp
  with start run cmd show ?thesis by blast
qed

theorem udp_pool_relays_datagrams_witness:
  "\<exists>p p' c1. udp_pool_start bincode [fresh_conn []] = Inr p
    \<and> udp_pool_run bincode (map (\<lambda>(a, bs). From_Visitor a bs) [(V4 0x0A000001 5353, [1, 2])]) p = Inr p'
    \<and> read_data_cmd bincode ((fresh_conn [])\<lparr>inp := sent (up_conn p') @ []\<rparr>) = (Inr StartForwardUdp, c1)
    \<and> udp_read_many bincode (length [(V4 0x0A000001 5353, [1, 2 :: byte])]) c1 =
        (Inr (map cut_datagram [(V4 0x0A000001 5353, [1, 2])]), (fresh_conn [])\<lparr>inp := []\<rparr>)"
  by (rule udp_pool_relays_datagrams [OF bincode.wire_codec_axioms]) (simp_all add: fresh_conn_def)

end
