(* ===== verification/Client.thy ===== *)
theory Client
  imports Server_Pools
begin

text \<open>
  The client of \<open>src/rathole/src/client.rs\<close>: one supervised control channel per service, its
  handshake and its loop, data channels, and the table of UDP forwarders. Connecting, timers and the
  text of the health report are inputs.
\<close>

section \<open>Handshake\<close>

text \<open>
  \<open>ControlChannel::run\<close> up to the point where the channel is ready, in its three stretches: the
  hello, the answer to the server's nonce, the verdict.
\<close>

definition client_hello :: "codec \<Rightarrow> client_service \<Rightarrow> (conn, unit) act" where
  "client_hello k cs =
     write_all (ser_hello k (ControlChannelHello CURRENT_PROTO_VERSION (digest k (as_bytes (cs_name cs)))))"

definition client_auth :: "codec \<Rightarrow> client_service \<Rightarrow> conn \<Rightarrow> fault + ((err + digest) \<times> conn)" where
  "client_auth k cs c =
     (case read_hello k c of
        (Inl e, c1) \<Rightarrow> Inr (Inl e, c1)
      | (Inr (DataChannelHello v d), c1) \<Rightarrow> Inr (Inl (Msg ''Unexpected type of hello''), c1)
      | (Inr (ControlChannelHello v nonce), c1) \<Rightarrow>
          (case cs_token cs of
             None \<Rightarrow> Inl (Panic ''called `Option::unwrap()` on a `None` value'')
           | Some t \<Rightarrow>
               (let session_key = digest k (as_bytes t @ nonce)
                in case write_all (ser_auth k (Auth session_key)) c1 of
                     (Inl e, c2) \<Rightarrow> Inr (Inl e, c2)
                   | (Inr _, c2) \<Rightarrow> Inr (Inr session_key, c2))))"

definition client_ack :: "codec \<Rightarrow> client_service \<Rightarrow> (conn, unit) act" where
  "client_ack k cs =
     act_bind (read_ack k) (\<lambda>a.
       if a = Ok then act_return ()
       else act_fail (Context (''Authentication failed: '' @ cs_name cs) (Msg (ack_display a))))"

definition client_handshake :: "codec \<Rightarrow> client_service \<Rightarrow> conn \<Rightarrow> fault + ((err + digest) \<times> conn)" where
  "client_handshake k cs c =
     (case client_hello k cs c of
        (Inl e, c1) \<Rightarrow> Inr (Inl e, c1)
      | (Inr _, c1) \<Rightarrow>
          rbind (client_auth k cs c1) (\<lambda>(r, c2).
          case r of
            Inl e \<Rightarrow> Inr (Inl e, c2)
          | Inr key \<Rightarrow>
              (case client_ack k cs c2 of
                 (Inl e, c3) \<Rightarrow> Inr (Inl e, c3)
               | (Inr _, c3) \<Rightarrow> Inr (Inr key, c3))))"

section \<open>The loop of the control channel\<close>

text \<open>
  One round of the \<open>select!\<close>: the branch that is ready decides, and the others are cancelled. The
  second argument of a tick is how many bytes of the next command the cancelled read had taken off
  the stream; they are lost. A failed health report breaks out of the loop, and the function returns
  \<open>Ok\<close>.
\<close>

datatype client_event =
    Health_Tick bytes nat
  | Cmd_Ready
  | Heartbeat_Elapsed
  | Client_Shutdown

datatype loop_result = Continue conn "control_channel_cmd option" | Exit "err + unit"

definition client_loop_step :: "codec \<Rightarrow> client_event \<Rightarrow> conn \<Rightarrow> loop_result" where
  "client_loop_step k ev c =
     (case ev of
        Health_Tick report taken \<Rightarrow>
          (case write_all report (c\<lparr>inp := drop taken (inp c)\<rparr>) of
             (Inl e, c1) \<Rightarrow> Exit (Inr ())
           | (Inr _, c1) \<Rightarrow> Continue c1 None)
      | Cmd_Ready \<Rightarrow>
          (case read_control_cmd k c of
             (Inl e, c1) \<Rightarrow> Exit (Inl e)
           | (Inr cmd, c1) \<Rightarrow> Continue c1 (Some cmd))
      | Heartbeat_Elapsed \<Rightarrow> Exit (Inl (Msg ''Heartbeat timed out''))
      | Client_Shutdown \<Rightarrow> Exit (Inr ()))"

text \<open>The number of data channels spawned, and how the loop ended if it did.\<close>

fun client_loop :: "codec \<Rightarrow> client_event list \<Rightarrow> conn \<Rightarrow> nat \<Rightarrow> nat \<times> conn \<times> (err + unit) option" where
  "client_loop k [] c n = (n, c, None)"
| "client_loop k (ev # evs) c n =
     (case client_loop_step k ev c of
        Exit r \<Rightarrow> (n, c, Some r)
      | Continue c1 cmd \<Rightarrow> client_loop k evs c1 (if cmd = Some CreateDataChannel then n + 1 else n))"

text \<open>
  The task of \<open>ControlChannelHandle::new\<close>: it runs the channel again after every error unless the
  shutdown signal is there; the list has the outcomes of the runs with that signal. The backoff never
  gives up, so the \<open>panic!\<close> behind it is not reached.
\<close>

datatype supervised = Ended nat | Reconnecting nat

fun supervise :: "((err + unit) \<times> bool) list \<Rightarrow> nat \<Rightarrow> supervised" where
  "supervise [] n = Reconnecting n"
| "supervise ((Inr u, sd) # rs) n = Ended n"
| "supervise ((Inl e, sd) # rs) n = (if sd then Ended n else supervise rs (n + 1))"

section \<open>The timers of the loop\<close>

text \<open>
  The times at which the branches become ready: the health interval ticks at once and then every ten
  seconds, the heartbeat sleep is made anew in every round, commands come when they come. The branch
  with the least time is taken; between equal times either may be.
\<close>

record loop_clock =
  lc_now :: instant
  lc_tick :: instant
  lc_cmds :: "instant list"

datatype loop_branch = Took_Tick | Took_Cmd | Took_Timeout

definition ready_at :: "loop_clock \<Rightarrow> instant \<Rightarrow> instant" where
  "ready_at s t = max (lc_now s) t"

definition heartbeat_deadline :: "u64 \<Rightarrow> loop_clock \<Rightarrow> instant" where
  "heartbeat_deadline hb s = lc_now s + secs (unat hb)"

definition no_cmd_before :: "loop_clock \<Rightarrow> instant \<Rightarrow> bool" where
  "no_cmd_before s t = (case lc_cmds s of [] \<Rightarrow> True | a # as \<Rightarrow> t \<le> ready_at s a)"

inductive loop_round :: "u64 \<Rightarrow> loop_clock \<Rightarrow> loop_branch \<Rightarrow> loop_clock \<Rightarrow> bool" for hb where
  tick: "t = ready_at s (lc_tick s) \<Longrightarrow> no_cmd_before s t \<Longrightarrow> hb = 0 \<or> t \<le> heartbeat_deadline hb s \<Longrightarrow>
    loop_round hb s Took_Tick (s\<lparr>lc_now := t, lc_tick := lc_tick s + secs 10\<rparr>)"
| cmd: "lc_cmds s = a # as \<Longrightarrow> t = ready_at s a \<Longrightarrow> t \<le> ready_at s (lc_tick s) \<Longrightarrow>
    hb = 0 \<or> t \<le> heartbeat_deadline hb s \<Longrightarrow>
    loop_round hb s Took_Cmd (s\<lparr>lc_now := t, lc_cmds := as\<rparr>)"
| timeout: "hb \<noteq> 0 \<Longrightarrow> t = heartbeat_deadline hb s \<Longrightarrow> t \<le> ready_at s (lc_tick s) \<Longrightarrow> no_cmd_before s t \<Longrightarrow>
    loop_round hb s Took_Timeout (s\<lparr>lc_now := t\<rparr>)"

inductive_cases timeoutE: "loop_round hb s Took_Timeout s'"

inductive loop_reach :: "u64 \<Rightarrow> loop_clock \<Rightarrow> loop_clock \<Rightarrow> bool" for hb s0 where
  start: "loop_reach hb s0 s0"
| step: "loop_reach hb s0 s \<Longrightarrow> loop_round hb s b s' \<Longrightarrow> loop_reach hb s0 s'"

section \<open>Data channels\<close>

definition client_data_hello :: "codec \<Rightarrow> digest \<Rightarrow> (conn, unit) act" where
  "client_data_hello k session_key = write_all (ser_hello k (DataChannelHello CURRENT_PROTO_VERSION session_key))"

datatype forward = Forward_Tcp | Forward_Udp

definition take_data_cmd :: "codec \<Rightarrow> client_service \<Rightarrow> (conn, forward) act" where
  "take_data_cmd k cs =
     act_bind (read_data_cmd k) (\<lambda>cmd.
     case cmd of
       StartForwardTcp \<Rightarrow>
         (if cs_type cs \<noteq> Service_Tcp then act_fail (Msg ''Expect TCP traffic. Please check the configuration.'')
          else act_return Forward_Tcp)
     | StartForwardUdp \<Rightarrow>
         (if cs_type cs \<noteq> Service_Udp then act_fail (Msg ''Expect UDP traffic. Please check the configuration.'')
          else act_return Forward_Udp))"

definition run_data_channel :: "codec \<Rightarrow> digest \<Rightarrow> client_service \<Rightarrow> (conn, forward) act" where
  "run_data_channel k session_key cs =
     act_bind (client_data_hello k session_key) (\<lambda>_. take_data_cmd k cs)"

section \<open>UDP forwarders\<close>

definition UDP_SENDQ_SIZE :: nat where "UDP_SENDQ_SIZE = 1024"

record forwarder =
  fw_from :: socket_addr
  fw_inbox :: "bytes list"
  fw_sent :: "bytes list"
  fw_alive :: bool

record udp_client =
  uc_port_map :: "(socket_addr, nat) hash"
  uc_forwarders :: "forwarder list"
  uc_outbound :: "udp_traffic list"

text \<open>
  A packet from the server: without a forwarder for its sender one is made, when a local socket can
  be connected; then it is queued for the forwarder. A send to a forwarder that is gone fails and is
  ignored. While the queue is full the task waits, so such a packet is not yet taken.
\<close>

definition udp_packet :: "bool \<Rightarrow> udp_traffic \<Rightarrow> udp_client \<Rightarrow> udp_client" where
  "udp_packet connected p u =
     (let u1 = (case map_of (uc_port_map u) (udp_from p) of
                  Some i \<Rightarrow> u
                | None \<Rightarrow>
                    if connected
                    then u\<lparr>uc_port_map := hash_insert (udp_from p) (length (uc_forwarders u)) (uc_port_map u),
                           uc_forwarders := uc_forwarders u @
                             [\<lparr>fw_from = udp_from p, fw_inbox = [], fw_sent = [], fw_alive = True\<rparr>]\<rparr>
                    else u)
      in case map_of (uc_port_map u1) (udp_from p) of
           None \<Rightarrow> u1
         | Some i \<Rightarrow>
             (let f = uc_forwarders u1 ! i
              in if fw_alive f
                 then u1\<lparr>uc_forwarders := (uc_forwarders u1)[i := f\<lparr>fw_inbox := fw_inbox f @ [udp_data p]\<rparr>]\<rparr>
                 else u1))"

text \<open>
  \<open>run_udp_forwarder\<close>: one round. A failed send to the service and a closed outbound queue leave by
  \<open>?\<close>, a failed receive and the timeout by \<open>break\<close>, which removes the entry of the port map.
\<close>

datatype forwarder_event = Inbound bool | From_Service bytes bool | Receive_Error | Idle_Timeout

definition forwarder_break :: "nat \<Rightarrow> udp_client \<Rightarrow> udp_client" where
  "forwarder_break i u =
     (let f = uc_forwarders u ! i
      in u\<lparr>uc_forwarders := (uc_forwarders u)[i := f\<lparr>fw_alive := False\<rparr>],
           uc_port_map := hash_remove (fw_from f) (uc_port_map u)\<rparr>)"

definition forwarder_step :: "nat \<Rightarrow> forwarder_event \<Rightarrow> udp_client \<Rightarrow> udp_client" where
  "forwarder_step i ev u =
     (if length (uc_forwarders u) \<le> i \<or> \<not> fw_alive (uc_forwarders u ! i) then u
      else let f = uc_forwarders u ! i
           in case ev of
                Inbound sent_ok \<Rightarrow>
                  (case fw_inbox f of
                     [] \<Rightarrow> u
                   | d # ds \<Rightarrow>
                       if sent_ok
                       then u\<lparr>uc_forwarders := (uc_forwarders u)[i := f\<lparr>fw_inbox := ds, fw_sent := fw_sent f @ [d]\<rparr>]\<rparr>
                       else u\<lparr>uc_forwarders := (uc_forwarders u)[i := f\<lparr>fw_inbox := ds, fw_alive := False\<rparr>]\<rparr>)
              | From_Service d open_queue \<Rightarrow>
                  (if open_queue
                   then u\<lparr>uc_outbound := uc_outbound u @ [\<lparr>udp_from = fw_from f, udp_data = take UDP_BUFFER_SIZE d\<rparr>]\<rparr>
                   else u\<lparr>uc_forwarders := (uc_forwarders u)[i := f\<lparr>fw_alive := False\<rparr>]\<rparr>)
              | Receive_Error \<Rightarrow> forwarder_break i u
              | Idle_Timeout \<Rightarrow> forwarder_break i u)"

datatype udp_client_event = Server_Packet bool udp_traffic | Forwarder nat forwarder_event

fun udp_client_run :: "udp_client_event list \<Rightarrow> udp_client \<Rightarrow> udp_client" where
  "udp_client_run [] u = u"
| "udp_client_run (Server_Packet b p # evs) u = udp_client_run evs (udp_packet b p u)"
| "udp_client_run (Forwarder i ev # evs) u = udp_client_run evs (forwarder_step i ev u)"

section \<open>The client\<close>

text \<open>
  The handles by service name; a handle is the number of its task. Dropping or shutting down a
  handle completes the task's shutdown signal.
\<close>

record client_state =
  cl_config :: client_config
  cl_handles :: "(string, nat) hash"
  cl_tasks :: "(client_service \<times> bool) list"

definition client_from :: "client_config \<Rightarrow> client_state" where
  "client_from cc = \<lparr>cl_config = cc, cl_handles = [], cl_tasks = []\<rparr>"

definition stop_task :: "nat option \<Rightarrow> (client_service \<times> bool) list \<Rightarrow> (client_service \<times> bool) list" where
  "stop_task i ts = (case i of None \<Rightarrow> ts | Some j \<Rightarrow> if j < length ts then ts[j := (fst (ts ! j), True)] else ts)"

text \<open>\<open>ControlChannelHandle::new\<close> unwraps the retry interval, and inserting drops an old handle.\<close>

definition start_service :: "string \<Rightarrow> client_service \<Rightarrow> client_state \<Rightarrow> fault + client_state" where
  "start_service n cs w =
     (case cs_retry_interval cs of
        None \<Rightarrow> Inl (Panic ''called `Option::unwrap()` on a `None` value'')
      | Some r \<Rightarrow>
          Inr (w\<lparr>cl_handles := hash_insert n (length (cl_tasks w)) (cl_handles w),
                 cl_tasks := stop_task (map_of (cl_handles w) n) (cl_tasks w @ [(cs, False)])\<rparr>))"

definition client_hot_reload :: "config_change \<Rightarrow> client_state \<Rightarrow> fault + client_state" where
  "client_hot_reload e w =
     (case e of
        ClientChange (Add_Client cfg) \<Rightarrow> start_service (cs_name cfg) cfg w
      | ClientChange (Delete_Client s) \<Rightarrow>
          Inr (w\<lparr>cl_handles := hash_remove s (cl_handles w), cl_tasks := stop_task (map_of (cl_handles w) s) (cl_tasks w)\<rparr>)
      | _ \<Rightarrow> Inr w)"

fun start_all :: "(string, client_service) hash \<Rightarrow> client_state \<Rightarrow> fault + client_state" where
  "start_all [] w = Inr w"
| "start_all ((n, cs) # svs) w = rbind (start_service n cs w) (start_all svs)"

fun client_reloads :: "config_change list \<Rightarrow> client_state \<Rightarrow> fault + client_state" where
  "client_reloads [] w = Inr w"
| "client_reloads (e # es) w = rbind (client_hot_reload e w) (client_reloads es)"

definition client_shutdown :: "client_state \<Rightarrow> client_state" where
  "client_shutdown w = w\<lparr>cl_handles := [], cl_tasks := fold (\<lambda>e. stop_task (Some (snd e))) (cl_handles w) (cl_tasks w)\<rparr>"

definition run_client :: "config \<Rightarrow> err + unit \<Rightarrow> config_change list \<Rightarrow> bool \<Rightarrow> fault + (err + client_state)" where
  "run_client cfg ready es shutdown =
     (case client cfg of
        None \<Rightarrow> Inr (Inl (Msg ''Try to run as a client, but the configuration is missing. Please add the `[client]` block''))
      | Some cc \<Rightarrow>
          (case ready of
             Inl e \<Rightarrow> Inr (Inl (Context ''Failed to create the transport'' e))
           | Inr _ \<Rightarrow>
               rbind (start_all (cc_services cc) (client_from cc)) (\<lambda>w1.
               rbind (client_reloads es w1) (\<lambda>w2. Inr (Inr (if shutdown then client_shutdown w2 else w2))))))"

end
