(* ===== verification/Backoff.thy ===== *)
theory Backoff
  imports Conn
begin

text \<open>
  The retry policies of the sources: \<open>constants.rs\<close>, \<open>client.rs\<close> and \<open>server.rs\<close> build an
  \<open>ExponentialBackoff\<close> of the library \<open>backoff\<close> with some fields changed, and \<open>helper.rs\<close> stops a
  retry loop at a deadline. The library is a parameter, its documented behaviour the locale
  \<open>backoff_lib\<close>.
\<close>

section \<open>Policies\<close>

text \<open>Times in nanoseconds, factors in thousandths.\<close>

record policy =
  po_initial :: nat
  po_randomization :: nat
  po_multiplier :: nat
  po_max_interval :: nat
  po_max_elapsed :: "nat option"

text \<open>
  The operations of the library on a backoff, which is a policy with its current interval and the time
  it started at. \<open>next_backoff\<close> draws a random number, its first argument, and reads the clock.
\<close>

record 'b backoff_ops =
  bo_default :: policy
  bo_make :: "policy \<Rightarrow> instant \<Rightarrow> 'b"
  bo_reset :: "instant \<Rightarrow> 'b \<Rightarrow> 'b"
  bo_next :: "nat \<Rightarrow> instant \<Rightarrow> 'b \<Rightarrow> nat option \<times> 'b"

text \<open>The argument is \<open>Default::default()\<close>, which gives the remaining fields.\<close>

definition listen_backoff :: "policy \<Rightarrow> policy" where
  "listen_backoff dflt = dflt\<lparr>po_max_elapsed := None, po_max_interval := secs 1\<rparr>"

definition run_control_chan_backoff :: "policy \<Rightarrow> u64 \<Rightarrow> policy" where
  "run_control_chan_backoff dflt interval =
     dflt\<lparr>po_randomization := 200, po_max_elapsed := None, po_multiplier := 3000,
          po_max_interval := secs (unat interval)\<rparr>"

definition data_channel_backoff :: "policy \<Rightarrow> policy" where
  "data_channel_backoff dflt = dflt\<lparr>po_max_interval := millis 100, po_max_elapsed := Some (secs 10)\<rparr>"

definition accept_backoff :: "policy \<Rightarrow> policy" where
  "accept_backoff dflt = dflt\<lparr>po_max_interval := millis 100, po_max_elapsed := None\<rparr>"

definition visitor_backoff :: "policy \<Rightarrow> policy" where
  "visitor_backoff dflt = dflt\<lparr>po_max_interval := secs 1, po_max_elapsed := None\<rparr>"

text \<open>The longest delay of a policy, in thousandths of a nanosecond.\<close>

definition delay_bound :: "policy \<Rightarrow> nat" where
  "delay_bound p = (1000 + po_randomization p) * max (po_initial p) (po_max_interval p)"

locale backoff_lib =
  fixes ops :: "'b backoff_ops"
    and belongs :: "policy \<Rightarrow> 'b \<Rightarrow> bool"
  assumes make_belongs: "belongs p (bo_make ops p t)"
    and reset_belongs: "belongs p b \<Longrightarrow> belongs p (bo_reset ops t b)"
    and next_belongs: "belongs p b \<Longrightarrow> belongs p (snd (bo_next ops r t b))"
    and next_unlimited: "belongs p b \<Longrightarrow> po_max_elapsed p = None \<Longrightarrow> fst (bo_next ops r t b) \<noteq> None"
    and next_bounded: "belongs p b \<Longrightarrow> fst (bo_next ops r t b) = Some d \<Longrightarrow> d * 1000 \<le> delay_bound p"
    and reset_bounded: "belongs p b \<Longrightarrow> fst (bo_next ops r t' (bo_reset ops t b)) = Some d \<Longrightarrow>
      d * 1000 \<le> (1000 + po_randomization p) * po_initial p"
    and default_initial: "po_initial (bo_default ops) = millis 500"
    and default_randomization: "po_randomization (bo_default ops) = 500"
begin

lemma next_delay:
  assumes "belongs p b" "po_max_elapsed p = None"
  obtains d b' where "bo_next ops r t b = (Some d, b')" "d * 1000 \<le> delay_bound p" "belongs p b'"
proof -
  obtain o' b' where n: "bo_next ops r t b = (o', b')" by (cases "bo_next ops r t b")
  moreover from n next_unlimited [OF assms, of r t] obtain d where "o' = Some d" by auto
  moreover have "belongs p b'" using next_belongs [OF assms(1), of r t] n by simp
  moreover have "d * 1000 \<le> delay_bound p"
    using next_bounded [OF assms(1), of r t d] n \<open>o' = Some d\<close> by simp
  ultimately show thesis using that by blast
qed

end

section \<open>The documented algorithm\<close>

text \<open>
  An instance of the contract, following the library's documentation: the interval starts at the
  initial one, a delay is the interval with the random deviation, and the interval grows by the
  multiplier up to the maximum.
\<close>

record expo =
  ex_policy :: policy
  ex_interval :: nat
  ex_start :: instant

definition expo_default :: policy where
  "expo_default = \<lparr>po_initial = millis 500, po_randomization = 500, po_multiplier = 1500,
     po_max_interval = secs 60, po_max_elapsed = Some (secs 900)\<rparr>"

definition expo_next :: "nat \<Rightarrow> instant \<Rightarrow> expo \<Rightarrow> nat option \<times> expo" where
  "expo_next r t b =
     (let p = ex_policy b;
          d = ex_interval b * (1000 - po_randomization p + r mod (2 * min 1000 (po_randomization p) + 1)) div 1000
      in if (case po_max_elapsed p of None \<Rightarrow> False | Some m \<Rightarrow> m < duration_since t (ex_start b) + d)
         then (None, b)
         else (Some d, b\<lparr>ex_interval := min (po_max_interval p) (ex_interval b * po_multiplier p div 1000)\<rparr>))"

definition expo_ops :: "expo backoff_ops" where
  "expo_ops =
     \<lparr>bo_default = expo_default,
      bo_make = \<lambda>p t. \<lparr>ex_policy = p, ex_interval = po_initial p, ex_start = t\<rparr>,
      bo_reset = \<lambda>t b. b\<lparr>ex_interval := po_initial (ex_policy b), ex_start := t\<rparr>,
      bo_next = expo_next\<rparr>"

definition expo_belongs :: "policy \<Rightarrow> expo \<Rightarrow> bool" where
  "expo_belongs p b = (ex_policy b = p \<and> ex_interval b \<le> max (po_initial p) (po_max_interval p))"

lemma deviation_bound: "1000 - (f::nat) + r mod (2 * min 1000 f + 1) \<le> 1000 + f"
proof -
  have "r mod (2 * min 1000 f + 1) \<le> 2 * min 1000 f" by (metis Suc_eq_plus1 less_Suc_eq_le mod_less_divisor zero_less_Suc)
  then show ?thesis by linarith
qed

lemma expo_next_delay:
  assumes "fst (expo_next r t b) = Some d"
  shows "d * 1000 \<le> (1000 + po_randomization (ex_policy b)) * ex_interval b"
proof -
  let ?f = "1000 - po_randomization (ex_policy b) + r mod (2 * min 1000 (po_randomization (ex_policy b)) + 1)"
  have "d = ex_interval b * ?f div 1000" using assms by (auto simp: expo_next_def Let_def split: if_splits)
  then have "d * 1000 \<le> ex_interval b * ?f" by (simp add: div_times_less_eq_dividend)
  also have "\<dots> \<le> ex_interval b * (1000 + po_randomization (ex_policy b))"
    by (intro mult_le_mono order_refl deviation_bound)
  finally show ?thesis by (simp add: mult.commute)
qed

interpretation expo_lib: backoff_lib expo_ops expo_belongs
proof
  fix p b r t d
  assume b: "expo_belongs p b" and n: "fst (bo_next expo_ops r t b) = Some d"
  have "d * 1000 \<le> (1000 + po_randomization (ex_policy b)) * ex_interval b"
    using n by (intro expo_next_delay) (simp add: expo_ops_def)
  also have "\<dots> \<le> delay_bound p"
    using b by (auto simp: expo_belongs_def delay_bound_def intro!: mult_le_mono)
  finally show "d * 1000 \<le> delay_bound p" .
next
  fix p b r t t' d
  assume b: "expo_belongs p b" and n: "fst (bo_next expo_ops r t' (bo_reset expo_ops t b)) = Some d"
  show "d * 1000 \<le> (1000 + po_randomization p) * po_initial p"
    using b expo_next_delay [of r t' "bo_reset expo_ops t b" d] n by (simp add: expo_ops_def expo_belongs_def)
qed (auto simp: expo_ops_def expo_next_def expo_belongs_def expo_default_def Let_def)

section \<open>Retries with a deadline\<close>

text \<open>
  \<open>retry_notify_with_deadline\<close>: the result of the library's retry loop, when there is one, against the
  first message of the shutdown channel; when both are there \<open>select!\<close> may take either.
\<close>

definition retry_notify_with_deadline ::
  "(instant \<times> (err + 'a)) option \<Rightarrow> instant option \<Rightarrow> bool \<Rightarrow> (instant \<times> (err + 'a)) option" where
  "retry_notify_with_deadline retried deadline prefer_retry =
     (case (retried, deadline) of
        (None, None) \<Rightarrow> None
      | (Some v, None) \<Rightarrow> Some v
      | (None, Some t) \<Rightarrow> Some (t, Inl (Msg ''shutdown''))
      | (Some (s, v), Some t) \<Rightarrow>
          if s < t \<or> s = t \<and> prefer_retry then Some (s, v) else Some (t, Inl (Msg ''shutdown'')))"

text \<open>\<open>tcp_listen_and_send\<close> and the UDP pool bind through it: the result comes no later than the shutdown.\<close>

lemma deadline_ends:
  assumes "deadline = Some t"
  shows "\<exists>s v. retry_notify_with_deadline retried deadline p = Some (s, v) \<and> s \<le> t"
  using assms by (auto simp: retry_notify_with_deadline_def split: option.splits prod.splits)

lemma deadline_success:
  "retry_notify_with_deadline retried deadline p = Some (s, Inr v) \<longleftrightarrow>
     retried = Some (s, Inr v) \<and> (case deadline of None \<Rightarrow> True | Some t \<Rightarrow> s < t \<or> s = t \<and> p)"
  by (auto simp: retry_notify_with_deadline_def split: option.splits prod.splits if_splits)

end
