(* ===== verification/Retry_Loop.thy ===== *)
theory Retry_Loop
  imports Client Backoff Bincode_Wire
begin

text \<open>
  The retry loop of the library \<open>backoff\<close> as the sources use it, \<open>retry_notify\<close>, and the connection of a
  data channel in \<open>src/rathole/src/client.rs\<close>, which is retried by it on the clock. The loop is a
  parameter with its documented behaviour in the locale \<open>retry_lib\<close>.
\<close>

section \<open>The loop of the library\<close>

text \<open>How one call of the retried operation goes: its result and the time it takes, or no return.\<close>

datatype 'a try_course = Try_Done "err + 'a" nat | Try_Stuck

definition try_fails :: "'a try_course \<Rightarrow> bool" where
  "try_fails c = (case c of Try_Done (Inl e) n \<Rightarrow> True | _ \<Rightarrow> False)"

text \<open>
  The operation is called with the random numbers and the courses of the calls to come, the time, and the
  backoff. All errors of the sources are transient. A backoff has a time from which it counts.
\<close>

type_synonym ('b, 'a) retry_fun =
  "(nat \<Rightarrow> nat) \<Rightarrow> (nat \<Rightarrow> 'a try_course) \<Rightarrow> instant \<Rightarrow> 'b \<Rightarrow> (instant \<times> (err + 'a)) option"

locale retry_lib = backoff_lib ops belongs for ops :: "'b backoff_ops" and belongs +
  fixes retry :: "('b, 'a) retry_fun"
    and started :: "'b \<Rightarrow> instant"
  assumes retry_unfold: "retry rs at now b =
      (case at 0 of
         Try_Stuck \<Rightarrow> None
       | Try_Done (Inr v) n \<Rightarrow> Some (now + n, Inr v)
       | Try_Done (Inl e) n \<Rightarrow>
           (case bo_next ops (rs 0) (now + n) b of
              (None, b') \<Rightarrow> Some (now + n, Inl e)
            | (Some d, b') \<Rightarrow> retry (\<lambda>i. rs (Suc i)) (\<lambda>i. at (Suc i)) (now + n + d) b'))"
    and make_started: "started (bo_make ops p t) = t"
    and next_started: "started (snd (bo_next ops r t b)) = started b"
    and next_in_time: "belongs p b \<Longrightarrow> po_max_elapsed p = Some m \<Longrightarrow> fst (bo_next ops r t b) = Some d \<Longrightarrow>
      duration_since t (started b) + d \<le> m"
    and next_gives_up: "belongs p b \<Longrightarrow> po_max_elapsed p = Some m \<Longrightarrow> fst (bo_next ops r t b) = None \<Longrightarrow>
      m * 1000 < duration_since t (started b) * 1000 + delay_bound p"
begin

lemma retry_cases:
  "at 0 = Try_Stuck \<Longrightarrow> retry rs at now b = None"
  "at 0 = Try_Done (Inr v) n \<Longrightarrow> retry rs at now b = Some (now + n, Inr v)"
  "at 0 = Try_Done (Inl e) n \<Longrightarrow> bo_next ops (rs 0) (now + n) b = (None, b') \<Longrightarrow>
    retry rs at now b = Some (now + n, Inl e)"
  "at 0 = Try_Done (Inl e) n \<Longrightarrow> bo_next ops (rs 0) (now + n) b = (Some d, b') \<Longrightarrow>
    retry rs at now b = retry (\<lambda>i. rs (Suc i)) (\<lambda>i. at (Suc i)) (now + n + d) b'"
  by (subst retry_unfold, simp)+

text \<open>With a time limit the loop returns, and gives up only when the next delay would go past it.\<close>

lemma retry_limited:
  assumes "belongs p b" "po_max_elapsed p = Some m" "started b \<le> now" "now \<le> started b + m"
    and tries: "\<And>i. \<exists>r n. at i = Try_Done r n \<and> 0 < n \<and> n \<le> h"
  shows "\<exists>t r i n. retry rs at now b = Some (t, r) \<and> t \<le> started b + m + h \<and> at i = Try_Done r n \<and>
    (\<forall>j < i. try_fails (at j)) \<and>
    (\<forall>e. r = Inl e \<longrightarrow> m * 1000 < duration_since t (started b) * 1000 + delay_bound p)"
  using assms(1,3,4,5)
proof (induction "started b + m - now" arbitrary: rs at now b rule: less_induct)
  case less
  obtain r n where a0: "at 0 = Try_Done r n" "0 < n" "n \<le> h" using less.prems(4) by blast
  have end_bound: "now + n \<le> started b + m + h" using less.prems(3) a0(3) by simp
  show ?case
  proof (cases r)
    case (Inr v)
    then have "retry rs at now b = Some (now + n, Inr v)" using a0 by (simp add: retry_cases(2))
    then show ?thesis using Inr a0 end_bound
      by - (rule exI [of _ "now + n"], rule exI [of _ r], rule exI [of _ 0], auto)
  next
    case (Inl e)
    obtain x b' where x: "bo_next ops (rs 0) (now + n) b = (x, b')" by (cases "bo_next ops (rs 0) (now + n) b")
    have b': "belongs p b'" "started b' = started b"
      using next_belongs [OF less.prems(1), of "rs 0" "now + n"] next_started [of "rs 0" "now + n" b] x by simp_all
    show ?thesis
    proof (cases x)
      case None
      have "retry rs at now b = Some (now + n, Inl e)"
        using retry_cases(3) [of at e n] a0(1) Inl x None by simp
      moreover have "m * 1000 < duration_since (now + n) (started b) * 1000 + delay_bound p"
        using next_gives_up [OF less.prems(1) assms(2), of "rs 0" "now + n"] x None by simp
      ultimately show ?thesis using Inl a0 end_bound
        by - (rule exI [of _ "now + n"], rule exI [of _ r], rule exI [of _ 0], auto)
    next
      case (Some d)
      have "duration_since (now + n) (started b) + d \<le> m"
        using next_in_time [OF less.prems(1) assms(2), of "rs 0" "now + n" d] x Some by simp
      then have now': "now + n + d \<le> started b + m" using less.prems(2) by simp
      have ret: "retry rs at now b = retry (\<lambda>i. rs (Suc i)) (\<lambda>i. at (Suc i)) (now + n + d) b'"
        using retry_cases(4) [of at e n] a0(1) Inl x Some by simp
      have "started b' + m - (now + n + d) < started b + m - now" using b'(2) a0(2) now' by simp
      from less.hyps [OF this b'(1), of "\<lambda>i. at (Suc i)" "\<lambda>i. rs (Suc i)"] b'(2) less.prems(2,4) now'
      obtain t r' i n' where later: "retry (\<lambda>i. rs (Suc i)) (\<lambda>i. at (Suc i)) (now + n + d) b' = Some (t, r')"
          "t \<le> started b + m + h" "at (Suc i) = Try_Done r' n'" "\<forall>j < i. try_fails (at (Suc j))"
          "\<forall>e. r' = Inl e \<longrightarrow> m * 1000 < duration_since t (started b) * 1000 + delay_bound p" by auto
      have "\<forall>j < Suc i. try_fails (at j)"
        using later(4) a0(1) Inl by (auto simp: try_fails_def less_Suc_eq_0_disj)
      with later ret show ?thesis 
        by - (rule exI [of _ t], rule exI [of _ r'], rule exI [of _ "Suc i"], auto)
    qed
  qed
qed

text \<open>Without a time limit the first call that succeeds gives the result.\<close>

lemma retry_unlimited:
  assumes "belongs p b" "po_max_elapsed p = None" "at i = Try_Done (Inr v) n" "\<And>j. j < i \<Longrightarrow> try_fails (at j)"
  shows "\<exists>t. retry rs at now b = Some (t, Inr v) \<and> now \<le> t"
  using assms(1,3,4)
proof (induction i arbitrary: rs at now b)
  case 0
  then show ?case by (simp add: retry_cases(2))
next
  case (Suc i)
  from Suc.prems(3) [of 0] obtain e n' where a0: "at 0 = Try_Done (Inl e) n'"
    by (auto simp: try_fails_def split: try_course.splits sum.splits)
  obtain d b' where n: "bo_next ops (rs 0) (now + n') b = (Some d, b')" "belongs p b'"
    by (rule next_delay [OF Suc.prems(1) assms(2)])
  from Suc.IH [OF n(2), of "\<lambda>i. at (Suc i)"] Suc.prems(2,3)
  obtain t where "retry (\<lambda>i. rs (Suc i)) (\<lambda>i. at (Suc i)) (now + n' + d) b' = Some (t, Inr v)" "now + n' + d \<le> t"
    by fastforce
  moreover have "retry rs at now b = retry (\<lambda>i. rs (Suc i)) (\<lambda>i. at (Suc i)) (now + n' + d) b'"
    using a0 n(1) by (rule retry_cases(4))
  ultimately show ?case by auto
qed

end

section \<open>The loop on the documented backoff\<close>

partial_function (option) expo_retry :: "(expo, 'a) retry_fun" where
  "expo_retry rs at now b =
     (case at 0 of
        Try_Stuck \<Rightarrow> None
      | Try_Done r n \<Rightarrow>
          (case r of
             Inr v \<Rightarrow> Some (now + n, Inr v)
           | Inl e \<Rightarrow>
               (case expo_next (rs 0) (now + n) b of
                  (x, b') \<Rightarrow>
                    (case x of
                       None \<Rightarrow> Some (now + n, Inl e)
                     | Some d \<Rightarrow> expo_retry (\<lambda>i. rs (Suc i)) (\<lambda>i. at (Suc i)) (now + n + d) b'))))"

interpretation expo_retry: retry_lib expo_ops expo_belongs expo_retry ex_start
proof
  fix rs :: "nat \<Rightarrow> nat" and at :: "nat \<Rightarrow> 'a try_course" and now b
  show "expo_retry rs at now b =
      (case at 0 of
         Try_Stuck \<Rightarrow> None
       | Try_Done (Inr v) n \<Rightarrow> Some (now + n, Inr v)
       | Try_Done (Inl e) n \<Rightarrow>
           (case bo_next expo_ops (rs 0) (now + n) b of
              (None, b') \<Rightarrow> Some (now + n, Inl e)
            | (Some d, b') \<Rightarrow> expo_retry (\<lambda>i. rs (Suc i)) (\<lambda>i. at (Suc i)) (now + n + d) b'))"
    by (subst expo_retry.simps) (simp add: expo_ops_def split: try_course.split sum.split prod.split option.split)
next
  fix p b m r t d
  assume "expo_belongs p b" "po_max_elapsed p = Some m" "fst (bo_next expo_ops r t b) = Some d"
  then show "duration_since t (ex_start b) + d \<le> m"
    by (auto simp: expo_ops_def expo_belongs_def expo_next_def Let_def split: if_splits)
next
  fix p b m r t
  assume a: "expo_belongs p b" "po_max_elapsed p = Some m" "fst (bo_next expo_ops r t b) = None"
  define d where "d = ex_interval b * (1000 - po_randomization p + r mod (2 * min 1000 (po_randomization p) + 1)) div 1000"
  have "d * 1000 \<le> ex_interval b * (1000 - po_randomization p + r mod (2 * min 1000 (po_randomization p) + 1))"
    by (simp add: d_def div_times_less_eq_dividend)
  also have "\<dots> \<le> delay_bound p"
    using a(1) deviation_bound [of "po_randomization p" r] unfolding delay_bound_def
    by (subst mult.commute) (auto simp: expo_belongs_def intro!: mult_le_mono)
  finally have "d * 1000 \<le> delay_bound p" .
  moreover have "m < duration_since t (ex_start b) + d"
    using a by (auto simp: expo_ops_def expo_belongs_def expo_next_def Let_def d_def split: if_splits)
  ultimately show "m * 1000 < duration_since t (ex_start b) * 1000 + delay_bound p" by linarith
qed (simp_all add: expo_ops_def expo_next_def Let_def)

section \<open>The connection of a data channel\<close>

text \<open>One call of the operation: \<open>connect\<close> of the transport, its error with the address.\<close>

definition connect_try :: "string \<Rightarrow> 'a try_course \<Rightarrow> 'a try_course" where
  "connect_try addr c =
     (case c of
        Try_Done (Inl e) n \<Rightarrow> Try_Done (Inl (Context (''Failed to connect to '' @ addr) e)) n
      | Try_Done (Inr v) n \<Rightarrow> c
      | Try_Stuck \<Rightarrow> c)"

lemma connect_try_simps [simp]:
  "connect_try addr (Try_Done (Inl e) n) = Try_Done (Inl (Context (''Failed to connect to '' @ addr) e)) n"
  "connect_try addr (Try_Done (Inr v) n) = Try_Done (Inr v) n"
  "connect_try addr Try_Stuck = Try_Stuck"
  by (simp_all add: connect_try_def)

lemma connect_try_fails [simp]: "try_fails (connect_try addr c) = try_fails c"
proof (cases c)
  case (Try_Done r n)
  then show ?thesis by (cases r) (simp_all add: try_fails_def)
qed simp

definition data_channel_connect ::
  "'b backoff_ops \<Rightarrow> ('b, 'a) retry_fun \<Rightarrow> string \<Rightarrow> (nat \<Rightarrow> nat) \<Rightarrow> (nat \<Rightarrow> 'a try_course) \<Rightarrow> instant \<Rightarrow>
    (instant \<times> (err + 'a)) option" where
  "data_channel_connect ops retry addr rs at now =
     retry rs (\<lambda>i. connect_try addr (at i)) now (bo_make ops (data_channel_backoff (bo_default ops)) now)"

text \<open>
  \<open>do_data_channel_handshake\<close> of the client: the connection by the loop, then the hello with the session key;
  the write is taken to need no time. (The socket options in between are those of \<open>Transport_Stack\<close>.)
\<close>

definition client_data_handshake ::
  "'b backoff_ops \<Rightarrow> ('b, conn) retry_fun \<Rightarrow> codec \<Rightarrow> digest \<Rightarrow> string \<Rightarrow> (nat \<Rightarrow> nat) \<Rightarrow> (nat \<Rightarrow> conn try_course) \<Rightarrow>
    instant \<Rightarrow> (instant \<times> (err + conn)) option" where
  "client_data_handshake ops retry k session_key addr rs at now =
     (case data_channel_connect ops retry addr rs at now of
        None \<Rightarrow> None
      | Some (t, Inl e) \<Rightarrow> Some (t, Inl e)
      | Some (t, Inr c) \<Rightarrow>
          (case client_data_hello k session_key c of
             (Inl e, c') \<Rightarrow> Some (t, Inl e)
           | (Inr u, c') \<Rightarrow> Some (t, Inr c')))"

lemma data_channel_policy:
  assumes "backoff_lib ops belongs"
  shows "delay_bound (data_channel_backoff (bo_default ops)) = 1500 * millis 500"
    and "po_max_elapsed (data_channel_backoff (bo_default ops)) = Some (secs 10)"
  using backoff_lib.default_initial [OF assms] backoff_lib.default_randomization [OF assms]
  by (simp_all add: delay_bound_def data_channel_backoff_def)

lemma connect_tryE:
  assumes "connect_try addr c = Try_Done r n"
  obtains (failed) e where "c = Try_Done (Inl e) n" "r = Inl (Context (''Failed to connect to '' @ addr) e)"
  | (connects) v where "c = Try_Done (Inr v) n" "r = Inr v"
  using assms by (auto simp: connect_try_def split: try_course.splits sum.splits)

text \<open>
  C17. The connection of a data channel is decided in time: with attempts of at most \<open>h\<close> each the
  client has, no later than \<open>h\<close> after ten seconds, the connection of the first attempt that succeeded with the
  hello written to it, or, later than 9.25 seconds, the error of the last attempt. An attempt that never
  returns, for which there is no timeout, keeps the task of the data channel for ever.
\<close>

theorem data_channel_connects_or_gives_up:
  assumes "retry_lib ops belongs retry started" and "\<And>i. \<exists>r n. at i = Try_Done r n \<and> 0 < n \<and> n \<le> h"
  shows "(\<exists>i r n t. at i = Try_Done r n \<and> (\<forall>j < i. try_fails (at j)) \<and> t \<le> now + secs 10 + h \<and>
      (case r of
         Inr c \<Rightarrow> client_data_handshake ops retry k key addr rs at now =
           Some (t, case client_data_hello k key c of (Inl e, c') \<Rightarrow> Inl e | (Inr u, c') \<Rightarrow> Inr c')
       | Inl e \<Rightarrow> now + millis 9250 < t \<and> client_data_handshake ops retry k key addr rs at now =
           Some (t, Inl (Context (''Failed to connect to '' @ addr) e)))) \<and>
    client_data_handshake ops retry k key addr rs (\<lambda>_. Try_Stuck) now = None"
proof (rule conjI)
  have lib: "backoff_lib ops belongs" using assms(1) by (rule retry_lib.axioms)
  let ?p = "data_channel_backoff (bo_default ops)"
  note start = backoff_lib.make_belongs [OF lib, of ?p now] data_channel_policy(2) [OF lib]
  have tries: "\<exists>r n. connect_try addr (at i) = Try_Done r n \<and> 0 < n \<and> n \<le> h" for i
  proof -
    obtain r n where "at i = Try_Done r n" "0 < n" "n \<le> h" using assms(2) by blast
    then show ?thesis by (cases r) auto
  qed
  have st: "started (bo_make ops ?p now) = now" using retry_lib.make_started [OF assms(1)] .
  have le: "started (bo_make ops ?p now) \<le> now" "now \<le> started (bo_make ops ?p now) + secs 10" using st by simp_all
  obtain t r i n where r: "retry rs (\<lambda>i. connect_try addr (at i)) now (bo_make ops ?p now) = Some (t, r)"
      "t \<le> now + secs 10 + h" "connect_try addr (at i) = Try_Done r n" "\<forall>j < i. try_fails (connect_try addr (at j))"
      "\<forall>e. r = Inl e \<longrightarrow> secs 10 * 1000 < duration_since t now * 1000 + 1500 * millis 500"
    using retry_lib.retry_limited [where at = "\<lambda>i. connect_try addr (at i)" and rs = rs, OF assms(1) start le tries]
    unfolding st data_channel_policy(1) [OF lib] by blast
  from r(3) show "\<exists>i r n t. at i = Try_Done r n \<and> (\<forall>j < i. try_fails (at j)) \<and> t \<le> now + secs 10 + h \<and>
      (case r of
         Inr c \<Rightarrow> client_data_handshake ops retry k key addr rs at now =
           Some (t, case client_data_hello k key c of (Inl e, c') \<Rightarrow> Inl e | (Inr u, c') \<Rightarrow> Inr c')
       | Inl e \<Rightarrow> now + millis 9250 < t \<and> client_data_handshake ops retry k key addr rs at now =
           Some (t, Inl (Context (''Failed to connect to '' @ addr) e)))"
  proof (cases rule: connect_tryE)
    case (failed e)
    then have "now + millis 9250 < t" using r(5) by auto
    with failed r show ?thesis
      by - (rule exI [of _ i], rule exI [of _ "Inl e"],
        auto simp: client_data_handshake_def data_channel_connect_def intro!: exI [of _ t])
  next
    case (connects v)
    with r show ?thesis
      by - (rule exI [of _ i], rule exI [of _ "Inr v"],
        auto simp: client_data_handshake_def data_channel_connect_def intro!: exI [of _ t] split: prod.split sum.split)
  qed
  have "retry rs (\<lambda>i. connect_try addr Try_Stuck) now (bo_make ops ?p now) = None"
    using retry_lib.retry_cases(1) [OF assms(1), of "\<lambda>i. connect_try addr Try_Stuck"] by simp
  then show "client_data_handshake ops retry k key addr rs (\<lambda>_. Try_Stuck) now = None"
    by (simp add: client_data_handshake_def data_channel_connect_def)
qed

text \<open>A server that refuses for the first attempts and accepts then.\<close>

definition late_server :: "nat \<Rightarrow> conn try_course" where
  "late_server i = (if i < 2 then Try_Done (Inl (Io ''refused'')) (millis 1) else Try_Done (Inr (fresh_conn [])) (millis 2))"

theorem data_channel_connects_or_gives_up_witness:
  "(\<exists>i r n t. late_server i = Try_Done r n \<and> (\<forall>j < i. try_fails (late_server j)) \<and> t \<le> 0 + secs 10 + millis 2 \<and>
      (case r of
         Inr c \<Rightarrow> client_data_handshake expo_ops expo_retry bincode [] [] (\<lambda>_. 0) late_server 0 =
           Some (t, case client_data_hello bincode [] c of (Inl e, c') \<Rightarrow> Inl e | (Inr u, c') \<Rightarrow> Inr c')
       | Inl e \<Rightarrow> 0 + millis 9250 < t \<and> client_data_handshake expo_ops expo_retry bincode [] [] (\<lambda>_. 0) late_server 0 =
           Some (t, Inl (Context (''Failed to connect to '' @ []) e)))) \<and>
    client_data_handshake expo_ops expo_retry bincode [] [] (\<lambda>_. 0) (\<lambda>_. Try_Stuck) 0 = None"
proof -
  have t: "\<exists>r n. late_server i = Try_Done r n \<and> 0 < n \<and> n \<le> millis 2" for i
    by (simp add: late_server_def)
  show ?thesis
    by (rule data_channel_connects_or_gives_up [OF expo_retry.retry_lib_axioms t])
qed

end
