(* ===== verification/Listener.thy ===== *)
theory Listener
  imports Retry_Loop
begin

text \<open>
  The task of \<open>tcp_listen_and_send\<close> in \<open>src/rathole/src/server.rs\<close> on the clock: the bind that is retried
  until the shutdown, and the loop that accepts visitors, which sleeps after an error and waits for room in
  the queue of the pool. Neither is interrupted by the shutdown signal.
\<close>

section \<open>The loop\<close>

text \<open>
  What \<open>accept\<close> gives when it is called from a time on: a visitor or an error. The send into the queue of
  the pool waits for room, possibly for ever, or finds the pool gone and returns at once. The flag says
  whether \<open>select!\<close> takes the signal when both are ready.
\<close>

datatype queue_wait = Room_After nat | No_Room | Pool_Gone

record incoming =
  vi_time :: instant
  vi_visitor :: "nat option"
  vi_wait :: queue_wait
  vi_signal_first :: bool
  vi_random :: nat

text \<open>
  The log has an entry for every visitor: its number, when a data channel was asked for, and when the
  visitor was in the queue.
\<close>

type_synonym visit_log = "(nat \<times> instant \<times> instant option) list"

datatype listener_state = Listener_Ended instant | Listener_Stuck instant | Listener_Waiting instant | Listener_Binding

definition signal_taken :: "instant option \<Rightarrow> instant \<Rightarrow> incoming \<Rightarrow> bool" where
  "signal_taken sd now v =
     (case sd of
        None \<Rightarrow> False
      | Some z \<Rightarrow> max now z < max now (vi_time v) \<or> max now z = max now (vi_time v) \<and> vi_signal_first v)"

text \<open>\<open>rq\<close> is the time from which the receiver of the requests is gone, with the control channel.\<close>

fun visitor_loop ::
  "'b backoff_ops \<Rightarrow> instant option \<Rightarrow> instant option \<Rightarrow> incoming list \<Rightarrow> instant \<Rightarrow> 'b \<Rightarrow> visit_log \<times> listener_state" where
  "visitor_loop ops sd rq [] now b =
     ([], case sd of None \<Rightarrow> Listener_Waiting now | Some z \<Rightarrow> Listener_Ended (max now z))"
| "visitor_loop ops sd rq (v # vs) now b =
     (let t = max now (vi_time v)
      in if signal_taken sd now v then ([], Listener_Ended (max now (the sd)))
         else case vi_visitor v of
             None \<Rightarrow>
               (case bo_next ops (vi_random v) t b of
                  (Some d, b') \<Rightarrow> visitor_loop ops sd rq vs (t + d) b'
                | (None, b') \<Rightarrow> ([], Listener_Ended t))
           | Some i \<Rightarrow>
               if (case rq of None \<Rightarrow> False | Some c \<Rightarrow> c \<le> t) then ([], Listener_Ended t)
               else let b1 = bo_reset ops t b
                    in case vi_wait v of
                         No_Room \<Rightarrow> ([(i, t, None)], Listener_Stuck t)
                       | Pool_Gone \<Rightarrow>
                           (let (log, st) = visitor_loop ops sd rq vs t b1 in ((i, t, None) # log, st))
                       | Room_After w \<Rightarrow>
                           (let (log, st) = visitor_loop ops sd rq vs (t + w) b1 in ((i, t, Some (t + w)) # log, st)))"

text \<open>The task: the bind by the retry loop of the library against the shutdown signal, then the loop.\<close>

definition tcp_listen_and_send ::
  "'b backoff_ops \<Rightarrow> ('b, unit) retry_fun \<Rightarrow> instant option \<Rightarrow> instant option \<Rightarrow> (nat \<Rightarrow> nat) \<Rightarrow> (nat \<Rightarrow> unit try_course) \<Rightarrow>
    bool \<Rightarrow> incoming list \<Rightarrow> instant \<Rightarrow> visit_log \<times> listener_state" where
  "tcp_listen_and_send ops retry sd rq rs bind prefer vs now =
     (case retry_notify_with_deadline (retry rs bind now (bo_make ops (listen_backoff (bo_default ops)) now)) sd prefer of
        None \<Rightarrow> ([], Listener_Binding)
      | Some (t, Inl e) \<Rightarrow> ([], Listener_Ended t)
      | Some (t, Inr u) \<Rightarrow> visitor_loop ops sd rq vs t (bo_make ops (visitor_backoff (bo_default ops)) t))"

section \<open>Facts\<close>

definition room_within :: "nat \<Rightarrow> incoming \<Rightarrow> bool" where
  "room_within w v = (case vi_wait v of Room_After n \<Rightarrow> n \<le> w | No_Room \<Rightarrow> False | Pool_Gone \<Rightarrow> True)"

definition signal_loses :: "incoming list \<Rightarrow> nat" where
  "signal_loses vs = length (filter (\<lambda>v. \<not> vi_signal_first v) vs)"

lemma signal_loses_simps [simp]:
  "signal_loses [] = 0"
  "signal_loses (v # vs) = (if vi_signal_first v then 0 else 1) + signal_loses vs"
  by (simp_all add: signal_loses_def)

context backoff_lib
begin

lemma visitor_policy:
  "po_max_elapsed (visitor_backoff (bo_default ops)) = None"
  "delay_bound (visitor_backoff (bo_default ops)) = 1500 * secs 1"
  by (simp_all add: delay_bound_def visitor_backoff_def default_initial default_randomization)

text \<open>One round: how long it keeps the loop away from the signal.\<close>

lemma visitor_round:
  assumes "belongs (visitor_backoff (bo_default ops)) b" "room_within w v" "\<not> signal_taken sd now v"
  obtains (ended) "visitor_loop ops sd rq (v # vs) now b = ([], Listener_Ended (max now (vi_time v)))" "rq \<noteq> None"
  | (goes_on) entries d b' where "d \<le> max w (millis 1500)" "belongs (visitor_backoff (bo_default ops)) b'"
      "visitor_loop ops sd rq (v # vs) now b =
        (entries @ fst (visitor_loop ops sd rq vs (max now (vi_time v) + d) b'),
         snd (visitor_loop ops sd rq vs (max now (vi_time v) + d) b'))"
      "map fst entries = (case vi_visitor v of None \<Rightarrow> [] | Some i \<Rightarrow> [i])"
proof (cases "vi_visitor v")
  case None
  obtain d b' where n: "bo_next ops (vi_random v) (max now (vi_time v)) b = (Some d, b')"
      "d * 1000 \<le> delay_bound (visitor_backoff (bo_default ops))" "belongs (visitor_backoff (bo_default ops)) b'"
    by (rule next_delay [OF assms(1) visitor_policy(1)])
  have "d \<le> max w (millis 1500)" using n(2) by (simp add: visitor_policy(2))
  then show thesis using n(1,3) None assms(3) by (intro goes_on [of d b' "[]"]) (simp_all add: Let_def)
next
  case (Some i)
  let ?t = "max now (vi_time v)"
  have b: "belongs (visitor_backoff (bo_default ops)) (bo_reset ops ?t b)" using reset_belongs [OF assms(1)] .
  show thesis
  proof (cases "case rq of None \<Rightarrow> False | Some c \<Rightarrow> c \<le> ?t")
    case True
    then have "rq \<noteq> None" by (auto split: option.splits)
    with True Some assms(3) ended show thesis by (simp add: Let_def)
  next
    case False
    show thesis
    proof (cases "vi_wait v")
      case (Room_After n)
      have "n \<le> w" using Room_After assms(2) by (simp add: room_within_def)
      then show thesis using Some False Room_After assms(3) b
        by (intro goes_on [of n "bo_reset ops ?t b" "[(i, ?t, Some (?t + n))]"])
          (simp_all add: Let_def split: prod.split)
    next
      case No_Room
      with assms(2) show thesis by (simp add: room_within_def)
    next
      case Pool_Gone
      then show thesis using Some False assms(3) b
        by (intro goes_on [of 0 "bo_reset ops ?t b" "[(i, ?t, None)]"])
          (simp_all add: Let_def split: prod.split)
    qed
  qed
qed

lemma visitor_loop_ends:
  assumes "belongs (visitor_backoff (bo_default ops)) b" "\<forall>v \<in> set vs. room_within w v"
  shows "\<exists>log t. visitor_loop ops (Some z) rq vs now b = (log, Listener_Ended t) \<and>
    t \<le> (if z \<le> now then now else z + max w (millis 1500)) + max w (millis 1500) * signal_loses vs"
  using assms
proof (induction vs arbitrary: now b)
  case Nil
  then show ?case by simp
next
  case (Cons v vs)
  let ?D = "max w (millis 1500)"
  show ?case
  proof (cases "signal_taken (Some z) now v")
    case True
    then show ?thesis by (simp add: max_def trans_le_add1)
  next
    case False
    then have t: "max now (vi_time v) \<le> max now z" "max now (vi_time v) = max now z \<Longrightarrow> \<not> vi_signal_first v"
      by (auto simp: signal_taken_def)
    have v: "room_within w v" using Cons.prems(2) by simp
    from Cons.prems(1) v False show ?thesis
    proof (cases rule: visitor_round [where rq = rq and vs = vs])
      case ended
      have "max now (vi_time v) \<le> (if z \<le> now then now else z + ?D)" using t(1) by (auto simp: max_def)
      with ended show ?thesis by (auto intro: trans_le_add1)
    next
      case (goes_on entries d b')
      let ?n = "max now (vi_time v) + d"
      from Cons.IH [OF goes_on(2)] Cons.prems(2) obtain log t' where l:
          "visitor_loop ops (Some z) rq vs ?n b' = (log, Listener_Ended t')"
          "t' \<le> (if z \<le> ?n then ?n else z + ?D) + ?D * signal_loses vs" by fastforce
      have "(if z \<le> ?n then ?n else z + ?D) \<le>
          (if z \<le> now then now else z + ?D) + ?D * (if vi_signal_first v then 0 else 1)"
        using goes_on(1) t by (cases "z \<le> now"; cases "vi_signal_first v"; simp add: max_absorb1 split: if_splits; linarith)
      then have "t' \<le> (if z \<le> now then now else z + ?D) + ?D * signal_loses (v # vs)"
        using l(2) by (simp add: algebra_simps split: if_splits)
      with l(1) goes_on(3) show ?thesis by simp
    qed
  qed
qed

text \<open>Without a signal, and with the control channel there, every visitor is announced and nothing is lost.\<close>

lemma visitor_loop_serves:
  assumes "belongs (visitor_backoff (bo_default ops)) b" "\<forall>v \<in> set vs. room_within w v"
  shows "\<exists>log t. visitor_loop ops None None vs now b = (log, Listener_Waiting t) \<and>
    map fst log = List.map_filter vi_visitor vs"
  using assms
proof (induction vs arbitrary: now b)
  case Nil
  then show ?case by simp
next
  case (Cons v vs)
  have v: "room_within w v" "\<not> signal_taken None now v" using Cons.prems(2) by (simp_all add: signal_taken_def)
  from Cons.prems(1) v obtain d b' entries where r: "belongs (visitor_backoff (bo_default ops)) b'"
      "visitor_loop ops None None (v # vs) now b =
        (entries @ fst (visitor_loop ops None None vs (max now (vi_time v) + d) b'),
         snd (visitor_loop ops None None vs (max now (vi_time v) + d) b'))"
      "map fst entries = (case vi_visitor v of None \<Rightarrow> [] | Some i \<Rightarrow> [i])"
    by (rule visitor_round [where rq = None and vs = vs]) blast+
  from Cons.IH [OF r(1)] Cons.prems(2) obtain log t where
      "visitor_loop ops None None vs (max now (vi_time v) + d) b' = (log, Listener_Waiting t)"
      "map fst log = List.map_filter vi_visitor vs" by fastforce
  with r(2,3) show ?case by (simp split: option.splits)
qed

end

text \<open>Visitors are announced in the order in which they were accepted, and queued after that.\<close>

lemma visitor_cases:
  obtains (stops) k entries st where "visitor_loop ops sd rq (v # vs) now b = (entries, st)"
      "map fst entries = take k (case vi_visitor v of None \<Rightarrow> [] | Some i \<Rightarrow> [i])"
  | (goes_on) entries t b' where "visitor_loop ops sd rq (v # vs) now b =
        (entries @ fst (visitor_loop ops sd rq vs t b'), snd (visitor_loop ops sd rq vs t b'))"
      "map fst entries = (case vi_visitor v of None \<Rightarrow> [] | Some i \<Rightarrow> [i])"
proof (cases "signal_taken sd now v")
  case True
  with stops [of "[]" _ 0] show thesis by (simp add: Let_def)
next
  case False
  let ?t = "max now (vi_time v)"
  show thesis
  proof (cases "vi_visitor v")
    case None
    obtain x b' where "bo_next ops (vi_random v) ?t b = (x, b')" by (cases "bo_next ops (vi_random v) ?t b")
    with None False stops [of "[]" _ 0] goes_on [of "[]" _ b'] show thesis by (cases x) (simp_all add: Let_def)
  next
    case (Some i)
    show thesis
    proof (cases "case rq of None \<Rightarrow> False | Some c \<Rightarrow> c \<le> ?t")
      case True
      with Some False stops [of "[]" _ 0] show thesis by (simp add: Let_def)
    next
      case open_rq: False
      show thesis
      proof (cases "vi_wait v")
        case (Room_After n)
        with Some False open_rq goes_on [of "[(i, ?t, Some (?t + n))]" "?t + n" "bo_reset ops ?t b"]
        show thesis by (simp add: Let_def split: prod.splits)
      next
        case No_Room
        with Some False open_rq stops [of "[(i, ?t, None)]" _ 1] show thesis by (simp add: Let_def)
      next
        case Pool_Gone
        with Some False open_rq goes_on [of "[(i, ?t, None)]" ?t "bo_reset ops ?t b"]
        show thesis by (simp add: Let_def split: prod.splits)
      qed
    qed
  qed
qed

lemma visitor_loop_order:
  "\<exists>k. map fst (fst (visitor_loop ops sd rq vs now b)) = take k (List.map_filter vi_visitor vs)"
proof (induction vs arbitrary: now b)
  case (Cons v vs)
  have all: "List.map_filter vi_visitor (v # vs) = (case vi_visitor v of None \<Rightarrow> [] | Some i \<Rightarrow> [i]) @ List.map_filter vi_visitor vs"
    by (simp split: option.split)
  show ?case
  proof (rule visitor_cases [of ops sd rq v vs now b])
    fix k entries st
    assume a: "visitor_loop ops sd rq (v # vs) now b = (entries, st)"
      "map fst entries = take k (case vi_visitor v of None \<Rightarrow> [] | Some i \<Rightarrow> [i])"
    have "map fst entries = take (min k (length (case vi_visitor v of None \<Rightarrow> [] | Some i \<Rightarrow> [i]))) (List.map_filter vi_visitor (v # vs))"
      unfolding all a(2) by (simp add: min_def)
    with a(1) show ?thesis by auto
  next
    fix entries t b'
    assume a: "visitor_loop ops sd rq (v # vs) now b =
        (entries @ fst (visitor_loop ops sd rq vs t b'), snd (visitor_loop ops sd rq vs t b'))"
      "map fst entries = (case vi_visitor v of None \<Rightarrow> [] | Some i \<Rightarrow> [i])"
    obtain k where "map fst (fst (visitor_loop ops sd rq vs t b')) = take k (List.map_filter vi_visitor vs)"
      using Cons.IH by blast
    then have "map fst (fst (visitor_loop ops sd rq (v # vs) now b)) =
        take (length entries + k) (List.map_filter vi_visitor (v # vs))"
      unfolding all a(1) a(2) [symmetric] by simp
    then show ?thesis by blast
  qed
qed simp

section \<open>Properties\<close>

text \<open>
  C16. The listener of a TCP service. With the shutdown signal it ends, whether it is bound or not: when the
  pool drains its queue within \<open>w\<close> or ends, then no later than one such wait or one sleep of at most 1.5
  seconds after the signal, and one more for every connection that \<open>select!\<close> takes first; the visitors it has
  announced are the first ones, in order. Without a signal every visitor is announced, once the bind has succeeded.
\<close>

theorem visitor_listener_ends:
  assumes "retry_lib ops belongs retry started" and "\<forall>v \<in> set vs. room_within w v"
  shows "(\<exists>log t k. tcp_listen_and_send ops retry (Some z) rq rs bind prefer vs now = (log, Listener_Ended t) \<and>
      t \<le> z + max w (millis 1500) * (1 + signal_loses vs) \<and> map fst log = take k (List.map_filter vi_visitor vs)) \<and>
    (bind i = Try_Done (Inr ()) n \<and> (\<forall>j < i. try_fails (bind j)) \<longrightarrow>
      (\<exists>log t. tcp_listen_and_send ops retry None None rs bind prefer vs now = (log, Listener_Waiting t) \<and>
        map fst log = List.map_filter vi_visitor vs))"
proof (rule conjI; (rule impI)?)
  have lib: "backoff_lib ops belongs" using assms(1) by (rule retry_lib.axioms)
  note bl = backoff_lib.make_belongs [where p = "visitor_backoff (bo_default ops)", OF lib]
  let ?first = "retry rs bind now (bo_make ops (listen_backoff (bo_default ops)) now)"
  obtain s r where r: "retry_notify_with_deadline ?first (Some z) prefer = Some (s, r)" "s \<le> z"
    using deadline_ends [of "Some z" z ?first "prefer"] by auto
  show "\<exists>log t k. tcp_listen_and_send ops retry (Some z) rq rs bind prefer vs now = (log, Listener_Ended t) \<and>
      t \<le> z + max w (millis 1500) * (1 + signal_loses vs) \<and> map fst log = take k (List.map_filter vi_visitor vs)"
  proof (cases r)
    case (Inl e)
    with r show ?thesis
      by (intro exI [of _ "[]"] exI [of _ s] exI [of _ 0]) (simp add: tcp_listen_and_send_def)
  next
    case (Inr u)
    obtain log t where l: "visitor_loop ops (Some z) rq vs s (bo_make ops (visitor_backoff (bo_default ops)) s) =
          (log, Listener_Ended t)"
        "t \<le> (if z \<le> s then s else z + max w (millis 1500)) + max w (millis 1500) * signal_loses vs"
      using backoff_lib.visitor_loop_ends [OF lib bl assms(2)] by blast
    have "t \<le> z + max w (millis 1500) * (1 + signal_loses vs)"
      using l(2) r(2) by (auto simp: distrib_left split: if_splits)
    moreover obtain k where "map fst log = take k (List.map_filter vi_visitor vs)"
      using visitor_loop_order [of ops "Some z" rq vs s "bo_make ops (visitor_backoff (bo_default ops)) s"] l(1) by auto
    ultimately show ?thesis using l(1) r(1) Inr by (auto simp: tcp_listen_and_send_def)
  qed
  assume "bind i = Try_Done (Inr ()) n \<and> (\<forall>j < i. try_fails (bind j))"
  then have b: "bind i = Try_Done (Inr ()) n" "\<And>j. j < i \<Longrightarrow> try_fails (bind j)" by simp_all
  have u: "po_max_elapsed (listen_backoff (bo_default ops)) = None" by (simp add: listen_backoff_def)
  obtain t where "?first = Some (t, Inr ())"
    using retry_lib.retry_unlimited [where at = bind and i = i, OF assms(1) backoff_lib.make_belongs [OF lib] u b] by blast
  moreover obtain log t' where "visitor_loop ops None None vs t (bo_make ops (visitor_backoff (bo_default ops)) t) =
      (log, Listener_Waiting t')" "map fst log = List.map_filter vi_visitor vs"
    using backoff_lib.visitor_loop_serves [OF lib bl assms(2)] by blast
  ultimately show "\<exists>log t. tcp_listen_and_send ops retry None None rs bind prefer vs now = (log, Listener_Waiting t) \<and>
        map fst log = List.map_filter vi_visitor vs"
    by (simp add: tcp_listen_and_send_def retry_notify_with_deadline_def)
qed

text \<open>
  A listener whose address is taken at first, with a visitor, an error of \<open>accept\<close> and another visitor.
\<close>

definition late_bind :: "nat \<Rightarrow> unit try_course" where
  "late_bind i = (if i < 1 then Try_Done (Inl (Io ''address in use'')) 1 else Try_Done (Inr ()) 1)"

definition some_visits :: "incoming list" where
  "some_visits =
     [\<lparr>vi_time = secs 1, vi_visitor = Some 7, vi_wait = Room_After (millis 3), vi_signal_first = True, vi_random = 0\<rparr>,
      \<lparr>vi_time = secs 2, vi_visitor = None, vi_wait = Room_After 0, vi_signal_first = True, vi_random = 500\<rparr>,
      \<lparr>vi_time = secs 3, vi_visitor = Some 8, vi_wait = Pool_Gone, vi_signal_first = False, vi_random = 0\<rparr>]"

theorem visitor_listener_ends_witness:
  "(\<exists>log t k. tcp_listen_and_send expo_ops expo_retry (Some (secs 4)) None (\<lambda>_. 0) late_bind True some_visits 0 =
        (log, Listener_Ended t) \<and>
      t \<le> secs 4 + max (millis 3) (millis 1500) * (1 + signal_loses some_visits) \<and>
      map fst log = take k (List.map_filter vi_visitor some_visits)) \<and>
    (\<exists>log t. tcp_listen_and_send expo_ops expo_retry None None (\<lambda>_. 0) late_bind True some_visits 0 =
        (log, Listener_Waiting t) \<and> map fst log = [7, 8])"
proof -
  have v: "\<forall>v \<in> set some_visits. room_within (millis 3) v"
    by (simp add: some_visits_def room_within_def)
  have b: "late_bind 1 = Try_Done (Inr ()) 1 \<and> (\<forall>j < 1. try_fails (late_bind j))"
    by (simp add: late_bind_def try_fails_def)
  note t = visitor_listener_ends [where bind = late_bind and i = 1 and n = 1, OF expo_retry.retry_lib_axioms v]
  have m: "List.map_filter vi_visitor some_visits = [7, 8]" by (simp add: some_visits_def)
  show ?thesis
    unfolding m [symmetric]
    by (rule conjI, rule conjunct1 [OF t], rule mp [OF conjunct2 [OF t] b])
qed

end
