(* ===== verification/Config_Toml.thy ===== *)
theory Config_Toml
  imports Config "HOL-Library.Monad_Syntax"
begin

text \<open>
  How a parsed TOML document becomes a configuration: what the \<open>Deserialize\<close> and \<open>Serialize\<close>
  implementations derived from the attributes of the structs in \<open>src/rathole/src/config.rs\<close> do. The
  syntax of TOML and of URLs is that of libraries and enters as parameters. (A unit variant written as a
  table, which the library also reads, is left out.)
\<close>

section \<open>Documents\<close>

text \<open>A value of a document; tables have every key once. \<open>T_Other\<close> are floats, dates and arrays.\<close>

datatype toml =
    T_String string
  | T_Int int
  | T_Bool bool
  | T_Table "(string \<times> toml) list"
  | T_Other

fun as_string :: "toml \<Rightarrow> string option" where
  "as_string (T_String s) = Some s"
| "as_string _ = None"

fun as_bool :: "toml \<Rightarrow> bool option" where
  "as_bool (T_Bool b) = Some b"
| "as_bool _ = None"

text \<open>An integer of a document is an \<open>i64\<close>; a \<open>u64\<close> takes those that are not negative.\<close>

fun as_u64 :: "toml \<Rightarrow> u64 option" where
  "as_u64 (T_Int n) = (if 0 \<le> n \<and> n < 2 ^ 63 then Some (word_of_int n) else None)"
| "as_u64 _ = None"

fun as_table :: "toml \<Rightarrow> (string \<times> toml) list option" where
  "as_table (T_Table tb) = Some tb"
| "as_table _ = None"

text \<open>
  The fields of a derived implementation: with \<open>deny_unknown_fields\<close> every key is one of a field; a
  missing field has its default, \<open>None\<close> when it is an \<open>Option\<close>, or is an error. The first argument of
  \<open>field\<close> is the default. Which of several errors is reported is left open: an error has no value.
\<close>

definition known :: "string list \<Rightarrow> (string \<times> toml) list \<Rightarrow> unit option" where
  "known ks tb = (if list_all (\<lambda>e. fst e \<in> set ks) tb then Some () else None)"

definition field :: "'a option \<Rightarrow> (toml \<Rightarrow> 'a option) \<Rightarrow> string \<Rightarrow> (string \<times> toml) list \<Rightarrow> 'a option" where
  "field dflt de k tb = (case map_of tb k of None \<Rightarrow> dflt | Some v \<Rightarrow> de v)"

definition opt_field :: "(toml \<Rightarrow> 'a option) \<Rightarrow> string \<Rightarrow> (string \<times> toml) list \<Rightarrow> 'a option option" where
  "opt_field de k tb = field (Some None) (\<lambda>v. map_option Some (de v)) k tb"

text \<open>A hash map is a table whose values are deserialized one by one.\<close>

fun de_entries :: "(toml \<Rightarrow> 'a option) \<Rightarrow> (string \<times> toml) list \<Rightarrow> (string, 'a) hash option" where
  "de_entries de [] = Some []"
| "de_entries de ((k, v) # tb) = do { x \<leftarrow> de v; h \<leftarrow> de_entries de tb; Some ((k, x) # h) }"

definition de_hash :: "(toml \<Rightarrow> 'a option) \<Rightarrow> toml \<Rightarrow> (string, 'a) hash option" where
  "de_hash de v = as_table v \<bind> de_entries de"

section \<open>Deserialization\<close>

definition de_transport_type :: "toml \<Rightarrow> transport_type option" where
  "de_transport_type v = do { s \<leftarrow> as_string v;
     if s = ''tcp'' then Some Transport_Tcp
     else if s = ''tls'' then Some Transport_Tls
     else if s = ''noise'' then Some Transport_Noise
     else if s = ''websocket'' then Some Transport_Websocket
     else None }"

definition de_service_type :: "toml \<Rightarrow> service_type option" where
  "de_service_type v = do { s \<leftarrow> as_string v;
     if s = ''tcp'' then Some Service_Tcp
     else if s = ''udp'' then Some Service_Udp
     else if s = ''http'' then Some Service_Http
     else None }"

definition de_client_service :: "toml \<Rightarrow> client_service option" where
  "de_client_service v = do {
     tb \<leftarrow> as_table v;
     known [''type'', ''local_addr'', ''prefer_ipv6'', ''token'', ''nodelay'', ''retry_interval''] tb;
     ty \<leftarrow> field (Some default_service_type) de_service_type ''type'' tb;
     addr \<leftarrow> field None as_string ''local_addr'' tb;
     v6 \<leftarrow> field (Some False) as_bool ''prefer_ipv6'' tb;
     token \<leftarrow> opt_field as_string ''token'' tb;
     nodelay \<leftarrow> opt_field as_bool ''nodelay'' tb;
     retry \<leftarrow> opt_field as_u64 ''retry_interval'' tb;
     Some \<lparr>cs_type = ty, cs_name = [], cs_local_addr = addr, cs_prefer_ipv6 = v6, cs_token = token,
           cs_nodelay = nodelay, cs_retry_interval = retry\<rparr> }"

definition de_server_service :: "toml \<Rightarrow> server_service option" where
  "de_server_service v = do {
     tb \<leftarrow> as_table v;
     known [''type'', ''bind_addr'', ''token'', ''nodelay''] tb;
     ty \<leftarrow> field (Some default_service_type) de_service_type ''type'' tb;
     addr \<leftarrow> field None as_string ''bind_addr'' tb;
     token \<leftarrow> opt_field as_string ''token'' tb;
     nodelay \<leftarrow> opt_field as_bool ''nodelay'' tb;
     Some \<lparr>ss_type = ty, ss_name = [], ss_bind_addr = addr, ss_token = token, ss_nodelay = nodelay\<rparr> }"

definition de_tls :: "toml \<Rightarrow> tls_config option" where
  "de_tls v = do {
     tb \<leftarrow> as_table v;
     known [''hostname'', ''trusted_root'', ''pkcs12'', ''pkcs12_password''] tb;
     host \<leftarrow> opt_field as_string ''hostname'' tb;
     cert \<leftarrow> opt_field as_string ''trusted_root'' tb;
     p12 \<leftarrow> opt_field as_string ''pkcs12'' tb;
     pw \<leftarrow> opt_field as_string ''pkcs12_password'' tb;
     Some \<lparr>tls_hostname = host, tls_trusted_root = cert, tls_pkcs12 = p12, tls_pkcs12_password = pw\<rparr> }"

definition default_noise_pattern :: string where
  "default_noise_pattern = ''Noise_NK_25519_ChaChaPoly_BLAKE2s''"

definition de_noise :: "toml \<Rightarrow> noise_config option" where
  "de_noise v = do {
     tb \<leftarrow> as_table v;
     known [''pattern'', ''local_private_key'', ''remote_public_key''] tb;
     pat \<leftarrow> field (Some default_noise_pattern) as_string ''pattern'' tb;
     private \<leftarrow> opt_field as_string ''local_private_key'' tb;
     public \<leftarrow> opt_field as_string ''remote_public_key'' tb;
     Some \<lparr>noise_pattern = pat, noise_local_private_key = private, noise_remote_public_key = public\<rparr> }"

definition de_websocket :: "toml \<Rightarrow> websocket_config option" where
  "de_websocket v = do {
     tb \<leftarrow> as_table v;
     known [''tls''] tb;
     secure \<leftarrow> field None as_bool ''tls'' tb;
     Some \<lparr>ws_tls = secure\<rparr> }"

definition de_tcp :: "(string \<Rightarrow> url option) \<Rightarrow> toml \<Rightarrow> tcp_config option" where
  "de_tcp parse_url v = do {
     tb \<leftarrow> as_table v;
     known [''nodelay'', ''keepalive_secs'', ''keepalive_interval'', ''proxy''] tb;
     nodelay \<leftarrow> field (Some (tcp_nodelay default_tcp_config)) as_bool ''nodelay'' tb;
     ks \<leftarrow> field (Some (tcp_keepalive_secs default_tcp_config)) as_u64 ''keepalive_secs'' tb;
     ki \<leftarrow> field (Some (tcp_keepalive_interval default_tcp_config)) as_u64 ''keepalive_interval'' tb;
     proxy \<leftarrow> opt_field (\<lambda>v. as_string v \<bind> parse_url) ''proxy'' tb;
     Some \<lparr>tcp_nodelay = nodelay, tcp_keepalive_secs = ks, tcp_keepalive_interval = ki, tcp_proxy = proxy\<rparr> }"

definition de_transport :: "(string \<Rightarrow> url option) \<Rightarrow> toml \<Rightarrow> transport_config option" where
  "de_transport parse_url v = do {
     tb \<leftarrow> as_table v;
     known [''type'', ''tcp'', ''tls'', ''noise'', ''websocket''] tb;
     ty \<leftarrow> field None de_transport_type ''type'' tb;
     t \<leftarrow> field (Some default_tcp_config) (de_tcp parse_url) ''tcp'' tb;
     l \<leftarrow> opt_field de_tls ''tls'' tb;
     n \<leftarrow> opt_field de_noise ''noise'' tb;
     w \<leftarrow> opt_field de_websocket ''websocket'' tb;
     Some \<lparr>transport_type = ty, tcp = t, tls = l, noise = n, websocket = w\<rparr> }"

definition de_client_config :: "(string \<Rightarrow> url option) \<Rightarrow> toml \<Rightarrow> client_config option" where
  "de_client_config parse_url v = do {
     tb \<leftarrow> as_table v;
     known [''remote_addr'', ''default_token'', ''prefer_ipv6'', ''services'', ''transport'', ''heartbeat_timeout'',
            ''retry_interval''] tb;
     addr \<leftarrow> field None as_string ''remote_addr'' tb;
     token \<leftarrow> opt_field as_string ''default_token'' tb;
     v6 \<leftarrow> opt_field as_bool ''prefer_ipv6'' tb;
     services \<leftarrow> field None (de_hash de_client_service) ''services'' tb;
     transport \<leftarrow> field (Some default_transport_config) (de_transport parse_url) ''transport'' tb;
     timeout \<leftarrow> field (Some DEFAULT_HEARTBEAT_TIMEOUT_SECS) as_u64 ''heartbeat_timeout'' tb;
     retry \<leftarrow> field (Some DEFAULT_CLIENT_RETRY_INTERVAL_SECS) as_u64 ''retry_interval'' tb;
     Some \<lparr>cc_remote_addr = addr, cc_default_token = token, cc_prefer_ipv6 = v6, cc_services = services,
           cc_transport = transport, cc_heartbeat_timeout = timeout, cc_retry_interval = retry\<rparr> }"

definition de_server_config :: "(string \<Rightarrow> url option) \<Rightarrow> toml \<Rightarrow> server_config option" where
  "de_server_config parse_url v = do {
     tb \<leftarrow> as_table v;
     known [''bind_addr'', ''default_token'', ''jwt_secret'', ''default_cloud_backend'', ''services'', ''transport'',
            ''heartbeat_interval''] tb;
     addr \<leftarrow> field None as_string ''bind_addr'' tb;
     token \<leftarrow> opt_field as_string ''default_token'' tb;
     jwt \<leftarrow> field None as_string ''jwt_secret'' tb;
     cloud \<leftarrow> opt_field as_string ''default_cloud_backend'' tb;
     services \<leftarrow> field None (de_hash de_server_service) ''services'' tb;
     transport \<leftarrow> field (Some default_transport_config) (de_transport parse_url) ''transport'' tb;
     interval \<leftarrow> field (Some DEFAULT_HEARTBEAT_INTERVAL_SECS) as_u64 ''heartbeat_interval'' tb;
     Some \<lparr>sc_bind_addr = addr, sc_default_token = token, sc_jwt_secret = jwt, sc_default_cloud_backend = cloud,
           sc_services = services, sc_transport = transport, sc_heartbeat_interval = interval\<rparr> }"

definition de_config :: "(string \<Rightarrow> url option) \<Rightarrow> toml \<Rightarrow> config option" where
  "de_config parse_url v = do {
     tb \<leftarrow> as_table v;
     known [''server'', ''client''] tb;
     sv \<leftarrow> opt_field (de_server_config parse_url) ''server'' tb;
     cl \<leftarrow> opt_field (de_client_config parse_url) ''client'' tb;
     Some \<lparr>server = sv, client = cl\<rparr> }"

text \<open>\<open>toml::from_str\<close>: the parser of the library, then the derived implementation.\<close>

definition toml_from_str ::
  "(string \<Rightarrow> config_err + toml) \<Rightarrow> (string \<Rightarrow> url option) \<Rightarrow> string \<Rightarrow> config_err + config" where
  "toml_from_str parse parse_url s =
     rbind (parse s) (\<lambda>v. ok_or (de_config parse_url v) (Bad_Config ''invalid document''))"

section \<open>Serialization\<close>

text \<open>
  \<open>None\<close> is left out of a table, and so are the names of the services, which are marked \<open>skip\<close>. Integers
  above the largest \<open>i64\<close> are refused by the library; see \<open>config_writable\<close>.
\<close>

definition opt_entry :: "('a \<Rightarrow> toml) \<Rightarrow> string \<Rightarrow> 'a option \<Rightarrow> (string \<times> toml) list" where
  "opt_entry ser k x = (case x of None \<Rightarrow> [] | Some a \<Rightarrow> [(k, ser a)])"

definition ser_u64 :: "u64 \<Rightarrow> toml" where
  "ser_u64 n = T_Int (uint n)"

definition ser_hash :: "('a \<Rightarrow> toml) \<Rightarrow> (string, 'a) hash \<Rightarrow> toml" where
  "ser_hash ser h = T_Table (map (\<lambda>(k, x). (k, ser x)) h)"

fun ser_transport_type :: "transport_type \<Rightarrow> toml" where
  "ser_transport_type Transport_Tcp = T_String ''tcp''"
| "ser_transport_type Transport_Tls = T_String ''tls''"
| "ser_transport_type Transport_Noise = T_String ''noise''"
| "ser_transport_type Transport_Websocket = T_String ''websocket''"

fun ser_service_type :: "service_type \<Rightarrow> toml" where
  "ser_service_type Service_Tcp = T_String ''tcp''"
| "ser_service_type Service_Udp = T_String ''udp''"
| "ser_service_type Service_Http = T_String ''http''"

definition ser_client_service :: "client_service \<Rightarrow> toml" where
  "ser_client_service s = T_Table
     ((''type'', ser_service_type (cs_type s)) # (''local_addr'', T_String (cs_local_addr s))
      # (''prefer_ipv6'', T_Bool (cs_prefer_ipv6 s)) # opt_entry T_String ''token'' (cs_token s)
      @ opt_entry T_Bool ''nodelay'' (cs_nodelay s) @ opt_entry ser_u64 ''retry_interval'' (cs_retry_interval s))"

definition ser_server_service :: "server_service \<Rightarrow> toml" where
  "ser_server_service s = T_Table
     ((''type'', ser_service_type (ss_type s)) # (''bind_addr'', T_String (ss_bind_addr s))
      # opt_entry T_String ''token'' (ss_token s) @ opt_entry T_Bool ''nodelay'' (ss_nodelay s))"

definition ser_tls :: "tls_config \<Rightarrow> toml" where
  "ser_tls t = T_Table
     (opt_entry T_String ''hostname'' (tls_hostname t) @ opt_entry T_String ''trusted_root'' (tls_trusted_root t)
      @ opt_entry T_String ''pkcs12'' (tls_pkcs12 t) @ opt_entry T_String ''pkcs12_password'' (tls_pkcs12_password t))"

definition ser_noise :: "noise_config \<Rightarrow> toml" where
  "ser_noise n = T_Table
     ((''pattern'', T_String (noise_pattern n)) # opt_entry T_String ''local_private_key'' (noise_local_private_key n)
      @ opt_entry T_String ''remote_public_key'' (noise_remote_public_key n))"

definition ser_websocket :: "websocket_config \<Rightarrow> toml" where
  "ser_websocket w = T_Table [(''tls'', T_Bool (ws_tls w))]"

definition ser_tcp :: "(url \<Rightarrow> string) \<Rightarrow> tcp_config \<Rightarrow> toml" where
  "ser_tcp url_string t = T_Table
     ((''nodelay'', T_Bool (tcp_nodelay t)) # (''keepalive_secs'', ser_u64 (tcp_keepalive_secs t))
      # (''keepalive_interval'', ser_u64 (tcp_keepalive_interval t))
      # opt_entry (\<lambda>u. T_String (url_string u)) ''proxy'' (tcp_proxy t))"

definition ser_transport :: "(url \<Rightarrow> string) \<Rightarrow> transport_config \<Rightarrow> toml" where
  "ser_transport url_string c = T_Table
     ((''type'', ser_transport_type (transport_type c)) # (''tcp'', ser_tcp url_string (tcp c))
      # opt_entry ser_tls ''tls'' (tls c) @ opt_entry ser_noise ''noise'' (noise c)
      @ opt_entry ser_websocket ''websocket'' (websocket c))"

definition ser_client_config :: "(url \<Rightarrow> string) \<Rightarrow> client_config \<Rightarrow> toml" where
  "ser_client_config url_string c = T_Table
     ((''remote_addr'', T_String (cc_remote_addr c)) # opt_entry T_String ''default_token'' (cc_default_token c)
      @ opt_entry T_Bool ''prefer_ipv6'' (cc_prefer_ipv6 c)
      @ [(''services'', ser_hash ser_client_service (cc_services c)),
         (''transport'', ser_transport url_string (cc_transport c)),
         (''heartbeat_timeout'', ser_u64 (cc_heartbeat_timeout c)),
         (''retry_interval'', ser_u64 (cc_retry_interval c))])"

definition ser_server_config :: "(url \<Rightarrow> string) \<Rightarrow> server_config \<Rightarrow> toml" where
  "ser_server_config url_string c = T_Table
     ((''bind_addr'', T_String (sc_bind_addr c)) # opt_entry T_String ''default_token'' (sc_default_token c)
      @ (''jwt_secret'', T_String (sc_jwt_secret c))
      # opt_entry T_String ''default_cloud_backend'' (sc_default_cloud_backend c)
      @ [(''services'', ser_hash ser_server_service (sc_services c)),
         (''transport'', ser_transport url_string (sc_transport c)),
         (''heartbeat_interval'', ser_u64 (sc_heartbeat_interval c))])"

definition ser_config :: "(url \<Rightarrow> string) \<Rightarrow> config \<Rightarrow> toml" where
  "ser_config url_string c = T_Table
     (opt_entry (ser_server_config url_string) ''server'' (server c)
      @ opt_entry (ser_client_config url_string) ''client'' (client c))"

section \<open>Round trip\<close>

named_theorems toml_simps \<open>rules to read a table that was written\<close>

declare map_of_append [simp del]

lemma map_of_opt_entry [toml_simps]:
  "map_of tb k = None \<Longrightarrow> map_of (opt_entry ser k x @ tb) k = map_option ser x"
  "k' \<noteq> k \<Longrightarrow> map_of (opt_entry ser k x @ tb) k' = map_of tb k'"
  "map_of (opt_entry ser k x) k = map_option ser x"
  "k' \<noteq> k \<Longrightarrow> map_of (opt_entry ser k x) k' = None"
  by (simp_all add: opt_entry_def split: option.split)

lemma known_Cons [toml_simps]:
  "known ks [] = Some ()"
  "known ks ((k, v) # tb) = (if k \<in> set ks then known ks tb else None)"
  "known ks (opt_entry ser k x @ tb) = (if x = None \<or> k \<in> set ks then known ks tb else None)"
  "known ks (opt_entry ser k x) = (if x = None \<or> k \<in> set ks then Some () else None)"
  by (simp_all add: known_def opt_entry_def split: option.split)

lemma field_None [toml_simps]: "map_of tb k = None \<Longrightarrow> field dflt de k tb = dflt"
  by (simp add: field_def)

lemma field_Some [toml_simps]: "map_of tb k = Some v \<Longrightarrow> field dflt de k tb = de v"
  by (simp add: field_def)

text \<open>An optional field through what the table has for it.\<close>

definition read_opt :: "(toml \<Rightarrow> 'a option) \<Rightarrow> toml option \<Rightarrow> 'a option option" where
  "read_opt de m = (case m of None \<Rightarrow> Some None | Some v \<Rightarrow> map_option Some (de v))"

lemma opt_field_read [toml_simps]: "opt_field de k tb = read_opt de (map_of tb k)"
  by (simp add: opt_field_def field_def read_opt_def)

lemma read_optI: "pred_option (\<lambda>a. de (ser a) = Some a) x \<Longrightarrow> read_opt de (map_option ser x) = Some x"
  by (cases x) (simp_all add: read_opt_def)

definition u64_writable :: "u64 \<Rightarrow> bool" where
  "u64_writable n = (uint n < 2 ^ 63)"

lemma as_ser_u64 [toml_simps]: "u64_writable n \<Longrightarrow> as_u64 (ser_u64 n) = Some n"
  by (simp add: ser_u64_def u64_writable_def)

lemma read_opts [toml_simps]:
  "read_opt as_string (map_option T_String x) = Some x"
  "read_opt as_bool (map_option T_Bool y) = Some y"
  "pred_option u64_writable z \<Longrightarrow> read_opt as_u64 (map_option ser_u64 z) = Some z"
  by (rule read_optI; simp add: as_ser_u64 pred_option_def)+

lemma de_ser_types [simp]:
  "de_transport_type (ser_transport_type ty) = Some ty"
  "de_service_type (ser_service_type st) = Some st"
  by (cases ty; simp add: de_transport_type_def) (cases st; simp add: de_service_type_def)

lemma de_ser_service [simp]:
  "pred_option u64_writable (cs_retry_interval s) \<Longrightarrow> de_client_service (ser_client_service s) = Some (s\<lparr>cs_name := []\<rparr>)"
  "de_server_service (ser_server_service sv) = Some (sv\<lparr>ss_name := []\<rparr>)"
  by (simp_all add: de_client_service_def ser_client_service_def de_server_service_def ser_server_service_def toml_simps)

lemma de_ser_parts [simp]:
  "de_tls (ser_tls t) = Some t"
  "de_noise (ser_noise n) = Some n"
  "de_websocket (ser_websocket w) = Some w"
  by (simp_all add: de_tls_def ser_tls_def de_noise_def ser_noise_def de_websocket_def ser_websocket_def toml_simps)

lemma read_parts [toml_simps]:
  "read_opt de_tls (map_option ser_tls x) = Some x"
  "read_opt de_noise (map_option ser_noise y) = Some y"
  "read_opt de_websocket (map_option ser_websocket z) = Some z"
  by (rule read_optI; simp add: pred_option_def)+

text \<open>What the library can write and read again.\<close>

definition tcp_writable :: "(string \<Rightarrow> url option) \<Rightarrow> (url \<Rightarrow> string) \<Rightarrow> tcp_config \<Rightarrow> bool" where
  "tcp_writable parse_url url_string t =
     (u64_writable (tcp_keepalive_secs t) \<and> u64_writable (tcp_keepalive_interval t) \<and>
      pred_option (\<lambda>u. parse_url (url_string u) = Some u) (tcp_proxy t))"

lemma de_ser_tcp [simp]:
  assumes "tcp_writable parse_url url_string t"
  shows "de_tcp parse_url (ser_tcp url_string t) = Some t"
proof -
  have "read_opt (\<lambda>v. as_string v \<bind> parse_url) (map_option (\<lambda>u. T_String (url_string u)) (tcp_proxy t)) = Some (tcp_proxy t)"
    by (rule read_optI) (use assms in \<open>simp add: tcp_writable_def\<close>)
  then show ?thesis using assms by (simp add: de_tcp_def ser_tcp_def toml_simps tcp_writable_def)
qed

lemma de_ser_transport [simp]:
  "tcp_writable parse_url url_string (tcp c) \<Longrightarrow> de_transport parse_url (ser_transport url_string c) = Some c"
  by (simp add: de_transport_def ser_transport_def toml_simps)

lemma de_ser_hash:
  assumes "\<And>k x. (k, x) \<in> set h \<Longrightarrow> de (ser x) = Some (f x)"
  shows "de_hash de (ser_hash ser h) = Some (map (\<lambda>(k, x). (k, f x)) h)"
proof -
  have "de_entries de (map (\<lambda>(k, x). (k, ser x)) h) = Some (map (\<lambda>(k, x). (k, f x)) h)"
    using assms
  proof (induction h)
    case (Cons e h)
    obtain k x where e: "e = (k, x)" by (cases e)
    have "de (ser x) = Some (f x)" using Cons.prems [of k x] e by simp
    moreover have "de_entries de (map (\<lambda>(k, x). (k, ser x)) h) = Some (map (\<lambda>(k, x). (k, f x)) h)"
      by (rule Cons.IH) (rule Cons.prems, auto)
    ultimately show ?case by (simp add: e)
  qed simp
  then show ?thesis by (simp add: de_hash_def ser_hash_def)
qed

definition unnamed_server :: "server_config \<Rightarrow> server_config" where
  "unnamed_server c = c\<lparr>sc_services := map (\<lambda>(k, s). (k, s\<lparr>ss_name := []\<rparr>)) (sc_services c)\<rparr>"

definition unnamed_client :: "client_config \<Rightarrow> client_config" where
  "unnamed_client c = c\<lparr>cc_services := map (\<lambda>(k, s). (k, s\<lparr>cs_name := []\<rparr>)) (cc_services c)\<rparr>"

definition server_writable :: "(string \<Rightarrow> url option) \<Rightarrow> (url \<Rightarrow> string) \<Rightarrow> server_config \<Rightarrow> bool" where
  "server_writable parse_url url_string c =
     (tcp_writable parse_url url_string (tcp (sc_transport c)) \<and> u64_writable (sc_heartbeat_interval c))"

definition client_writable :: "(string \<Rightarrow> url option) \<Rightarrow> (url \<Rightarrow> string) \<Rightarrow> client_config \<Rightarrow> bool" where
  "client_writable parse_url url_string c =
     (tcp_writable parse_url url_string (tcp (cc_transport c)) \<and> u64_writable (cc_heartbeat_timeout c) \<and>
      u64_writable (cc_retry_interval c) \<and> list_all (\<lambda>(k, s). pred_option u64_writable (cs_retry_interval s)) (cc_services c))"

definition config_writable :: "(string \<Rightarrow> url option) \<Rightarrow> (url \<Rightarrow> string) \<Rightarrow> config \<Rightarrow> bool" where
  "config_writable parse_url url_string c =
     (pred_option (server_writable parse_url url_string) (server c) \<and>
      pred_option (client_writable parse_url url_string) (client c))"

lemma de_ser_server [simp]:
  assumes "server_writable parse_url url_string c"
  shows "de_server_config parse_url (ser_server_config url_string c) = Some (unnamed_server c)"
proof -
  have "de_hash de_server_service (ser_hash ser_server_service (sc_services c)) = Some (sc_services (unnamed_server c))"
    by (simp add: unnamed_server_def de_ser_hash)
  then show ?thesis
    using assms
    by (simp add: de_server_config_def ser_server_config_def toml_simps server_writable_def unnamed_server_def)
qed

lemma de_ser_client [simp]:
  assumes "client_writable parse_url url_string c"
  shows "de_client_config parse_url (ser_client_config url_string c) = Some (unnamed_client c)"
proof -
  have "de_hash de_client_service (ser_hash ser_client_service (cc_services c)) = Some (cc_services (unnamed_client c))"
    using assms unfolding unnamed_client_def
    by (subst de_ser_hash [where f = "\<lambda>s. s\<lparr>cs_name := []\<rparr>"]) (auto simp: client_writable_def list_all_iff)
  then show ?thesis
    using assms
    by (simp add: de_client_config_def ser_client_config_def toml_simps client_writable_def unnamed_client_def)
qed

lemma de_ser_config:
  assumes "config_writable parse_url url_string c"
  shows "de_config parse_url (ser_config url_string c) =
    Some \<lparr>server = map_option unnamed_server (server c), client = map_option unnamed_client (client c)\<rparr>"
  using assms
  by (cases "server c"; cases "client c")
    (simp_all add: config_writable_def de_config_def ser_config_def opt_entry_def known_Cons opt_field_read read_opt_def)

lemma validate_unnamed_server:
  assumes "server_services_ok (sc_services c)" "validate_transport_config (sc_transport c) True = Inr ()"
  shows "validate_server_config (unnamed_server c) = Inr c"
proof -
  have "map (filled_server_service (sc_default_token c)) (map (\<lambda>(k, s). (k, s\<lparr>ss_name := []\<rparr>)) (sc_services c)) = sc_services c"
    using assms(1) by (auto simp: server_services_ok_def list_all_iff filled_server_service_def intro!: map_idI)
  moreover have "list_all (\<lambda>(n, s). ss_token s \<noteq> None) (map (\<lambda>(k, s). (k, s\<lparr>ss_name := []\<rparr>)) (sc_services c))"
    using assms(1) by (auto simp: server_services_ok_def list_all_iff)
  ultimately show ?thesis
    using assms(2) by (simp add: validate_server_config_def result_simps validate_server_services_iff unnamed_server_def
        list_all_iff)
qed

lemma validate_unnamed_client:
  assumes "client_services_ok (cc_services c)" "validate_transport_config (cc_transport c) False = Inr ()"
  shows "validate_client_config (unnamed_client c) = Inr c"
proof -
  have "map (filled_client_service (cc_default_token c) (cc_retry_interval c))
      (map (\<lambda>(k, s). (k, s\<lparr>cs_name := []\<rparr>)) (cc_services c)) = cc_services c"
    using assms(1) by (auto simp: client_services_ok_def list_all_iff filled_client_service_def intro!: map_idI)
  moreover have "list_all (\<lambda>(n, s). cs_token s \<noteq> None) (map (\<lambda>(k, s). (k, s\<lparr>cs_name := []\<rparr>)) (cc_services c))"
    using assms(1) by (auto simp: client_services_ok_def list_all_iff)
  ultimately show ?thesis
    using assms(2) by (simp add: validate_client_config_def result_simps validate_client_services_iff unnamed_client_def
        list_all_iff)
qed

declare map_of_append [simp]

section \<open>Properties\<close>

text \<open>
  C34. A configuration the program may run with is the one it reads from the document the derived
  serialization writes for it: reading inverts writing on every struct, defaults and options included, and
  the validation restores the names that are not written.
\<close>

theorem written_config_is_read_back:
  assumes "runtime_ok cfg" "config_writable parse_url url_string cfg" "parse s = Inr (ser_config url_string cfg)"
  shows "from_str (toml_from_str parse parse_url) s = Inr cfg"
proof -
  have "toml_from_str parse parse_url s =
      Inr \<lparr>server = map_option unnamed_server (server cfg), client = map_option unnamed_client (client cfg)\<rparr>"
    using assms(2,3) by (simp add: toml_from_str_def de_ser_config)
  then show ?thesis
    using assms(1)
    by (cases "server cfg"; cases "client cfg")
      (auto simp: from_str_def in_context_def update_option_def runtime_ok_def validate_unnamed_server
        validate_unnamed_client)
qed

definition saved_config :: config where
  "saved_config =
     \<lparr>server = Some (default_server_config\<lparr>sc_bind_addr := ''0.0.0.0:2333'', sc_services :=
        [(''db'', (server_service_with_name ''db'')\<lparr>ss_type := Service_Udp, ss_token := Some ''own''\<rparr>)]\<rparr>),
      client = None\<rparr>"

theorem written_config_is_read_back_witness:
  "from_str (toml_from_str (\<lambda>_. Inr (ser_config (\<lambda>_. []) saved_config)) (\<lambda>_. None)) ''doc'' = Inr saved_config"
  by (rule written_config_is_read_back [where url_string = "\<lambda>_. []"])
    (simp_all add: runtime_ok_def saved_config_def server_services_ok_def server_service_with_name_def
      validate_transport_config_def default_server_config_def default_transport_config_def default_tcp_config_def
      config_writable_def server_writable_def tcp_writable_def u64_writable_def DEFAULT_HEARTBEAT_INTERVAL_SECS_def)

text \<open>The documents of \<open>examples/\<close> that have a server part, and the first one of the README.\<close>

definition example_server :: "(string \<times> toml) list \<Rightarrow> (string \<times> toml) list \<Rightarrow> toml" where
  "example_server transport services =
     T_Table ([(''bind_addr'', T_String ''0.0.0.0:2333''), (''default_token'', T_String ''123'')] @ transport
       @ [(''services'', T_Table services)])"

definition exposed :: "toml" where
  "exposed = T_Table [(''bind_addr'', T_String ''0.0.0.0:5202'')]"

definition exposed_as :: "string \<Rightarrow> toml" where
  "exposed_as ty = T_Table [(''type'', T_String ty), (''bind_addr'', T_String ''0.0.0.0:5202'')]"

definition forwarded :: toml where
  "forwarded = T_Table [(''local_addr'', T_String ''127.0.0.1:80'')]"

definition minimal_server :: toml where
  "minimal_server = T_Table [(''server'', example_server [] [(''foo1'', exposed)])]"

definition udp_server :: toml where
  "udp_server = T_Table [(''server'', example_server [] [(''foo1'', exposed_as ''udp'')])]"

definition iperf3_server :: toml where
  "iperf3_server = T_Table [(''server'', example_server []
     [(''iperf3-udp'', exposed_as ''udp''), (''iperf3-tcp'', exposed_as ''tcp'')])]"

definition noise_server :: toml where
  "noise_server = T_Table [(''server'', example_server [(''transport'', T_Table [(''type'', T_String ''noise''),
     (''noise'', T_Table [(''local_private_key'', T_String ''QLYMByBnjgM254zT6YKaBVvuAA61swyZfFxoA/SKZHM='')])])]
     [(''foo1'', exposed)])]"

definition tls_server :: toml where
  "tls_server = T_Table [(''server'', example_server [(''transport'', T_Table [(''type'', T_String ''tls''),
     (''tls'', T_Table [(''pkcs12'', T_String ''examples/tls/identity.pfx''), (''pkcs12_password'', T_String ''1234'')])])]
     [(''foo1'', exposed)])]"

definition minimal_client :: toml where
  "minimal_client = T_Table [(''client'', T_Table
     [(''remote_addr'', T_String ''localhost:2333''), (''default_token'', T_String ''123''),
      (''services'', T_Table [(''foo1'', forwarded)])])]"

definition unified_example :: toml where
  "unified_example = T_Table
     [(''client'', T_Table [(''remote_addr'', T_String ''localhost:2333''), (''default_token'', T_String ''123''),
        (''services'', T_Table [(''foo1'', forwarded)])]),
      (''server'', example_server [] [(''foo1'', exposed)])]"

definition quickstart_server :: toml where
  "quickstart_server = T_Table [(''server'', T_Table [(''bind_addr'', T_String ''0.0.0.0:2333''),
     (''services'', T_Table [(''my_nas_ssh'', T_Table [(''token'', T_String ''use_a_secret_that_only_you_know''),
        (''bind_addr'', T_String ''0.0.0.0:5202'')])])])]"

text \<open>The document the testing guide gives for the HTTP application has no services.\<close>

definition guide_server :: toml where
  "guide_server = T_Table [(''server'', T_Table [(''bind_addr'', T_String ''127.0.0.1:3000''),
     (''jwt_secret'', T_String ''your-super-secret-and-long-jwt-secret''),
     (''default_cloud_backend'', T_String ''http://127.0.0.1:4000'')])]"

text \<open>The documents that the tests call invalid.\<close>

definition missing_tls_server :: toml where
  "missing_tls_server = T_Table [(''server'', T_Table [(''bind_addr'', T_String ''0.0.0.0:2333''),
     (''transport'', T_Table [(''type'', T_String ''tls''), (''tls'', T_Table [(''pkcs12_password'', T_String ''password'')])]),
     (''services'', T_Table [(''service1'', T_Table [(''token'', T_String ''whatever''),
        (''bind_addr'', T_String ''0.0.0.0:8081'')])])])]"

lemma field_required: "field None de k tb = Some x \<Longrightarrow> \<exists>v. map_of tb k = Some v"
  by (auto simp: field_def split: option.splits)

lemma known_keys: "known ks tb = Some u \<Longrightarrow> fst ` set tb \<subseteq> set ks"
  by (auto simp: known_def list_all_iff split: if_splits)

text \<open>A server part names its address, the secret of its tokens and its services, and nothing it does not know.\<close>

lemma de_server_fields:
  assumes "de_server_config parse_url v = Some sc"
  obtains tb where "v = T_Table tb" "map_of tb ''bind_addr'' \<noteq> None" "map_of tb ''jwt_secret'' \<noteq> None"
    "map_of tb ''services'' \<noteq> None"
    "fst ` set tb \<subseteq> {''bind_addr'', ''default_token'', ''jwt_secret'', ''default_cloud_backend'', ''services'',
      ''transport'', ''heartbeat_interval''}"
proof -
  obtain tb where v: "v = T_Table tb" using assms by (cases v) (simp_all add: de_server_config_def)
  show thesis
    by (rule that [OF v])
      (use assms in \<open>auto simp: v de_server_config_def bind_eq_Some_conv dest!: field_required known_keys\<close>)
qed

text \<open>A transport table without a type is an error as well, although the type has a default elsewhere.\<close>

lemma transport_type_required:
  "map_of tb ''type'' = None \<Longrightarrow> de_transport parse_url (T_Table tb) = None"
  by (auto simp: de_transport_def field_def bind_eq_Some_conv intro!: option.expand)

definition necessary_server_keys :: "string list" where
  "necessary_server_keys = [''bind_addr'', ''jwt_secret'', ''services'']"

definition shipped_servers :: "toml list" where
  "shipped_servers = [minimal_server, udp_server, iperf3_server, noise_server, tls_server, unified_example, quickstart_server,
     guide_server]"

definition lacks_server_key :: "toml \<Rightarrow> bool" where
  "lacks_server_key d =
     (case d of
        T_Table tb \<Rightarrow>
          (case map_of tb ''server'' of
             Some (T_Table st) \<Rightarrow> list_ex (\<lambda>k. map_of st k = None) necessary_server_keys
           | _ \<Rightarrow> False)
      | _ \<Rightarrow> False)"

lemma lacks_server_key_rejected:
  assumes "lacks_server_key d"
  shows "de_config parse_url d = None"
proof -
  obtain tb where d: "d = T_Table tb" using assms by (cases d) (simp_all add: lacks_server_key_def)
  obtain v where v: "map_of tb ''server'' = Some v" using assms d by (auto simp: lacks_server_key_def split: option.splits)
  obtain st where st: "v = T_Table st" using assms d v by (cases v) (simp_all add: lacks_server_key_def)
  obtain k where k: "map_of st k = None" "k \<in> set necessary_server_keys"
    using assms d v st by (auto simp: lacks_server_key_def list_ex_iff)
  have "de_server_config parse_url (T_Table st) = None"
  proof (rule ccontr)
    assume "de_server_config parse_url (T_Table st) \<noteq> None"
    then obtain sc where "de_server_config parse_url (T_Table st) = Some sc" by blast
    then show False by (rule de_server_fields) (use k in \<open>auto simp: necessary_server_keys_def\<close>)
  qed
  then show ?thesis using d v st by (simp add: de_config_def opt_field_def field_def)
qed

lemmas shipped_defs = shipped_servers_def minimal_server_def udp_server_def iperf3_server_def noise_server_def
  tls_server_def unified_example_def quickstart_server_def guide_server_def example_server_def

text \<open>
  C36. A document whose server part lacks \<open>jwt_secret\<close>, or one of the other keys without a default, is never
  accepted, whatever else it says. So every server document of the examples and the one of the quick
  start, which have no secret, and the one of the testing guide, which has no services, are rejected; the
  document \<open>minimal/client.toml\<close> is accepted, with the default token filled in.
\<close>

theorem shipped_servers_are_rejected:
  shows "(parse s = Inr d \<and> lacks_server_key d \<longrightarrow>
      from_str (toml_from_str parse parse_url) s =
        Inl (In_Context ''Failed to parse the config'' (Bad_Config ''invalid document''))) \<and>
    list_all (\<lambda>d. isl (from_str (toml_from_str (\<lambda>_. Inr d) parse_url) [])) shipped_servers \<and>
    from_str (toml_from_str (\<lambda>_. Inr minimal_client) parse_url) [] =
      Inr \<lparr>server = None, client = Some
        \<lparr>cc_remote_addr = ''localhost:2333'', cc_default_token = Some ''123'', cc_prefer_ipv6 = None,
         cc_services = [(''foo1'', \<lparr>cs_type = Service_Tcp, cs_name = ''foo1'', cs_local_addr = ''127.0.0.1:80'',
           cs_prefer_ipv6 = False, cs_token = Some ''123'', cs_nodelay = None, cs_retry_interval = Some 1\<rparr>)],
         cc_transport = default_transport_config, cc_heartbeat_timeout = 40, cc_retry_interval = 1\<rparr>\<rparr>"
proof (intro conjI)
  show "parse s = Inr d \<and> lacks_server_key d \<longrightarrow>
      from_str (toml_from_str parse parse_url) s =
        Inl (In_Context ''Failed to parse the config'' (Bad_Config ''invalid document''))"
    using lacks_server_key_rejected by (simp add: from_str_def toml_from_str_def in_context_def)
  have "list_all lacks_server_key shipped_servers"
    by (simp add: shipped_defs lacks_server_key_def necessary_server_keys_def)
  then show "list_all (\<lambda>d. isl (from_str (toml_from_str (\<lambda>_. Inr d) parse_url) [])) shipped_servers"
    by (simp add: list_all_iff from_str_def toml_from_str_def in_context_def lacks_server_key_rejected)
  show "from_str (toml_from_str (\<lambda>_. Inr minimal_client) parse_url) [] =
      Inr \<lparr>server = None, client = Some
        \<lparr>cc_remote_addr = ''localhost:2333'', cc_default_token = Some ''123'', cc_prefer_ipv6 = None,
         cc_services = [(''foo1'', \<lparr>cs_type = Service_Tcp, cs_name = ''foo1'', cs_local_addr = ''127.0.0.1:80'',
           cs_prefer_ipv6 = False, cs_token = Some ''123'', cs_nodelay = None, cs_retry_interval = Some 1\<rparr>)],
         cc_transport = default_transport_config, cc_heartbeat_timeout = 40, cc_retry_interval = 1\<rparr>\<rparr>"
    by (simp add: from_str_def toml_from_str_def in_context_def minimal_client_def forwarded_def de_config_def
        de_client_config_def de_client_service_def de_hash_def opt_field_def field_def known_def update_option_def
        validate_client_config_def validate_transport_config_def default_transport_config_def default_tcp_config_def
        default_service_type_def DEFAULT_HEARTBEAT_TIMEOUT_SECS_def DEFAULT_CLIENT_RETRY_INTERVAL_SECS_def)
qed

theorem shipped_servers_are_rejected_witness:
  "from_str (toml_from_str (\<lambda>_. Inr minimal_server) (\<lambda>_. None)) ''doc'' =
    Inl (In_Context ''Failed to parse the config'' (Bad_Config ''invalid document''))"
  by (rule shipped_servers_are_rejected [where d = minimal_server, THEN conjunct1, THEN mp])
    (simp add: lacks_server_key_def minimal_server_def example_server_def necessary_server_keys_def)

end
