(* ===== verification/Float64.thy ===== *)
theory Float64
  imports Prelude Complex_Main "HOL-Library.Log_Nat"
begin

text \<open>
  Rust's \<open>f64\<close> and \<open>f32\<close>, as far as the sources use them: finite values as the rationals they
  are, every arithmetic operation and every decimal literal followed by IEEE rounding to nearest,
  ties to even, at the width of the type. Infinities and NaN do not occur in the modelled
  computations (the one division is treated where it occurs); overflow is out of their range.
\<close>

section \<open>Binary exponent\<close>

definition ilog2 :: "rat \<Rightarrow> int" where
  "ilog2 x = (if 1 \<le> x then int (floorlog 2 (nat \<lfloor>x\<rfloor>)) - 1
              else - int (floorlog 2 (nat (\<lceil>1 / x\<rceil> - 1))))"

lemma powi2_pos [simp]: "(0::rat) < 2 powi e"
  by simp

lemma powi2_nonneg [simp]: "(0::rat) \<le> 2 powi e"
  by simp

lemma floorlog2_rat:
  assumes "0 < n"
  shows "(2::rat) powi (int (floorlog 2 n) - 1) \<le> of_nat n" "of_nat n + 1 \<le> (2::rat) powi int (floorlog 2 n)"
proof -
  let ?k = "floorlog 2 n"
  have b: "2 ^ (?k - 1) \<le> n" "n < 2 ^ ?k" using floorlog_bounds [OF assms, of 2] by simp_all
  have k: "int ?k - 1 = int (?k - 1)"
    using assms floorlog_eq_zero_iff [of 2 n] by (cases ?k) simp_all
  have "(of_nat (2 ^ (?k - 1)) :: rat) \<le> of_nat n" using b(1) by (rule of_nat_mono)
  then show "(2::rat) powi (int ?k - 1) \<le> of_nat n" unfolding k by simp
  have "n + 1 \<le> 2 ^ ?k" using b(2) by simp
  then have "(of_nat (n + 1) :: rat) \<le> of_nat (2 ^ ?k)" by (rule of_nat_mono)
  then show "of_nat n + 1 \<le> (2::rat) powi int ?k" by simp
qed

lemma ilog2_bounds_ge1:
  assumes "1 \<le> x"
  shows "2 powi ilog2 x \<le> x \<and> x < 2 powi (ilog2 x + 1)"
proof -
  obtain n where n: "\<lfloor>x\<rfloor> = int n" using assms zero_le_floor [of x] by (metis nonneg_int_cases order_trans zero_le_one)
  have "1 \<le> \<lfloor>x\<rfloor>" using assms by simp
  with n have n0: "0 < n" by simp
  have fl: "of_nat n \<le> x" "x < of_nat n + 1"
    using of_int_floor_le [of x] floor_correct [of x] n by simp_all
  have e: "ilog2 x = int (floorlog 2 n) - 1" using assms n by (simp add: ilog2_def)
  from floorlog2_rat [OF n0] fl show ?thesis unfolding e by simp
qed

lemma ilog2_bounds_lt1:
  assumes "0 < x" "x < 1"
  shows "2 powi ilog2 x \<le> x \<and> x < 2 powi (ilog2 x + 1)"
proof -
  have "1 < 1 / x" using assms by simp
  then have "1 \<le> \<lceil>1 / x\<rceil> - 1" by linarith
  then obtain n where n: "\<lceil>1 / x\<rceil> - 1 = int n" "0 < n"
    by (metis int_one_le_iff_zero_less nonneg_int_cases of_nat_0_less_iff order_trans zero_le_one zero_less_one_class.zero_le_one)
  have c: "of_nat n < 1 / x" "1 / x \<le> of_nat n + 1"
  proof -
    have "(of_int \<lceil>1 / x\<rceil> :: rat) = of_nat n + 1" using n(1) by (metis add.commute diff_add_cancel of_int_1 of_int_add of_int_of_nat_eq)
    with ceiling_correct [of "1 / x"] show "of_nat n < 1 / x" "1 / x \<le> of_nat n + 1" by simp_all
  qed
  have e: "ilog2 x = - int (floorlog 2 n)" using assms n by (simp add: ilog2_def)
  let ?k = "int (floorlog 2 n)"
  from floorlog2_rat [OF n(2)] c have "(2::rat) powi (?k - 1) < 1 / x" "1 / x \<le> 2 powi ?k" by linarith+
  then have "x * 2 powi (?k - 1) < 1" "1 \<le> x * 2 powi ?k" using assms(1) by (simp_all add: field_simps)
  then have "x < 1 / 2 powi (?k - 1)" "1 / 2 powi ?k \<le> x" by (simp_all add: pos_less_divide_eq pos_divide_le_eq)
  moreover have "(2::rat) powi (- ?k + 1) = 1 / 2 powi (?k - 1)"
    using power_int_minus [of "2::rat" "?k - 1"] by (simp add: inverse_eq_divide)
  ultimately show ?thesis unfolding e by (simp add: power_int_minus inverse_eq_divide)
qed

lemma ilog2_bounds: "0 < x \<Longrightarrow> 2 powi ilog2 x \<le> x \<and> x < 2 powi (ilog2 x + 1)"
  using ilog2_bounds_ge1 ilog2_bounds_lt1 by (cases "1 \<le> x") auto

lemma powi2_less: "(2::rat) powi a < 2 powi b \<Longrightarrow> a < b"
  using power_int_increasing [of b a "2::rat"] by (meson not_le zero_neq_one one_le_numeral)

lemma ilog2_mono:
  assumes "0 < x" "x \<le> y"
  shows "ilog2 x \<le> ilog2 y"
proof -
  have "(2::rat) powi ilog2 x < 2 powi (ilog2 y + 1)"
    using ilog2_bounds [of x] ilog2_bounds [of y] assms by linarith
  then show ?thesis using powi2_less by fastforce
qed

section \<open>Rounding\<close>

definition round_half_even :: "rat \<Rightarrow> int" where
  "round_half_even x =
     (let f = \<lfloor>x\<rfloor>; d = x - of_int f in
      if d < 1 / 2 then f else if 1 / 2 < d then f + 1 else if even f then f else f + 1)"

lemma round_half_even_of_int [simp]: "round_half_even (of_int n) = n"
  by (simp add: round_half_even_def)

lemma round_half_even_mono:
  assumes "x \<le> y"
  shows "round_half_even x \<le> round_half_even y"
proof -
  have fl: "\<lfloor>x\<rfloor> \<le> \<lfloor>y\<rfloor>" using assms by (rule floor_mono)
  show ?thesis
  proof (cases "\<lfloor>x\<rfloor> = \<lfloor>y\<rfloor>")
    case True
    with assms show ?thesis by (auto simp: round_half_even_def Let_def)
  next
    case False
    with fl have "\<lfloor>x\<rfloor> + 1 \<le> \<lfloor>y\<rfloor>" by simp
    moreover have "round_half_even x \<le> \<lfloor>x\<rfloor> + 1" "\<lfloor>y\<rfloor> \<le> round_half_even y"
      by (simp_all add: round_half_even_def Let_def)
    ultimately show ?thesis by linarith
  qed
qed

text \<open>The exponent of the last place: \<open>p\<close> bits of precision, least exponent \<open>emin\<close>.\<close>

definition ulp_exp :: "int \<Rightarrow> int \<Rightarrow> rat \<Rightarrow> int" where
  "ulp_exp p emin x = max emin (ilog2 x - (p - 1))"

definition round_pos :: "int \<Rightarrow> int \<Rightarrow> rat \<Rightarrow> rat" where
  "round_pos p emin x =
     (let g = 2 powi ulp_exp p emin x in of_int (round_half_even (x / g)) * g)"

definition round_fp :: "int \<Rightarrow> int \<Rightarrow> rat \<Rightarrow> rat" where
  "round_fp p emin x =
     (if x = 0 then 0 else if x < 0 then - round_pos p emin (- x) else round_pos p emin x)"

definition f64 :: "rat \<Rightarrow> rat" where
  "f64 = round_fp 53 (- 1074)"

definition f32 :: "rat \<Rightarrow> rat" where
  "f32 = round_fp 24 (- 149)"

lemma round_pos_grid:
  assumes "ulp_exp p emin x \<le> e"
  shows "x \<le> of_int m * 2 powi e \<Longrightarrow> round_pos p emin x \<le> of_int m * 2 powi e"
    and "of_int m * 2 powi e \<le> x \<Longrightarrow> of_int m * 2 powi e \<le> round_pos p emin x"
proof -
  let ?g = "(2::rat) powi ulp_exp p emin x"
  define d where "d = nat (e - ulp_exp p emin x)"
  have "e = ulp_exp p emin x + int d" using assms by (simp add: d_def)
  then have "(2::rat) powi e = 2 ^ d * ?g" by (simp add: power_int_add)
  then have m: "of_int m * (2::rat) powi e = of_int (m * 2 ^ d) * ?g" by simp
  show "round_pos p emin x \<le> of_int m * 2 powi e" if "x \<le> of_int m * 2 powi e"
  proof -
    have "x / ?g \<le> of_int (m * 2 ^ d)"
      using that unfolding m by (subst pos_divide_le_eq) simp_all
    from round_half_even_mono [OF this] have "round_half_even (x / ?g) \<le> m * 2 ^ d" by (simp only: round_half_even_of_int)
    then have "(of_int (round_half_even (x / ?g)) :: rat) \<le> of_int (m * 2 ^ d)" by (simp only: of_int_le_iff)
    then show ?thesis unfolding m round_pos_def Let_def by (rule mult_right_mono) simp
  qed
  show "of_int m * 2 powi e \<le> round_pos p emin x" if "of_int m * 2 powi e \<le> x"
  proof -
    have "of_int (m * 2 ^ d) \<le> x / ?g"
      using that unfolding m by (subst pos_le_divide_eq) simp_all
    from round_half_even_mono [OF this] have "m * 2 ^ d \<le> round_half_even (x / ?g)" by (simp only: round_half_even_of_int)
    then have "(of_int (m * 2 ^ d) :: rat) \<le> of_int (round_half_even (x / ?g))" by (simp only: of_int_le_iff)
    then show ?thesis unfolding m round_pos_def Let_def by (rule mult_right_mono) simp
  qed
qed

text \<open>A value on the grid of the precision is not changed.\<close>

lemma round_pos_exact:
  "ulp_exp p emin (of_int m * 2 powi e) \<le> e \<Longrightarrow> round_pos p emin (of_int m * 2 powi e) = of_int m * 2 powi e"
  using round_pos_grid [of p emin "of_int m * 2 powi e" e m] by (simp add: antisym)

lemma round_pos_mono:
  assumes "0 < x" "x \<le> y" "1 \<le> p"
  shows "round_pos p emin x \<le> round_pos p emin y"
proof -
  have le: "ulp_exp p emin x \<le> ulp_exp p emin y"
    using ilog2_mono [OF assms(1,2)] by (simp add: ulp_exp_def)
  show ?thesis
  proof (cases "ulp_exp p emin x = ulp_exp p emin y")
    case True
    let ?g = "(2::rat) powi ulp_exp p emin y"
    have "x / ?g \<le> y / ?g" using assms(2) by (intro divide_right_mono) simp_all
    from round_half_even_mono [OF this]
    have "(of_int (round_half_even (x / ?g)) :: rat) \<le> of_int (round_half_even (y / ?g))" by simp
    then show ?thesis unfolding round_pos_def True Let_def by (rule mult_right_mono) simp
  next
    case False
    let ?k = "ilog2 y"
    from False le have gy: "ulp_exp p emin y = ?k - (p - 1)" and lt: "ilog2 x < ?k"
      by (auto simp: ulp_exp_def max_def split: if_splits)
    have xk: "x \<le> of_int 1 * 2 powi ?k"
    proof -
      have "(2::rat) powi (ilog2 x + 1) \<le> 2 powi ?k" using lt by (intro power_int_increasing) simp_all
      then show ?thesis using ilog2_bounds [OF assms(1)] by simp
    qed
    have ky: "of_int 1 * 2 powi ?k \<le> y" using ilog2_bounds [of y] assms(1,2) by simp
    have "ulp_exp p emin y \<le> ?k" using gy assms(3) by simp
    then show ?thesis
      using round_pos_grid(1) [OF _ xk] round_pos_grid(2) [OF _ ky] le by (meson order_trans)
  qed
qed

lemma round_pos_nonneg: "0 < x \<Longrightarrow> 0 \<le> round_pos p emin x"
  using round_pos_grid(2) [of p emin x "ulp_exp p emin x" 0] by simp

lemma round_fp_mono:
  assumes "0 \<le> x" "x \<le> y" "1 \<le> p"
  shows "round_fp p emin x \<le> round_fp p emin y"
  using assms round_pos_mono [of x y p emin] round_pos_nonneg [of y p emin]
  by (cases "x = 0"; cases "y = 0") (auto simp: round_fp_def)

lemma round_fp_nonneg: "0 \<le> x \<Longrightarrow> 0 \<le> round_fp p emin x"
  by (simp add: round_fp_def round_pos_nonneg)

lemma f64_mono: "0 \<le> x \<Longrightarrow> x \<le> y \<Longrightarrow> f64 x \<le> f64 y"
  by (simp add: f64_def round_fp_mono)

lemma f64_nonneg: "0 \<le> x \<Longrightarrow> 0 \<le> f64 x"
  by (simp add: f64_def round_fp_nonneg)

lemma f64_0 [simp]: "f64 0 = 0"
  by (simp add: f64_def round_fp_def)

text \<open>A criterion for the rounded value, to evaluate roundings of constants.\<close>

lemma ilog2_eqI:
  assumes "2 powi k \<le> x" "x < 2 powi (k + 1)"
  shows "ilog2 x = k"
proof -
  have pos: "0 < x" using assms(1) powi2_pos [of k] by linarith
  have "(2::rat) powi ilog2 x < 2 powi (k + 1)" "(2::rat) powi k < 2 powi (ilog2 x + 1)"
    using ilog2_bounds [OF pos] assms by linarith+
  then have "ilog2 x < k + 1" "k < ilog2 x + 1" by (simp_all only: powi2_less)
  then show ?thesis by simp
qed

lemma round_half_even_eqI: "\<bar>x - of_int n\<bar> < 1 / 2 \<Longrightarrow> round_half_even x = n"
proof -
  assume near: "\<bar>x - of_int n\<bar> < 1 / 2"
  show ?thesis
  proof (cases "of_int n \<le> x")
    case True
    with near have "\<lfloor>x\<rfloor> = n" by (intro floor_unique) (simp_all add: abs_less_iff)
    with True near show ?thesis by (simp add: round_half_even_def)
  next
    case False
    with near have "\<lfloor>x\<rfloor> = n - 1" by (intro floor_unique) (simp_all add: abs_less_iff)
    with False near show ?thesis by (simp add: round_half_even_def)
  qed
qed

lemma f64_eqI:
  assumes "2 powi k \<le> x" "x < 2 powi (k + 1)" "- 1022 \<le> k"
    and "\<bar>x / 2 powi (k - 52) - of_int n\<bar> < 1 / 2"
  shows "f64 x = of_int n * 2 powi (k - 52)"
proof -
  have pos: "0 < x" using assms(1) powi2_pos [of k] by linarith
  have "ulp_exp 53 (- 1074) x = k - 52"
    using ilog2_eqI [OF assms(1,2)] assms(3) by (simp add: ulp_exp_def)
  with round_half_even_eqI [OF assms(4)] pos show ?thesis
    by (simp add: f64_def round_fp_def round_pos_def)
qed

lemma f64_1 [simp]: "f64 1 = 1"
  using f64_eqI [of 0 1 "2 ^ 52"] by (simp add: power_int_def power_divide)

text \<open>The literals \<open>0.8\<close> and \<open>0.2\<close> of the rolling estimates, and their sum.\<close>

lemma f64_08: "f64 (8 / 10) = 7205759403792794 / 9007199254740992"
  using f64_eqI [of "- 1" "8 / 10" 7205759403792794] by (simp add: power_int_def power_divide)

lemma f64_02: "f64 (2 / 10) = 7205759403792794 / 36028797018963968"
  using f64_eqI [of "- 3" "2 / 10" 7205759403792794] by (simp add: power_int_def power_divide)

lemma f64_sum_08_02: "f64 (f64 (8 / 10) + f64 (2 / 10)) = 1"
  unfolding f64_08 f64_02
  using f64_eqI [of 0 "7205759403792794 / 9007199254740992 + 7205759403792794 / 36028797018963968" "2 ^ 52"]
  by (simp add: power_int_def power_divide)

end
