(* ===== verification/Health.thy ===== *)
theory Health
  imports Float64
begin

text \<open>
  Tunnel health: the record, its two updates after a proxied request, and the routing decision of
  \<open>src/rathole/src/proxy.rs\<close>, and the classification of hardware reports of
  \<open>src/rathole/src/hardware.rs\<close>. Floating point values are those of \<open>Float64\<close>; the counters are
  \<open>u32\<close>, memory sizes \<open>u64\<close>. A call that reads the clock several times takes the readings as a
  function from the number of the reading.
\<close>

type_synonym clock = "nat \<Rightarrow> instant"

section \<open>State\<close>

datatype health_status = Normal | Warning | Critical

record tunnel_health =
  status :: health_status
  last_update :: instant
  last_success :: "instant option"
  last_failure :: "instant option"
  consecutive_successes :: u32
  consecutive_failures :: u32
  avg_latency_ms :: "rat option"
  error_rate :: rat
  last_transition :: instant

type_synonym health_map = "string \<rightharpoonup> tunnel_health"

definition default_health :: "instant \<Rightarrow> tunnel_health" where
  "default_health now =
     \<lparr>status = Normal, last_update = now, last_success = None, last_failure = None,
      consecutive_successes = 0, consecutive_failures = 0, avg_latency_ms = None,
      error_rate = 0, last_transition = now\<rparr>"

definition STALE_THRESHOLD :: nat where
  "STALE_THRESHOLD = secs 30"

definition WARNING_TO_CRITICAL_FAILURES :: u32 where
  "WARNING_TO_CRITICAL_FAILURES = 5"

definition SUCCESS_TO_NORMAL :: u32 where
  "SUCCESS_TO_NORMAL = 3"

definition HYSTERESIS_DURATION :: nat where
  "HYSTERESIS_DURATION = secs 10"

section \<open>Updates\<close>

definition saturating_add :: "u32 \<Rightarrow> u32 \<Rightarrow> u32" where
  "saturating_add a b = (if unat a + unat b < 2 ^ 32 then a + b else - 1)"

definition entry_or_default :: "instant \<Rightarrow> string \<Rightarrow> health_map \<Rightarrow> tunnel_health" where
  "entry_or_default now tid m = (case m tid of None \<Rightarrow> default_health now | Some h \<Rightarrow> h)"

definition new_latency :: "rat option \<Rightarrow> rat \<Rightarrow> rat" where
  "new_latency prev lat =
     (case prev of
        Some p \<Rightarrow> f64 (f64 (p * f64 (8 / 10)) + f64 (lat * f64 (2 / 10)))
      | None \<Rightarrow> lat)"

text \<open>The body of the two functions on the entry; the readings are \<open>now\<close> calls 1 to 3.\<close>

definition success_entry :: "clock \<Rightarrow> rat option \<Rightarrow> tunnel_health \<Rightarrow> tunnel_health" where
  "success_entry clk latency_ms e0 =
     (let e1 = e0\<lparr>last_update := clk 1, last_success := Some (clk 2),
                  consecutive_successes := saturating_add (consecutive_successes e0) 1,
                  consecutive_failures := 0\<rparr>;
          e2 = (case latency_ms of
                  Some lat \<Rightarrow> e1\<lparr>avg_latency_ms := Some (new_latency (avg_latency_ms e1) lat)\<rparr>
                | None \<Rightarrow> e1);
          e3 = e2\<lparr>error_rate := max (f64 (error_rate e2 * f64 (9 / 10))) 0\<rparr>
      in if status e3 = Warning \<and> SUCCESS_TO_NORMAL \<le> consecutive_successes e3
         then (if HYSTERESIS_DURATION \<le> duration_since (clk 3) (last_transition e3)
               then e3\<lparr>status := Normal, last_transition := clk 3\<rparr> else e3)
         else e3)"

definition failure_entry :: "clock \<Rightarrow> tunnel_health \<Rightarrow> tunnel_health" where
  "failure_entry clk e0 =
     (let e1 = e0\<lparr>last_update := clk 1, last_failure := Some (clk 2),
                  consecutive_failures := saturating_add (consecutive_failures e0) 1,
                  consecutive_successes := 0,
                  error_rate := f64 (f64 (error_rate e0 * f64 (8 / 10)) + f64 (2 / 10))\<rparr>;
          waited = (HYSTERESIS_DURATION \<le> duration_since (clk 3) (last_transition e1))
      in if WARNING_TO_CRITICAL_FAILURES \<le> consecutive_failures e1
         then (if waited then e1\<lparr>status := Critical, last_transition := clk 3\<rparr> else e1)
         else (if status e1 \<noteq> Critical \<and> waited
               then e1\<lparr>status := Warning, last_transition := clk 3\<rparr> else e1))"

definition mark_tunnel_success :: "clock \<Rightarrow> string \<Rightarrow> rat option \<Rightarrow> health_map \<Rightarrow> health_map" where
  "mark_tunnel_success clk tid latency_ms m =
     m(tid \<mapsto> success_entry clk latency_ms (entry_or_default (clk 0) tid m))"

definition mark_tunnel_failure :: "clock \<Rightarrow> string \<Rightarrow> health_map \<Rightarrow> health_map" where
  "mark_tunnel_failure clk tid m =
     m(tid \<mapsto> failure_entry clk (entry_or_default (clk 0) tid m))"

section \<open>Decisions\<close>

datatype routing_decision = RouteLocal | HybridSticky | ForceCloud | RouteCloud

definition decide_routing :: "instant \<Rightarrow> string \<Rightarrow> health_map \<Rightarrow> routing_decision" where
  "decide_routing now tid m =
     (case m tid of
        Some h \<Rightarrow>
          (if STALE_THRESHOLD < duration_since now (last_update h) then ForceCloud
           else if status h = Critical then ForceCloud
           else if status h = Warning then HybridSticky
           else RouteLocal)
      | None \<Rightarrow> RouteLocal)"

text \<open>The health test the request handler makes, for the preferred and for the chosen tunnel.\<close>

definition healthy :: "instant \<Rightarrow> string \<Rightarrow> health_map \<Rightarrow> bool" where
  "healthy now tid m =
     (case m tid of
        Some h \<Rightarrow> status h \<noteq> Critical \<and> duration_since now (last_update h) < STALE_THRESHOLD
      | None \<Rightarrow> True)"

section \<open>Hardware reports\<close>

record temperatures_data =
  avg_temp :: "rat option"
  max_temp :: "rat option"

record hardware_data =
  operating_system :: string
  avg_memory_usage :: rat
  total_memory :: u64
  used_memory :: u64
  avg_swap_usage :: rat
  total_swap :: u64
  used_swap :: u64
  cpu_usage :: rat
  temps :: temperatures_data
  hw_timestamp :: string

text \<open>
  \<open>used as f32 / total as f32 > 90.0\<close>: a division of a positive value by zero is infinite and
  above the limit, zero by zero is NaN and not above it.
\<close>

definition ratio_above_90 :: "u64 \<Rightarrow> u64 \<Rightarrow> bool" where
  "ratio_above_90 used size_all =
     (if size_all = 0 then used \<noteq> 0
      else 90 < f32 (f32 (of_nat (unat used)) / f32 (of_nat (unat size_all))))"

text \<open>
  \<open>total - used <= 1\<close> on \<open>u64\<close>: with overflow checks (the dev profile) an underflow panics,
  without them (the release profile) it wraps.
\<close>

definition at_most_one_left :: "bool \<Rightarrow> u64 \<Rightarrow> u64 \<Rightarrow> fault + bool" where
  "at_most_one_left checks size_all used =
     (if checks \<and> size_all < used then Inl (Panic ''attempt to subtract with overflow'')
      else Inr (size_all - used \<le> 1))"

definition handle_hardware_data :: "bool \<Rightarrow> hardware_data \<Rightarrow> rat \<Rightarrow> fault + health_status" where
  "handle_hardware_data checks hw cpu_limit =
     (if cpu_limit < cpu_usage hw \<or> ratio_above_90 (used_memory hw) (total_memory hw)
         \<or> ratio_above_90 (used_swap hw) (total_swap hw)
      then Inr Critical
      else rbind (at_most_one_left checks (total_swap hw) (used_swap hw)) (\<lambda>b1.
           if b1 then Inr Critical
           else rbind (at_most_one_left checks (total_memory hw) (used_memory hw)) (\<lambda>b2.
           Inr (if b2 then Critical else Normal))))"

section \<open>Invariant of the entries\<close>

definition health_ok :: "tunnel_health \<Rightarrow> bool" where
  "health_ok h =
     (0 \<le> error_rate h \<and> error_rate h \<le> 1
      \<and> (consecutive_successes h = 0 \<or> consecutive_failures h = 0)
      \<and> (\<forall>l. avg_latency_ms h = Some l \<longrightarrow> 0 \<le> l))"

lemma default_health_ok: "health_ok (default_health now)"
  by (simp add: health_ok_def default_health_def)

lemma f64_08_08: "f64 (f64 (8 / 10)) = f64 (8 / 10)"
  unfolding f64_08
  using f64_eqI [of "- 1" "7205759403792794 / 9007199254740992" 7205759403792794]
  by (simp add: power_int_def power_divide)

lemma failure_rate_le_1:
  assumes "0 \<le> r" "r \<le> 1"
  shows "0 \<le> f64 (f64 (r * f64 (8 / 10)) + f64 (2 / 10))"
    and "f64 (f64 (r * f64 (8 / 10)) + f64 (2 / 10)) \<le> 1"
proof -
  have c: "0 \<le> f64 (8 / 10)" "0 \<le> f64 (2 / 10)" by (simp_all add: f64_nonneg)
  with assms show "0 \<le> f64 (f64 (r * f64 (8 / 10)) + f64 (2 / 10))"
    by (intro f64_nonneg add_nonneg_nonneg mult_nonneg_nonneg) simp_all
  have "r * f64 (8 / 10) \<le> f64 (8 / 10)" using assms c(1) by (simp add: mult_left_le_one_le)
  then have "f64 (r * f64 (8 / 10)) \<le> f64 (f64 (8 / 10))"
    using assms c(1) by (intro f64_mono mult_nonneg_nonneg)
  then have "f64 (r * f64 (8 / 10)) \<le> f64 (8 / 10)" by (simp only: f64_08_08)
  then have "f64 (f64 (r * f64 (8 / 10)) + f64 (2 / 10)) \<le> f64 (f64 (8 / 10) + f64 (2 / 10))"
    using assms c by (intro f64_mono add_nonneg_nonneg f64_nonneg mult_nonneg_nonneg) simp_all
  then show "f64 (f64 (r * f64 (8 / 10)) + f64 (2 / 10)) \<le> 1" by (simp only: f64_sum_08_02)
qed

lemma success_rate_le_1:
  assumes "0 \<le> r" "r \<le> 1"
  shows "f64 (r * f64 (9 / 10)) \<le> 1"
proof -
  have c: "0 \<le> f64 (9 / 10)" "f64 (9 / 10) \<le> 1"
    using f64_nonneg [of "9 / 10"] f64_mono [of "9 / 10" 1] by simp_all
  then have "r * f64 (9 / 10) \<le> 1" using assms by (intro mult_le_one) simp_all
  with f64_mono [of "r * f64 (9 / 10)" 1] assms(1) c(1) show ?thesis by simp
qed

lemma new_latency_nonneg:
  "(\<And>p. prev = Some p \<Longrightarrow> 0 \<le> p) \<Longrightarrow> 0 \<le> lat \<Longrightarrow> 0 \<le> new_latency prev lat"
  by (auto simp: new_latency_def f64_nonneg split: option.splits)

lemma success_entry_ok:
  assumes "health_ok h" "\<And>l. lat = Some l \<Longrightarrow> 0 \<le> l"
  shows "health_ok (success_entry clk lat h)"
  using assms success_rate_le_1 [of "error_rate h"] new_latency_nonneg [of "avg_latency_ms h"]
  by (auto simp: health_ok_def success_entry_def Let_def split: option.splits)

lemma failure_entry_ok: "health_ok h \<Longrightarrow> health_ok (failure_entry clk h)"
  using failure_rate_le_1 [of "error_rate h"]
  by (auto simp: health_ok_def failure_entry_def Let_def)

section \<open>Runs of updates on one tunnel\<close>

text \<open>The two updates as events; a run applies them in order to the shared map.\<close>

datatype mark =
    Succeeded clock "rat option"
  | Failed clock

fun mark_step :: "mark \<Rightarrow> string \<Rightarrow> health_map \<Rightarrow> health_map" where
  "mark_step (Succeeded clk lat) tid m = mark_tunnel_success clk tid lat m"
| "mark_step (Failed clk) tid m = mark_tunnel_failure clk tid m"

fun run_marks :: "mark list \<Rightarrow> string \<Rightarrow> health_map \<Rightarrow> health_map" where
  "run_marks [] tid m = m"
| "run_marks (x # xs) tid m = run_marks xs tid (mark_step x tid m)"

fun mark_entry :: "mark \<Rightarrow> tunnel_health \<Rightarrow> tunnel_health" where
  "mark_entry (Succeeded clk lat) h = success_entry clk lat h"
| "mark_entry (Failed clk) h = failure_entry clk h"

fun run_entry :: "mark list \<Rightarrow> tunnel_health \<Rightarrow> tunnel_health" where
  "run_entry [] h = h"
| "run_entry (x # xs) h = run_entry xs (mark_entry x h)"

fun status_changes :: "mark list \<Rightarrow> tunnel_health \<Rightarrow> nat" where
  "status_changes [] h = 0"
| "status_changes (x # xs) h =
     (if status (mark_entry x h) = status h then 0 else 1) + status_changes xs (mark_entry x h)"

text \<open>\<open>fewer_than_five c xs\<close>: after \<open>c\<close> failures in a row, no five in a row in \<open>xs\<close>.\<close>

fun fewer_than_five :: "nat \<Rightarrow> mark list \<Rightarrow> bool" where
  "fewer_than_five c [] = True"
| "fewer_than_five c (Succeeded clk lat # xs) = fewer_than_five 0 xs"
| "fewer_than_five c (Failed clk # xs) = (Suc c < 5 \<and> fewer_than_five (Suc c) xs)"

fun latencies_nonneg :: "mark list \<Rightarrow> bool" where
  "latencies_nonneg [] = True"
| "latencies_nonneg (Succeeded clk (Some l) # xs) = (0 \<le> l \<and> latencies_nonneg xs)"
| "latencies_nonneg (x # xs) = latencies_nonneg xs"

lemma mark_step_entry: "m tid = Some h \<Longrightarrow> mark_step x tid m = m(tid \<mapsto> mark_entry x h)"
  by (cases x) (simp_all add: mark_tunnel_success_def mark_tunnel_failure_def entry_or_default_def)

lemma run_marks_entry: "m tid = Some h \<Longrightarrow> run_marks xs tid m tid = Some (run_entry xs h)"
  by (induction xs arbitrary: m h) (simp_all add: mark_step_entry)

lemma run_marks_other: "other \<noteq> tid \<Longrightarrow> run_marks xs tid m other = m other"
proof (induction xs arbitrary: m)
  case (Cons x xs)
  then show ?case by (cases x) (simp_all add: mark_tunnel_success_def mark_tunnel_failure_def)
qed simp

lemmas entry_defs = success_entry_def failure_entry_def Let_def

text \<open>What one update can do to the status and to the time of the last transition.\<close>

lemma mark_entry_transition:
  "secs 10 * (if status (mark_entry x h) = status h then 0 else 1) + last_transition h
    \<le> last_transition (mark_entry x h)"
  by (cases x) (auto simp: entry_defs HYSTERESIS_DURATION_def split: option.splits)

lemma mark_entry_critical: "status h = Critical \<Longrightarrow> status (mark_entry x h) = Critical"
  by (cases x) (auto simp: entry_defs split: option.splits)

lemma run_entry_critical: "status h = Critical \<Longrightarrow> status (run_entry xs h) = Critical"
  by (induction xs arbitrary: h) (simp_all add: mark_entry_critical)

lemma run_entry_hysteresis:
  "secs 10 * status_changes xs h + last_transition h \<le> last_transition (run_entry xs h)"
proof (induction xs arbitrary: h)
  case Nil
  then show ?case by simp
next
  case (Cons x xs)
  from Cons.IH [of "mark_entry x h"] mark_entry_transition [of x h] show ?case
    by (auto simp: algebra_simps)
qed

lemma run_entry_ok: "health_ok h \<Longrightarrow> latencies_nonneg xs \<Longrightarrow> health_ok (run_entry xs h)"
  by (induction xs arbitrary: h rule: latencies_nonneg.induct)
    (auto intro!: success_entry_ok failure_entry_ok)

lemma saturating_add_1: "unat a < 4 \<Longrightarrow> unat (saturating_add a 1) = Suc (unat a)"
  by (simp add: saturating_add_def unat_word_ariths)

lemma consecutive_failures_entry:
  "consecutive_failures (mark_entry (Succeeded clk lat) h) = 0"
  "consecutive_failures (mark_entry (Failed clk) h) = saturating_add (consecutive_failures h) 1"
  by (auto simp: entry_defs split: option.splits)

lemma mark_entry_not_critical:
  assumes "status h \<noteq> Critical" "unat (consecutive_failures h) < 4"
  shows "status (mark_entry x h) \<noteq> Critical"
proof -
  have "unat (saturating_add (consecutive_failures h) 1) < 5"
    using assms(2) by (simp add: saturating_add_1)
  then have "\<not> WARNING_TO_CRITICAL_FAILURES \<le> saturating_add (consecutive_failures h) 1"
    by (simp add: WARNING_TO_CRITICAL_FAILURES_def word_le_nat_alt)
  with assms(1) show ?thesis
    by (cases x) (auto simp: entry_defs split: option.splits)
qed

lemma run_entry_not_critical:
  assumes "status h \<noteq> Critical" "unat (consecutive_failures h) = c" "c < 5" "fewer_than_five c xs"
  shows "status (run_entry xs h) \<noteq> Critical"
  using assms
proof (induction c xs arbitrary: h rule: fewer_than_five.induct)
  case (1 c)
  then show ?case by simp
next
  case (2 c clk lat xs)
  have "status (mark_entry (Succeeded clk lat) h) \<noteq> Critical"
    using "2.prems"(1) by (auto simp: entry_defs split: option.splits)
  with 2 show ?case by (simp add: consecutive_failures_entry del: mark_entry.simps)
next
  case (3 c clk xs)
  then have "unat (consecutive_failures h) < 4" by simp
  with 3 mark_entry_not_critical [of h "Failed clk"] show ?case
    by (simp add: consecutive_failures_entry saturating_add_1 del: mark_entry.simps)
qed

section \<open>Properties of the health record\<close>



text \<open>
  A tunnel that is not critical, with \<open>c\<close> failures counted so far, does not become critical
  unless five failures come in a row: any success in between resets the count.
\<close>

theorem critical_needs_five_failures:
  assumes "m tid = Some h" "status h \<noteq> Critical"
    and "unat (consecutive_failures h) < 5"
    and "fewer_than_five (unat (consecutive_failures h)) xs"
  shows "\<exists>h'. run_marks xs tid m tid = Some h' \<and> status h' \<noteq> Critical"
  using run_marks_entry [of m tid h xs] run_entry_not_critical [OF assms(2) refl assms(3,4)] assms(1) by simp

theorem critical_needs_five_failures_witness:
  "\<exists>h'. run_marks [Failed (\<lambda>_. secs 20), Failed (\<lambda>_. secs 40), Succeeded (\<lambda>_. secs 41) (Some 12), Failed (\<lambda>_. secs 60)]
      ''app'' [''app'' \<mapsto> default_health 0] ''app'' = Some h' \<and> status h' \<noteq> Critical"
  by (rule critical_needs_five_failures [where h = "default_health 0"]) (simp_all add: default_health_def)

text \<open>
  Marks alone never lead out of the critical status: after a tunnel is critical, no number of
  successes brings it back (only a health report from the client does).
\<close>

theorem critical_absorbs_marks:
  assumes "m tid = Some h" "status h = Critical"
  shows "\<exists>h'. run_marks xs tid m tid = Some h' \<and> status h' = Critical"
  using run_marks_entry [of m tid h xs] run_entry_critical [OF assms(2)] assms(1) by simp

theorem critical_absorbs_marks_witness:
  "\<exists>h'. run_marks (replicate 100 (Succeeded (\<lambda>_. secs 1000) None)) ''app''
      [''app'' \<mapsto> (default_health 0)\<lparr>status := Critical\<rparr>] ''app'' = Some h' \<and> status h' = Critical"
  by (rule critical_absorbs_marks [where h = "(default_health 0)\<lparr>status := Critical\<rparr>"]) simp_all

text \<open>
  The rolling estimates stay in range: from a fresh entry, whatever the sequence of marks with
  non-negative latencies, the error rate stays between 0 and 1 in binary64 arithmetic with its
  rounding, the latency estimate stays non-negative, and at most one of the two consecutive
  counters is non-zero.
\<close>

theorem health_estimates_in_range:
  assumes "m tid = Some (default_health now)" "latencies_nonneg xs"
  shows "\<exists>h'. run_marks xs tid m tid = Some h' \<and> 0 \<le> error_rate h' \<and> error_rate h' \<le> 1
    \<and> (consecutive_successes h' = 0 \<or> consecutive_failures h' = 0)
    \<and> (\<forall>l. avg_latency_ms h' = Some l \<longrightarrow> 0 \<le> l)"
  using run_marks_entry [of m tid "default_health now" xs] run_entry_ok [OF default_health_ok assms(2), of now] assms(1)
  by (simp add: health_ok_def)

theorem health_estimates_in_range_witness:
  "\<exists>h'. run_marks [Failed (\<lambda>_. 5), Succeeded (\<lambda>_. 7) (Some 3)] ''app'' [''app'' \<mapsto> default_health 0] ''app'' = Some h'
    \<and> 0 \<le> error_rate h' \<and> error_rate h' \<le> 1"
proof -
  have "latencies_nonneg [Failed (\<lambda>_. 5), Succeeded (\<lambda>_. 7) (Some 3)]" by simp
  from health_estimates_in_range [of "[''app'' \<mapsto> default_health 0]" "''app''" 0, OF _ this] show ?thesis by auto
qed

text \<open>
  The first failure of a tunnel without a health entry does not change its status: the entry
  is created in the same call, so its last transition is the present, and the ten seconds of
  hysteresis have not passed. The tunnel stays normal with one failure counted.
\<close>

theorem first_failure_stays_normal:
  assumes "m tid = None" "duration_since (clk 3) (clk 0) < secs 10"
  shows "\<exists>h. mark_tunnel_failure clk tid m tid = Some h \<and> status h = Normal \<and> consecutive_failures h = 1"
  using assms
  by (simp add: mark_tunnel_failure_def entry_or_default_def failure_entry_def default_health_def
      saturating_add_def HYSTERESIS_DURATION_def WARNING_TO_CRITICAL_FAILURES_def word_le_nat_alt Let_def)

theorem first_failure_stays_normal_witness:
  "\<exists>h. mark_tunnel_failure (\<lambda>_. secs 100) ''app'' Map.empty ''app'' = Some h \<and> status h = Normal
    \<and> consecutive_failures h = 1"
  by (rule first_failure_stays_normal) simp_all

text \<open>
  The routing decision and the health test of the request handler agree except at the instant
  exactly thirty seconds after the last update, where the handler already counts the tunnel as
  stale and the decision does not.
\<close>

theorem decide_routing_agrees_with_healthy:
  "decide_routing now tid m = ForceCloud \<longleftrightarrow>
    \<not> healthy now tid m \<and>
    \<not> (\<exists>h. m tid = Some h \<and> status h \<noteq> Critical \<and> duration_since now (last_update h) = STALE_THRESHOLD)"
  by (auto simp: decide_routing_def healthy_def split: option.splits)

section \<open>Properties of hardware reports\<close>

text \<open>
  A report from a machine whose swap is absent or full (total equal to used) is critical,
  whatever the load and the memory: \<open>total_swap - used_swap <= 1\<close> holds for zero swap.
\<close>

theorem no_swap_is_critical:
  assumes "total_swap hw = used_swap hw"
  shows "handle_hardware_data checks hw cpu_limit = Inr Critical"
  using assms by (simp add: handle_hardware_data_def at_most_one_left_def)

definition idle_machine :: hardware_data where
  "idle_machine =
     \<lparr>operating_system = ''Linux'', avg_memory_usage = 50, total_memory = 8589934592, used_memory = 4294967296,
      avg_swap_usage = 50, total_swap = 2147483648, used_swap = 1073741824, cpu_usage = 1 / 2,
      temps = \<lparr>avg_temp = None, max_temp = None\<rparr>, hw_timestamp = []\<rparr>"

theorem no_swap_is_critical_witness:
  "handle_hardware_data True (idle_machine\<lparr>total_swap := 0, used_swap := 0\<rparr>) 85 = Inr Critical"
  by (rule no_swap_is_critical) simp

lemma f32_mono: "0 \<le> x \<Longrightarrow> x \<le> y \<Longrightarrow> f32 x \<le> f32 y"
  by (simp add: f32_def round_fp_mono)

lemma f32_nonneg: "0 \<le> x \<Longrightarrow> 0 \<le> f32 x"
  by (simp add: f32_def round_fp_nonneg)

lemma f32_1: "f32 1 = 1"
proof -
  have "ulp_exp 24 (- 149) 1 = - 23"
    using ilog2_eqI [of 0 1] by (simp add: ulp_exp_def)
  then show ?thesis
    using round_half_even_of_int [of "2 ^ 23"]
    by (simp add: f32_def round_fp_def round_pos_def power_int_def power_divide)
qed

lemma ratio_le_1:
  assumes "used \<le> (cap :: u64)"
  shows "\<not> ratio_above_90 used cap"
proof (cases "cap = 0")
  case True
  with assms show ?thesis by (simp add: ratio_above_90_def)
next
  case False
  let ?u = "f32 (of_nat (unat used))" and ?c = "f32 (of_nat (unat cap))"
  have uc: "0 \<le> ?u" "?u \<le> ?c"
    using assms by (auto intro!: f32_nonneg f32_mono simp: word_le_nat_alt simp del: of_nat_unat)
  then have "0 \<le> ?c" by (rule order_trans)
  with uc have "?u / ?c \<le> 1" by (cases "?c = 0") (simp_all add: divide_le_eq_1)
  moreover have "0 \<le> ?u / ?c" using uc by (intro divide_nonneg_nonneg) simp_all
  ultimately have "f32 (?u / ?c) \<le> f32 1" by (intro f32_mono)
  then have "f32 (?u / ?c) \<le> 1" by (simp only: f32_1)
  with False show ?thesis by (simp add: ratio_above_90_def)
qed

text \<open>
  The memory and swap limits of ninety never trigger on a report that is possible: when no
  more is used than there is, the classification depends only on the CPU limit and on whether at
  most one byte is left. A machine with 99.99 percent of its memory used is normal.
\<close>

theorem memory_limits_never_trigger:
  assumes "used_memory hw \<le> total_memory hw" "used_swap hw \<le> total_swap hw"
  shows "handle_hardware_data checks hw cpu_limit =
    Inr (if cpu_limit < cpu_usage hw \<or> total_swap hw - used_swap hw \<le> 1 \<or> total_memory hw - used_memory hw \<le> 1
         then Critical else Normal)"
  using assms ratio_le_1 [OF assms(1)] ratio_le_1 [OF assms(2)]
  by (auto simp: handle_hardware_data_def at_most_one_left_def)

theorem memory_limits_never_trigger_witness:
  "handle_hardware_data True (idle_machine\<lparr>used_memory := 8589934000\<rparr>) 85 = Inr Normal"
  using memory_limits_never_trigger [of "idle_machine\<lparr>used_memory := 8589934000\<rparr>" True 85]
  by (simp add: idle_machine_def word_le_nat_alt)

end
