(* ===== verification/Routing.thy ===== *)
theory Routing
  imports Health "HOL-Library.Product_Lexorder"
begin

text \<open>
  The HTTP side of the proxy, \<open>src/rathole/src/proxy.rs\<close>: sticky cookies, the choice among the
  tunnels of a subdomain, forwarding through a tunnel or to the cloud, and the handler that decides.
  Header maps, header and status validation, URIs and JSON belong to libraries and are the parameter
  \<open>http_lib\<close> with the contract \<open>header_map\<close>. Latencies and error rates are finite, so the partial
  comparisons of \<open>f64\<close> never fail.
\<close>

section \<open>Messages\<close>

record http_request =
  rq_method :: string
  rq_path :: string
  rq_headers :: "(string \<times> string) list"
  rq_body :: bytes

record http_response =
  rs_status :: u16
  rs_headers :: "(string \<times> string) list"
  rs_body :: bytes

datatype control_message =
    Register string string
  | Request string http_request
  | Response string http_response
  | HealthUpdate hardware_data string

section \<open>The libraries\<close>

text \<open>
  \<open>'h\<close> is a header map: \<open>hdr_get\<close> the first value of a name, \<open>hdr_insert\<close> replaces all values of a
  name, \<open>hdr_iter\<close> the entries. \<open>visible\<close> is \<open>HeaderValue::to_str\<close>, the others are the fallible
  constructors.
\<close>

record 'h http_lib =
  hdr_empty :: 'h
  hdr_get :: "'h \<Rightarrow> string \<Rightarrow> string option"
  hdr_insert :: "'h \<Rightarrow> string \<Rightarrow> string \<Rightarrow> 'h"
  hdr_iter :: "'h \<Rightarrow> (string \<times> string) list"
  visible :: "string \<Rightarrow> bool"
  value_ok :: "string \<Rightarrow> bool"
  header_name :: "string \<Rightarrow> string option"
  status_ok :: "u16 \<Rightarrow> bool"
  uri_ok :: "string \<Rightarrow> bool"
  to_json :: "control_message \<Rightarrow> string option"

type_synonym status_code = nat

definition BAD_REQUEST :: status_code where "BAD_REQUEST = 400"
definition INTERNAL_SERVER_ERROR :: status_code where "INTERNAL_SERVER_ERROR = 500"
definition BAD_GATEWAY :: status_code where "BAD_GATEWAY = 502"
definition GATEWAY_TIMEOUT :: status_code where "GATEWAY_TIMEOUT = 504"

text \<open>
  A request: method, headers, path with query when the URI has one, and the body, \<open>None\<close> when reading
  it fails. A response: status, headers, body.
\<close>

record 'h axum_request =
  ax_method :: string
  ax_headers :: 'h
  ax_path :: "string option"
  ax_body :: "bytes option"

record 'h axum_response =
  ar_status :: u16
  ar_headers :: 'h
  ar_body :: bytes

section \<open>Cookies and headers\<close>

fun cookie_part :: "string \<Rightarrow> string list \<Rightarrow> string option" where
  "cookie_part name [] = None"
| "cookie_part name (p # ps) =
     (case strip_prefix (name @ ''='') (trim p) of
        Some v \<Rightarrow> Some v
      | None \<Rightarrow> cookie_part name ps)"

definition header_str :: "('h, 'm) http_lib_scheme \<Rightarrow> 'h \<Rightarrow> string \<Rightarrow> string option" where
  "header_str L h n = (case hdr_get L h n of None \<Rightarrow> None | Some v \<Rightarrow> if visible L v then Some v else None)"

definition get_cookie_value :: "('h, 'm) http_lib_scheme \<Rightarrow> 'h \<Rightarrow> string \<Rightarrow> string option" where
  "get_cookie_value L h name =
     (case header_str L h ''cookie'' of
        None \<Rightarrow> None
      | Some s \<Rightarrow> cookie_part name (split_on (CHR '';'') s))"

definition tunnel_cookie :: "string \<Rightarrow> string" where
  "tunnel_cookie v = ''tunnel='' @ v @ ''; Path=/; HttpOnly''"

definition insert_tunnel_cookie ::
  "('h, 'm) http_lib_scheme \<Rightarrow> 'h axum_response \<Rightarrow> string \<Rightarrow> fault + 'h axum_response" where
  "insert_tunnel_cookie L resp v =
     (if value_ok L (tunnel_cookie v)
      then Inr (resp\<lparr>ar_headers := hdr_insert L (ar_headers resp) ''set-cookie'' (tunnel_cookie v)\<rparr>)
      else Inl (Panic ''called `Result::unwrap()` on an `Err` value: InvalidHeaderValue''))"

definition headers_to_map :: "('h, 'm) http_lib_scheme \<Rightarrow> 'h \<Rightarrow> (string \<times> string) list" where
  "headers_to_map L h = filter (\<lambda>(k, v). visible L v) (hdr_iter L h)"

section \<open>State\<close>

text \<open>
  \<open>AppState\<close>: the tunnels by id with the number of their queue, the response slots by request id, and
  the health map; \<open>ap_sent\<close> are the messages put into the queues.
\<close>

record app_state =
  ap_tunnels :: "(string, nat) hash"
  ap_responses :: "(string, nat) hash"
  ap_health :: health_map
  ap_sent :: "(nat \<times> string) list"
  ap_cloud_backend :: string

section \<open>Choice of a tunnel\<close>

definition status_rank :: "health_status \<Rightarrow> nat" where
  "status_rank s = (case s of Normal \<Rightarrow> 0 | Warning \<Rightarrow> 1 | Critical \<Rightarrow> 2)"

text \<open>The three keys of the comparison, with those of an unknown tunnel.\<close>

definition score :: "health_map \<Rightarrow> string \<Rightarrow> nat \<times> rat \<times> rat" where
  "score hm tid =
     (case hm tid of
        None \<Rightarrow> (1, 1 / 2, 9999)
      | Some h \<Rightarrow> (status_rank (status h), error_rate h, case avg_latency_ms h of None \<Rightarrow> 9999 | Some l \<Rightarrow> l))"

definition candidate :: "string \<Rightarrow> string \<Rightarrow> bool" where
  "candidate subdomain tid = (tid = subdomain \<or> starts_with tid (subdomain @ ''-''))"

text \<open>\<open>sort_by\<close> is stable, as \<open>sort_key\<close> is.\<close>

fun first_registered :: "(string, nat) hash \<Rightarrow> string list \<Rightarrow> (string \<times> nat) option" where
  "first_registered ts [] = None"
| "first_registered ts (i # is) = (case map_of ts i of Some tx \<Rightarrow> Some (i, tx) | None \<Rightarrow> first_registered ts is)"

definition choose_best_tunnel :: "(string, nat) hash \<Rightarrow> health_map \<Rightarrow> string \<Rightarrow> (string \<times> nat) option" where
  "choose_best_tunnel ts hm subdomain =
     (let cs = filter (candidate subdomain) (map fst ts)
      in if cs = [] then None else first_registered ts (sort_key (score hm) cs))"

section \<open>Forwarding through a tunnel\<close>

text \<open>
  What happens to a request that was sent: the client's response with its latency, the response slot
  dropped, or the timeout. On a response the task of the tunnel's socket has taken the slot.
\<close>

datatype tunnel_outcome = Answered http_response rat | Slot_Dropped | Timed_Out

record tunnel_env =
  te_request_id :: string
  te_slot :: nat
  te_send_ok :: bool
  te_outcome :: tunnel_outcome
  te_clock :: clock

definition to_http_request :: "('h, 'm) http_lib_scheme \<Rightarrow> 'h axum_request \<Rightarrow> bytes \<Rightarrow> http_request" where
  "to_http_request L req body =
     \<lparr>rq_method = ax_method req, rq_path = (case ax_path req of Some p \<Rightarrow> p | None \<Rightarrow> ''/''),
      rq_headers = headers_to_map L (ax_headers req), rq_body = body\<rparr>"

fun insert_headers ::
  "('h, 'm) http_lib_scheme \<Rightarrow> (string \<times> string) list \<Rightarrow> 'h \<Rightarrow> status_code + 'h" where
  "insert_headers L [] h = Inr h"
| "insert_headers L ((k, v) # hs) h =
     (case header_name L k of
        None \<Rightarrow> Inl INTERNAL_SERVER_ERROR
      | Some n \<Rightarrow>
          if value_ok L v then insert_headers L hs (hdr_insert L h n v) else Inl INTERNAL_SERVER_ERROR)"

text \<open>
  \<open>builder.headers_mut().unwrap()\<close> panics when the builder already holds an error, which a status out
  of range is.
\<close>

definition build_response :: "('h, 'm) http_lib_scheme \<Rightarrow> http_response \<Rightarrow> fault + (status_code + 'h axum_response)" where
  "build_response L r =
     (if \<not> status_ok L (rs_status r) then Inl (Panic ''called `Option::unwrap()` on a `None` value'')
      else Inr (case insert_headers L (rs_headers r) (hdr_empty L) of
             Inl e \<Rightarrow> Inl e
           | Inr h \<Rightarrow> Inr \<lparr>ar_status = rs_status r, ar_headers = h, ar_body = rs_body r\<rparr>))"

definition remove_slot :: "string \<Rightarrow> app_state \<Rightarrow> app_state" where
  "remove_slot rid st = st\<lparr>ap_responses := hash_remove rid (ap_responses st)\<rparr>"

definition forward_via_tunnel ::
  "('h, 'm) http_lib_scheme \<Rightarrow> tunnel_env \<Rightarrow> string \<Rightarrow> 'h axum_request \<Rightarrow> nat \<Rightarrow> app_state \<Rightarrow>
    fault + ((status_code + 'h axum_response) \<times> app_state)" where
  "forward_via_tunnel L env tid req tx st =
     (let rid = te_request_id env;
          st1 = st\<lparr>ap_responses := hash_insert rid (te_slot env) (ap_responses st)\<rparr>
      in case ax_body req of
           None \<Rightarrow> Inr (Inl BAD_REQUEST, st1)
         | Some body \<Rightarrow>
             (case to_json L (Request rid (to_http_request L req body)) of
                None \<Rightarrow> Inr (Inl INTERNAL_SERVER_ERROR, st1)
              | Some msg \<Rightarrow>
                  if \<not> te_send_ok env
                  then Inr (Inl BAD_GATEWAY,
                    (remove_slot rid st1)\<lparr>ap_health := mark_tunnel_failure (te_clock env) tid (ap_health st1)\<rparr>)
                  else let st2 = st1\<lparr>ap_sent := ap_sent st1 @ [(tx, msg)]\<rparr>
                       in case te_outcome env of
                            Answered r latency \<Rightarrow>
                              rbind (build_response L r) (\<lambda>resp.
                              Inr (resp, (remove_slot rid st2)
                                \<lparr>ap_health := mark_tunnel_success (te_clock env) tid (Some latency) (ap_health st2)\<rparr>))
                          | Slot_Dropped \<Rightarrow>
                              Inr (Inl BAD_GATEWAY,
                                (remove_slot rid st2)\<lparr>ap_health := mark_tunnel_failure (te_clock env) tid (ap_health st2)\<rparr>)
                          | Timed_Out \<Rightarrow>
                              Inr (Inl GATEWAY_TIMEOUT,
                                (remove_slot rid st2)\<lparr>ap_health := mark_tunnel_failure (te_clock env) tid (ap_health st2)\<rparr>)))"

section \<open>Forwarding to the cloud\<close>

text \<open>The backend's response (\<open>None\<close> for a body that cannot be collected), an error, or a timeout.\<close>

datatype 'h cloud_outcome = Cloud_Response "'h axum_response" bool | Cloud_Error | Cloud_Timeout

definition cloud_target :: "string \<Rightarrow> 'h axum_request \<Rightarrow> string" where
  "cloud_target backend req =
     trim_end_matches (CHR ''/'') backend @ (case ax_path req of Some p \<Rightarrow> p | None \<Rightarrow> ''/'')"

definition forward_to_cloud ::
  "('h, 'm) http_lib_scheme \<Rightarrow> 'h cloud_outcome \<Rightarrow> 'h axum_request \<Rightarrow> app_state \<Rightarrow> bool \<Rightarrow>
    status_code + 'h axum_response" where
  "forward_to_cloud L out req st is_sticky =
     (case ax_body req of
        None \<Rightarrow> Inl BAD_REQUEST
      | Some body \<Rightarrow>
          if \<not> uri_ok L (cloud_target (ap_cloud_backend st) req) then Inl BAD_REQUEST
          else case out of
                 Cloud_Response resp collected \<Rightarrow>
                   if \<not> collected then Inl INTERNAL_SERVER_ERROR
                   else if is_sticky then Inr resp
                   else Inr (resp\<lparr>ar_headers := hdr_insert L (ar_headers resp) ''set-cookie'' ''backend=cloud; Path=/''\<rparr>)
               | Cloud_Error \<Rightarrow> Inl BAD_GATEWAY
               | Cloud_Timeout \<Rightarrow> Inl GATEWAY_TIMEOUT)"

section \<open>The handler\<close>

definition subdomain_of :: "('h, 'm) http_lib_scheme \<Rightarrow> 'h axum_request \<Rightarrow> string" where
  "subdomain_of L req =
     (let host = (case header_str L (ax_headers req) ''host'' of None \<Rightarrow> [] | Some h \<Rightarrow> h)
      in hd (split_on (CHR ''.'') host))"

definition via_tunnel ::
  "('h, 'm) http_lib_scheme \<Rightarrow> tunnel_env \<Rightarrow> string \<Rightarrow> 'h axum_request \<Rightarrow> nat \<Rightarrow> app_state \<Rightarrow>
    fault + ((status_code + 'h axum_response) \<times> app_state)" where
  "via_tunnel L env tid req tx st =
     rbind (forward_via_tunnel L env tid req tx st) (\<lambda>(r, st').
     case r of
       Inl e \<Rightarrow> Inr (Inl e, st')
     | Inr resp \<Rightarrow> rbind (insert_tunnel_cookie L resp tid) (\<lambda>resp'. Inr (Inr resp', st')))"

definition via_cloud ::
  "('h, 'm) http_lib_scheme \<Rightarrow> 'h cloud_outcome \<Rightarrow> 'h axum_request \<Rightarrow> app_state \<Rightarrow>
    fault + ((status_code + 'h axum_response) \<times> app_state)" where
  "via_cloud L out req st =
     (case forward_to_cloud L out req st False of
        Inl e \<Rightarrow> Inr (Inl e, st)
      | Inr resp \<Rightarrow> rbind (insert_tunnel_cookie L resp ''cloud'') (\<lambda>resp'. Inr (Inr resp', st)))"

definition by_subdomain ::
  "('h, 'm) http_lib_scheme \<Rightarrow> instant \<Rightarrow> tunnel_env \<Rightarrow> 'h cloud_outcome \<Rightarrow> 'h axum_request \<Rightarrow> app_state \<Rightarrow>
    fault + ((status_code + 'h axum_response) \<times> app_state)" where
  "by_subdomain L now env out req st =
     (case choose_best_tunnel (ap_tunnels st) (ap_health st) (subdomain_of L req) of
        Some (tid, tx) \<Rightarrow>
          if healthy now tid (ap_health st) then via_tunnel L env tid req tx st else via_cloud L out req st
      | None \<Rightarrow> via_cloud L out req st)"

definition proxy_handler ::
  "('h, 'm) http_lib_scheme \<Rightarrow> instant \<Rightarrow> tunnel_env \<Rightarrow> 'h cloud_outcome \<Rightarrow> 'h axum_request \<Rightarrow> app_state \<Rightarrow>
    fault + ((status_code + 'h axum_response) \<times> app_state)" where
  "proxy_handler L now env out req st =
     (case get_cookie_value L (ax_headers req) ''tunnel'' of
        Some pref \<Rightarrow>
          (case map_of (ap_tunnels st) pref of
             Some tx \<Rightarrow>
               if healthy now pref (ap_health st) then via_tunnel L env pref req tx st
               else by_subdomain L now env out req st
           | None \<Rightarrow> by_subdomain L now env out req st)
      | None \<Rightarrow> by_subdomain L now env out req st)"

end
