(* ===== verification/Routing_Props.thy ===== *)
theory Routing_Props
  imports Routing
begin

text \<open>
  What the routing of HTTP requests relies on of the header library, with an instance, and the
  properties of cookies, of the choice of a tunnel, of forwarding and of the handler.
\<close>

section \<open>The contract of header maps\<close>

locale header_map =
  fixes L :: "'h http_lib"
  assumes get_iter: "hdr_get L h n = map_of (hdr_iter L h) n"
    and iter_insert: "filter (\<lambda>e. fst e = n) (hdr_iter L (hdr_insert L h n v)) = [(n, v)]"
    and iter_insert_other: "n' \<noteq> n \<Longrightarrow>
      filter (\<lambda>e. fst e = n') (hdr_iter L (hdr_insert L h n v)) = filter (\<lambda>e. fst e = n') (hdr_iter L h)"
begin

lemma get_insert: "hdr_get L (hdr_insert L h n v) n = Some v"
proof -
  have f: "map_of xs n = map_of (filter (\<lambda>e. fst e = n) xs) n" for xs :: "(string \<times> string) list"
    by (induction xs) auto
  show ?thesis by (subst get_iter, subst f) (simp add: iter_insert)
qed

text \<open>The cookie of the tunnel is the only one a response keeps.\<close>

lemma insert_cookie_only:
  "insert_tunnel_cookie L resp v = Inr resp' \<Longrightarrow>
    filter (\<lambda>e. fst e = ''set-cookie'') (hdr_iter L (ar_headers resp')) = [(''set-cookie'', tunnel_cookie v)]
    \<and> ar_status resp' = ar_status resp \<and> ar_body resp' = ar_body resp"
  by (auto simp: insert_tunnel_cookie_def iter_insert split: if_splits)

end

text \<open>Header maps as lists of entries with lower-case names; visible ASCII values.\<close>

definition visible_ascii :: "string \<Rightarrow> bool" where
  "visible_ascii s = list_all (\<lambda>c. (32 \<le> (of_char c :: nat) \<and> (of_char c :: nat) < 127) \<or> of_char c = (9 :: nat)) s"

definition list_http :: "(string \<times> string) list http_lib" where
  "list_http =
     \<lparr>hdr_empty = [], hdr_get = (\<lambda>h n. map_of h n), hdr_insert = (\<lambda>h n v. filter (\<lambda>e. fst e \<noteq> n) h @ [(n, v)]),
      hdr_iter = (\<lambda>h. h), visible = visible_ascii, value_ok = visible_ascii,
      header_name = (\<lambda>n. if n = [] then None else Some n), status_ok = (\<lambda>s. 100 \<le> s \<and> s < 1000),
      uri_ok = (\<lambda>u. u \<noteq> []), to_json = (\<lambda>m. Some ''{}'')\<rparr>"

interpretation list_http: header_map list_http
  by unfold_locales (auto simp: list_http_def filter_empty_conv intro!: filter_cong)

lemma uri_list: "uri_ok list_http u \<longleftrightarrow> u \<noteq> []"
  by (simp add: list_http_def)

section \<open>Cookies\<close>

fun cookie_header :: "string list \<Rightarrow> string" where
  "cookie_header [] = []"
| "cookie_header [p] = p"
| "cookie_header (p # ps) = p @ ''; '' @ cookie_header ps"

lemma trim_space: "trim (CHR '' '' # s) = trim s"
  by (simp add: trim_def is_ws_def)

lemma cookie_part_split_space:
  "cookie_part name (split_on c (CHR '' '' # s)) = cookie_part name (split_on c s)" if "c \<noteq> CHR '' ''"
proof -
  have "split_on c (CHR '' '' # s) = (case split_on c s of [] \<Rightarrow> [[CHR '' '']] | p # ps \<Rightarrow> (CHR '' '' # p) # ps)"
    using that by simp
  then show ?thesis by (cases "split_on c s") (simp_all add: trim_space)
qed

lemma cookie_part_header:
  assumes "list_all (\<lambda>p. CHR '';'' \<notin> set p \<and> strip_prefix (name @ ''='') (trim p) = None) pre"
    and "CHR '';'' \<notin> set q" "strip_prefix (name @ ''='') (trim q) = Some v"
  shows "cookie_part name (split_on (CHR '';'') (cookie_header (pre @ q # post))) = Some v"
  using assms(1)
proof (induction pre)
  case Nil
  then show ?case using assms(2,3) by (cases post) (simp_all add: split_on_append)
next
  case (Cons p pre)
  have h: "cookie_header ((p # pre) @ q # post) = p @ CHR '';'' # CHR '' '' # cookie_header (pre @ q # post)"
    by (cases pre) simp_all
  show ?case
    unfolding h using Cons by (simp add: split_on_append cookie_part_split_space del: split_on.simps)
qed

text \<open>
  A sticky cookie comes back as it was set: when a browser returns the tunnel id of the
  \<open>Set-Cookie\<close> among its other cookies, the handler reads exactly that id, for every id without a
  semicolon that does not end in white space; cookies before it do not disturb it.
\<close>

theorem sticky_cookie_roundtrip:
  assumes "header_str L h ''cookie'' = Some (cookie_header (pre @ (''tunnel='' @ tid) # post))"
    and "list_all (\<lambda>p. CHR '';'' \<notin> set p \<and> strip_prefix ''tunnel='' (trim p) = None) pre"
    and "CHR '';'' \<notin> set tid" "tid = [] \<or> \<not> is_ws (last tid)"
  shows "get_cookie_value L h ''tunnel'' = Some tid"
proof -
  have "trim (''tunnel='' @ tid) = ''tunnel='' @ tid"
    using assms(4) by (intro trim_no_ws) (auto simp: is_ws_def)
  then have "strip_prefix (''tunnel'' @ ''='') (trim (''tunnel='' @ tid)) = Some tid"
    by (simp add: strip_prefix_Some_iff)
  from cookie_part_header [OF _ _ this, of pre post] assms show ?thesis
    by (simp add: get_cookie_value_def)
qed

theorem sticky_cookie_roundtrip_witness:
  "get_cookie_value list_http [(''cookie'', ''lang=en; tunnel=app-01; x=1'')] ''tunnel'' = Some ''app-01''"
  by (rule sticky_cookie_roundtrip [where pre = "[''lang=en'']" and post = "[''x=1'']"])
    (simp_all add: header_str_def list_http_def visible_ascii_def trim_def is_ws_def)

section \<open>The choice of a tunnel\<close>

lemma first_registered_sorted:
  assumes "set ids \<subseteq> dom (map_of ts)"
  shows "first_registered ts ids = (case ids of [] \<Rightarrow> None | i # _ \<Rightarrow> Some (i, the (map_of ts i)))"
  using assms by (cases ids) auto

lemma choose_best_Some:
  assumes "choose_best_tunnel ts hm sub = Some (tid, tx)"
  shows "map_of ts tid = Some tx \<and> candidate sub tid
    \<and> (\<forall>t \<in> fst ` set ts. candidate sub t \<longrightarrow> score hm tid \<le> score hm t)"
proof -
  let ?cs = "filter (candidate sub) (map fst ts)"
  let ?s = "sort_key (score hm) ?cs"
  have sub: "set ?s \<subseteq> dom (map_of ts)" by (auto simp: dom_map_of_conv_image_fst)
  obtain i rest where s: "?s = i # rest"
    using assms first_registered_sorted [OF sub] by (cases ?s) (auto simp: choose_best_tunnel_def Let_def split: if_splits)
  then have tid: "tid = i" "tx = the (map_of ts i)"
    using assms first_registered_sorted [OF sub] by (auto simp: choose_best_tunnel_def Let_def split: if_splits)
  have "i \<in> set ?s" by (simp add: s)
  then have mem: "i \<in> fst ` set ts" "candidate sub i" by auto
  have "sorted (map (score hm) ?s)" by simp
  then have "\<forall>t \<in> set ?s. score hm i \<le> score hm t" by (auto simp: s)
  moreover have "map_of ts i = Some tx" using sub s tid by auto
  ultimately show ?thesis using mem tid(1) by auto
qed



section \<open>Forwarding\<close>

text \<open>
  The slot of a forwarded request: once the request has been handed to the tunnel, however it ends
  (answer, dropped slot, timeout, failed send) no slot is left and the others are untouched. A request
  whose body cannot be read or whose message cannot be encoded leaves its slot behind for good.
\<close>

theorem response_slots:
  assumes "forward_via_tunnel L env tid req tx st = Inr (r, st')"
  shows "map_of (ap_responses st') = (map_of (ap_responses st))(te_request_id env :=
    (case ax_body req of
       None \<Rightarrow> Some (te_slot env)
     | Some b \<Rightarrow> if to_json L (Request (te_request_id env) (to_http_request L req b)) = None then Some (te_slot env) else None))"
  using assms
  by (auto simp: forward_via_tunnel_def remove_slot_def Let_def result_simps
      split: option.splits if_splits tunnel_outcome.splits)

definition env_a :: tunnel_env where
  "env_a = \<lparr>te_request_id = ''r1'', te_slot = 0, te_send_ok = True, te_outcome = Timed_Out, te_clock = (\<lambda>_. secs 100)\<rparr>"

definition state_a :: app_state where
  "state_a = \<lparr>ap_tunnels = [(''app'', 1)], ap_responses = [], ap_health = Map.empty, ap_sent = [], ap_cloud_backend = ''http://c/''\<rparr>"

definition get_a :: "(string \<times> string) list \<Rightarrow> bytes option \<Rightarrow> (string \<times> string) list axum_request" where
  "get_a h b = \<lparr>ax_method = ''GET'', ax_headers = h, ax_path = Some ''/x'', ax_body = b\<rparr>"

theorem response_slots_witness:
  "\<exists>st'. forward_via_tunnel list_http env_a ''app'' (get_a [] None) 1 state_a = Inr (Inl BAD_REQUEST, st')
    \<and> map_of (ap_responses st') = [''r1'' \<mapsto> 0]"
proof -
  have f: "forward_via_tunnel list_http env_a ''app'' (get_a [] None) 1 state_a =
      Inr (Inl BAD_REQUEST, state_a\<lparr>ap_responses := hash_insert ''r1'' 0 []\<rparr>)"
    by (simp add: forward_via_tunnel_def env_a_def get_a_def state_a_def)
  show ?thesis using response_slots [OF f] f by (simp add: env_a_def get_a_def state_a_def)
qed

text \<open>
  A status code out of range in a tunnel's answer panics the server, whatever else the answer is:
  the builder holds the error, and its \<open>headers_mut().unwrap()\<close> aborts.
\<close>

theorem bad_status_panics:
  assumes "ax_body req = Some b" "to_json L (Request (te_request_id env) (to_http_request L req b)) = Some msg"
    and "te_send_ok env" "te_outcome env = Answered resp latency" "\<not> status_ok L (rs_status resp)"
  shows "\<exists>m. forward_via_tunnel L env tid req tx st = Inl (Panic m)"
  using assms by (simp add: forward_via_tunnel_def build_response_def Let_def)

theorem bad_status_panics_witness:
  "\<exists>m. forward_via_tunnel list_http (env_a\<lparr>te_outcome := Answered \<lparr>rs_status = 99, rs_headers = [], rs_body = []\<rparr> 1\<rparr>)
     ''app'' (get_a [] (Some [])) 1 state_a = Inl (Panic m)"
  by (rule bad_status_panics [where b = "[]" and msg = "''{}''" and latency = 1
        and resp = "\<lparr>rs_status = 99, rs_headers = [], rs_body = []\<rparr>"])
    (simp_all add: env_a_def get_a_def list_http_def word_le_nat_alt)

section \<open>The handler\<close>

lemma forward_sent:
  "forward_via_tunnel L env tid req tx st = Inr (r, st') \<Longrightarrow>
    (ap_sent st' = ap_sent st \<or> (\<exists>msg. ap_sent st' = ap_sent st @ [(tx, msg)])) \<and> ap_tunnels st' = ap_tunnels st
    \<and> (\<forall>resp. r = Inr resp \<longrightarrow> (\<exists>msg. ap_sent st' = ap_sent st @ [(tx, msg)]))"
  by (auto simp: forward_via_tunnel_def remove_slot_def Let_def result_simps
      split: option.splits if_splits tunnel_outcome.splits)

lemma via_tunnel_sent:
  "via_tunnel L env tid req tx st = Inr (r, st') \<Longrightarrow>
    (ap_sent st' = ap_sent st \<or> (\<exists>msg. ap_sent st' = ap_sent st @ [(tx, msg)]))
    \<and> (\<forall>resp. r = Inr resp \<longrightarrow> (\<exists>msg. ap_sent st' = ap_sent st @ [(tx, msg)])
          \<and> (\<exists>resp0. insert_tunnel_cookie L resp0 tid = Inr resp))"
proof -
  assume v: "via_tunnel L env tid req tx st = Inr (r, st')"
  then obtain r0 st0 where f: "forward_via_tunnel L env tid req tx st = Inr (r0, st0)"
    by (auto simp: via_tunnel_def rbind_eq_Inr)
  from v have "st0 = st' \<and> (case r0 of Inl e \<Rightarrow> r = Inl e
      | Inr resp \<Rightarrow> \<exists>resp'. insert_tunnel_cookie L resp tid = Inr resp' \<and> r = Inr resp')"
    by (cases r0) (auto simp: via_tunnel_def f rbind_eq_Inr)
  with forward_sent [OF f] show ?thesis by (cases r0) auto
qed

lemma via_cloud_sent:
  "via_cloud L out req st = Inr (r, st') \<Longrightarrow> st' = st
    \<and> (\<forall>resp. r = Inr resp \<longrightarrow> (\<exists>resp0. insert_tunnel_cookie L resp0 ''cloud'' = Inr resp))"
  by (auto simp: via_cloud_def result_simps split: sum.splits)

lemma via_cloud_answers:
  assumes "ax_body req = Some b" "uri_ok L (cloud_target (ap_cloud_backend st) req)"
    and "value_ok L (tunnel_cookie ''cloud'')"
  shows "\<exists>resp'. via_cloud L (Cloud_Response resp True) req st = Inr (Inr resp', st)"
  using assms by (simp add: via_cloud_def forward_to_cloud_def insert_tunnel_cookie_def)

text \<open>The tunnel the handler uses, if any.\<close>

definition route :: "('h, 'm) http_lib_scheme \<Rightarrow> instant \<Rightarrow> 'h axum_request \<Rightarrow> app_state \<Rightarrow> (string \<times> nat) option" where
  "route L now req st =
     (let best = (case choose_best_tunnel (ap_tunnels st) (ap_health st) (subdomain_of L req) of
                    Some (tid, tx) \<Rightarrow> if healthy now tid (ap_health st) then Some (tid, tx) else None
                  | None \<Rightarrow> None)
      in case get_cookie_value L (ax_headers req) ''tunnel'' of
           None \<Rightarrow> best
         | Some p \<Rightarrow>
             (case map_of (ap_tunnels st) p of
                None \<Rightarrow> best
              | Some tx \<Rightarrow> if healthy now p (ap_health st) then Some (p, tx) else best))"

lemma proxy_handler_route:
  "proxy_handler L now env out req st =
    (case route L now req st of
       Some (tid, tx) \<Rightarrow> via_tunnel L env tid req tx st
     | None \<Rightarrow> via_cloud L out req st)"
  by (auto simp: proxy_handler_def route_def by_subdomain_def Let_def split: option.splits)

lemma route_healthy:
  assumes "route L now req st = Some (tid, tx)"
  shows "map_of (ap_tunnels st) tid = Some tx \<and> healthy now tid (ap_health st)
    \<and> (get_cookie_value L (ax_headers req) ''tunnel'' = Some tid \<or> candidate (subdomain_of L req) tid)"
  using assms choose_best_Some [of "ap_tunnels st" "ap_health st" "subdomain_of L req"]
  by (auto simp: route_def Let_def split: option.splits if_splits)

text \<open>
  C6. The handler sends a request to at most one tunnel, once, and only to one that is registered and
  healthy, and that the client's cookie names or that serves the host's subdomain; a critical or stale
  tunnel never gets a request, and a request answered by the cloud went to no tunnel.
\<close>

theorem requests_go_to_healthy_tunnels:
  assumes "proxy_handler L now env out req st = Inr (r, st')"
  shows "ap_sent st' = ap_sent st \<or>
    (\<exists>tid tx msg. ap_sent st' = ap_sent st @ [(tx, msg)] \<and> map_of (ap_tunnels st) tid = Some tx
      \<and> healthy now tid (ap_health st)
      \<and> (get_cookie_value L (ax_headers req) ''tunnel'' = Some tid \<or> candidate (subdomain_of L req) tid))"
proof (cases "route L now req st")
  case None
  with assms via_cloud_sent [of L out req st r st'] show ?thesis by (simp add: proxy_handler_route)
next
  case (Some x)
  obtain tid tx where x: "x = (tid, tx)" by (cases x)
  with Some assms have "via_tunnel L env tid req tx st = Inr (r, st')" by (simp add: proxy_handler_route)
  from via_tunnel_sent [OF this] route_healthy [OF Some [unfolded x]] show ?thesis by blast
qed

lemma subdomain_route:
  "choose_best_tunnel [(t, tx)] Map.empty t = Some (t, tx)"
  by (simp add: choose_best_tunnel_def candidate_def)

theorem requests_go_to_healthy_tunnels_witness:
  "\<exists>r st'. proxy_handler list_http (secs 100) env_a Cloud_Error (get_a [(''host'', ''app.example.com'')] (Some [])) state_a = Inr (r, st')
    \<and> (ap_sent st' = [] \<or> (\<exists>tid tx msg. ap_sent st' = [(tx, msg)] \<and> map_of (ap_tunnels state_a) tid = Some tx))"
proof -
  let ?req = "get_a [(''host'', ''app.example.com'')] (Some [])"
  have sub: "subdomain_of list_http ?req = ''app''"
    by (simp add: subdomain_of_def header_str_def get_a_def list_http_def visible_ascii_def)
  have r: "route list_http (secs 100) ?req state_a = Some (''app'', 1)"
    unfolding route_def sub
    by (simp add: state_a_def subdomain_route healthy_def get_cookie_value_def header_str_def get_a_def list_http_def)
  obtain st' where run: "proxy_handler list_http (secs 100) env_a Cloud_Error ?req state_a = Inr (Inl GATEWAY_TIMEOUT, st')"
    unfolding proxy_handler_route r
    by (simp add: via_tunnel_def forward_via_tunnel_def env_a_def get_a_def list_http_def Let_def)
  have e: "ap_sent state_a = []" by (simp add: state_a_def)
  from requests_go_to_healthy_tunnels [OF run] have "ap_sent st' = [] \<or>
      (\<exists>tid tx msg. ap_sent st' = [(tx, msg)] \<and> map_of (ap_tunnels state_a) tid = Some tx)"
    unfolding e by auto
  with run show ?thesis by blast
qed

text \<open>
  The response names where it came from: every successful response carries exactly one
  \<open>Set-Cookie\<close>, the tunnel cookie of the healthy tunnel that was sent the request, or \<open>cloud\<close> when the
  cloud answered; cookies the backend set itself are gone.
\<close>

theorem response_cookie_names_route:
  assumes "header_map L" "proxy_handler L now env out req st = Inr (Inr resp, st')"
  shows "\<exists>v. filter (\<lambda>e. fst e = ''set-cookie'') (hdr_iter L (ar_headers resp)) = [(''set-cookie'', tunnel_cookie v)]
    \<and> (v = ''cloud'' \<and> st' = st
       \<or> (\<exists>tx msg. map_of (ap_tunnels st) v = Some tx \<and> healthy now v (ap_health st) \<and> ap_sent st' = ap_sent st @ [(tx, msg)]))"
proof (cases "route L now req st")
  case None
  with assms(2) have "via_cloud L out req st = Inr (Inr resp, st')" by (simp add: proxy_handler_route)
  from via_cloud_sent [OF this] obtain resp0 where "st' = st" "insert_tunnel_cookie L resp0 ''cloud'' = Inr resp"
    by auto
  with header_map.insert_cookie_only [OF assms(1)] show ?thesis by (intro exI [of _ "''cloud''"]) simp
next
  case (Some x)
  obtain tid tx where x: "x = (tid, tx)" by (cases x)
  with Some assms(2) have "via_tunnel L env tid req tx st = Inr (Inr resp, st')" by (simp add: proxy_handler_route)
  from via_tunnel_sent [OF this] obtain resp0 msg
    where "ap_sent st' = ap_sent st @ [(tx, msg)]" "insert_tunnel_cookie L resp0 tid = Inr resp"
    by auto
  with header_map.insert_cookie_only [OF assms(1)] route_healthy [OF Some [unfolded x]]
  show ?thesis by (intro exI [of _ tid]) simp
qed

theorem response_cookie_names_route_witness:
  "\<exists>resp st'. proxy_handler list_http 0 env_a (Cloud_Response \<lparr>ar_status = 200, ar_headers = [(''set-cookie'', ''sid=1'')], ar_body = []\<rparr> True)
      (get_a [] (Some [])) (state_a\<lparr>ap_tunnels := []\<rparr>) = Inr (Inr resp, st')
    \<and> (\<exists>v. filter (\<lambda>e. fst e = ''set-cookie'') (ar_headers resp) = [(''set-cookie'', tunnel_cookie v)])"
proof -
  let ?run = "proxy_handler list_http 0 env_a (Cloud_Response \<lparr>ar_status = 200, ar_headers = [(''set-cookie'', ''sid=1'')], ar_body = []\<rparr> True)
      (get_a [] (Some [])) (state_a\<lparr>ap_tunnels := []\<rparr>)"
  let ?req = "get_a [] (Some []) :: (string \<times> string) list axum_request"
  let ?st = "state_a\<lparr>ap_tunnels := []\<rparr>"
  have r: "route list_http 0 ?req ?st = None"
    by (simp add: route_def choose_best_tunnel_def get_cookie_value_def header_str_def get_a_def list_http_def state_a_def)
  have u: "cloud_target (ap_cloud_backend ?st) ?req \<noteq> []"
    by (simp add: cloud_target_def get_a_def state_a_def)
  have v: "value_ok list_http (tunnel_cookie ''cloud'')"
    by (simp add: list_http_def visible_ascii_def tunnel_cookie_def)
  have "\<exists>resp st'. ?run = Inr (Inr resp, st')"
    unfolding proxy_handler_route r option.case
    by (rule exE [OF via_cloud_answers [of ?req "[]" list_http ?st], OF _ _ v])
      (use u in \<open>auto simp: get_a_def uri_list\<close>)
  then obtain resp st' where run: "?run = Inr (Inr resp, st')" by blast
  from response_cookie_names_route [OF list_http.header_map_axioms run] run show ?thesis
    by (auto simp: list_http_def)
qed

text \<open>
  A client is not sticky to the cloud: a \<open>tunnel=cloud\<close> cookie, which the handler itself sets on
  the fallback, is no registered tunnel, so the next request is routed as if it had none, and goes to
  a local tunnel as soon as the best one is healthy.
\<close>

theorem cloud_cookie_is_not_sticky:
  assumes "get_cookie_value L (ax_headers req) ''tunnel'' = Some ''cloud''" "map_of (ap_tunnels st) ''cloud'' = None"
    and "choose_best_tunnel (ap_tunnels st) (ap_health st) (subdomain_of L req) = Some (tid, tx)"
    and "healthy now tid (ap_health st)"
  shows "proxy_handler L now env out req st = via_tunnel L env tid req tx st"
  using assms by (simp add: proxy_handler_def by_subdomain_def)

theorem cloud_cookie_is_not_sticky_witness:
  "proxy_handler list_http 0 env_a Cloud_Error (get_a [(''host'', ''app''), (''cookie'', ''tunnel=cloud'')] None) state_a =
    via_tunnel list_http env_a ''app'' (get_a [(''host'', ''app''), (''cookie'', ''tunnel=cloud'')] None) 1 state_a"
  by (rule cloud_cookie_is_not_sticky)
    (simp_all add: get_cookie_value_def header_str_def get_a_def list_http_def visible_ascii_def trim_def is_ws_def
      state_a_def choose_best_tunnel_def subdomain_of_def candidate_def healthy_def)

end
