(* ===== verification/Unit_Tests.thy ===== *)
theory Unit_Tests
  imports Config_Toml Config_Watcher Routing_Props "HOL-Library.List_Lexorder" "HOL-Library.Char_ord"
begin

text \<open>
  The unit tests of \<open>src/rathole/src\<close> in \<open>config.rs\<close>, \<open>config_watcher.rs\<close> and \<open>proxy.rs\<close> over the model:
  every test is a value, the first assertion that fails or success, and a lemma has the outcome. What the
  tests expect of the code is so checked of its model, whatever order the hash maps of the tests have.
  Two tests fail, and one checks nothing.
\<close>

section \<open>Assertions\<close>

definition check :: "string \<Rightarrow> bool \<Rightarrow> string + unit" where
  "check msg b = (if b then Inr () else Inl msg)"

lemma check_simps [simp]: "check msg True = Inr ()" "check msg False = Inl msg"
  by (simp_all add: check_def)

fun checks :: "(string + unit) list \<Rightarrow> string + unit" where
  "checks [] = Inr ()"
| "checks (r # rs) = rbind r (\<lambda>_. checks rs)"

definition is_err :: "'e + 'a \<Rightarrow> bool" where
  "is_err r = (case r of Inl e \<Rightarrow> True | Inr x \<Rightarrow> False)"

lemma is_err_simps [simp]: "is_err (Inl e) = True" "is_err (Inr x) = False"
  by (simp_all add: is_err_def)

section \<open>Files\<close>

text \<open>A directory tree; a file has its name and its contents.\<close>

datatype dir_entry = File string string | Dir string "dir_entry list"

type_synonym file_path = "string list"

fun list_config_files :: "file_path \<Rightarrow> dir_entry \<Rightarrow> (file_path \<times> string) list"
  and list_dir :: "file_path \<Rightarrow> dir_entry list \<Rightarrow> (file_path \<times> string) list" where
  "list_config_files p (File n s) = [(p @ [n], s)]"
| "list_config_files p (Dir n es) = list_dir (p @ [n]) es"
| "list_dir p [] = []"
| "list_dir p (e # es) = list_config_files p e @ list_dir p es"

text \<open>\<open>Path::ends_with\<close> compares whole components.\<close>

definition path_ends_with :: "file_path \<Rightarrow> file_path \<Rightarrow> bool" where
  "path_ends_with p q = (length q \<le> length p \<and> drop (length p - length q) p = q)"

definition get_all_example_config :: "file_path \<Rightarrow> dir_entry list \<Rightarrow> (file_path \<times> string) list" where
  "get_all_example_config p es = filter (\<lambda>f. path_ends_with (fst f) [''.toml'']) (list_dir p es)"

definition test_example_config :: "(string \<Rightarrow> config_err + config) \<Rightarrow> dir_entry list \<Rightarrow> bool" where
  "test_example_config toml es =
     list_all (\<lambda>f. \<not> is_err (from_str toml (snd f))) (get_all_example_config [''.'', ''examples''] es)"

definition test_valid_config :: "(string \<Rightarrow> config_err + config) \<Rightarrow> dir_entry list \<Rightarrow> bool" where
  "test_valid_config toml es =
     list_all (\<lambda>f. \<not> is_err (from_str toml (snd f))) (list_dir [''tests'', ''config_test'', ''valid_config''] es)"

definition test_invalid_config :: "(string \<Rightarrow> config_err + config) \<Rightarrow> dir_entry list \<Rightarrow> bool" where
  "test_invalid_config toml es =
     list_all (\<lambda>f. is_err (from_str toml (snd f))) (list_dir [''tests'', ''config_test'', ''invalid_config''] es)"

text \<open>
  No path ends with the component \<open>.toml\<close> unless a file has exactly this name, so the test of the examples
  looks at none of them.
\<close>

lemma list_config_files_nonempty:
  "(q, s) \<in> set (list_config_files p e) \<Longrightarrow> q \<noteq> []"
  "(q, s) \<in> set (list_dir p es) \<Longrightarrow> q \<noteq> []"
  by (induction p e and p es rule: list_config_files_list_dir.induct) auto

lemma path_ends_with_single: "path_ends_with p [c] \<longleftrightarrow> p \<noteq> [] \<and> last p = c"
proof (cases p rule: rev_cases)
  case (snoc q x)
  then show ?thesis by (simp add: path_ends_with_def)
qed (simp add: path_ends_with_def)

lemma example_test_checks_nothing:
  assumes "\<And>q s. (q, s) \<in> set (list_dir [''.'', ''examples''] es) \<Longrightarrow> last q \<noteq> ''.toml''"
  shows "get_all_example_config [''.'', ''examples''] es = []" "test_example_config toml es"
proof -
  show "get_all_example_config [''.'', ''examples''] es = []"
    using assms by (force simp: get_all_example_config_def filter_empty_conv path_ends_with_single)
  then show "test_example_config toml es" by (simp add: test_example_config_def)
qed

text \<open>The directory \<open>examples\<close>, as far as it has documents, with the documents for their contents.\<close>

definition examples_dir :: "dir_entry list" where
  "examples_dir =
     [Dir ''iperf3'' [File ''client.toml'' [], File ''server.toml'' ''iperf3''],
      Dir ''minimal'' [File ''client.toml'' [], File ''server.toml'' ''minimal''],
      Dir ''noise_nk'' [File ''client.toml'' [], File ''server.toml'' ''noise''],
      Dir ''tls'' [File ''client.toml'' [], File ''server.toml'' ''tls''],
      Dir ''udp'' [File ''client.toml'' [], File ''server.toml'' ''udp''],
      Dir ''unified'' [File ''config.toml'' ''unified''], Dir ''use_proxy'' [File ''client.toml'' []]]"

lemma example_test_accepts_rejected_examples:
  assumes "parse ''minimal'' = Inr minimal_server"
  shows "test_example_config (toml_from_str parse parse_url) examples_dir"
    and "is_err (from_str (toml_from_str parse parse_url) ''minimal'')"
proof -
  show "test_example_config (toml_from_str parse parse_url) examples_dir"
    by (rule example_test_checks_nothing(2)) (auto simp: examples_dir_def)
  show "is_err (from_str (toml_from_str parse parse_url) ''minimal'')"
    using assms
    by (simp add: from_str_def toml_from_str_def in_context_def lacks_server_key_rejected lacks_server_key_def
        minimal_server_def example_server_def necessary_server_keys_def)
qed

text \<open>
  The server documents of the test of invalid ones have no secret, so they are rejected before the
  validation the test is named after; with a secret the validation rejects them too.
\<close>

lemma invalid_servers_lack_secret: "lacks_server_key missing_tls_server"
  by (simp add: lacks_server_key_def missing_tls_server_def necessary_server_keys_def)

lemma invalid_server_with_secret:
  "validate_transport_config (default_transport_config\<lparr>transport_type := Transport_Tls,
     tls := Some \<lparr>tls_hostname = None, tls_trusted_root = None, tls_pkcs12 = None, tls_pkcs12_password = Some pw\<rparr>\<rparr>) True =
   Inl (Bad_Config ''Missing `pkcs12` or `pkcs12_password`'')"
  by (simp add: validate_transport_config_def default_transport_config_def default_tcp_config_def)

section \<open>Validation\<close>

definition server_token :: "string \<Rightarrow> server_config \<Rightarrow> masked_string option" where
  "server_token n c = (case map_of (sc_services c) n of None \<Rightarrow> None | Some s \<Rightarrow> ss_token s)"

definition client_token :: "string \<Rightarrow> client_config \<Rightarrow> masked_string option" where
  "client_token n c = (case map_of (cc_services c) n of None \<Rightarrow> None | Some s \<Rightarrow> cs_token s)"

text \<open>\<open>ClientConfig::default()\<close>, which is derived: empty, with zero for the numbers.\<close>

definition derived_client_config :: client_config where
  "derived_client_config =
     \<lparr>cc_remote_addr = [], cc_default_token = None, cc_prefer_ipv6 = None, cc_services = [],
      cc_transport = default_transport_config, cc_heartbeat_timeout = 0, cc_retry_interval = 0\<rparr>"

definition foo_server :: "(string, server_service) hash" where
  "foo_server = hash_insert ''foo1''
     ((server_service_with_name ''foo1'')\<lparr>ss_type := Service_Tcp, ss_bind_addr := ''127.0.0.1:80'', ss_token := None\<rparr>) []"

definition foo_client :: "(string, client_service) hash" where
  "foo_client = hash_insert ''foo1''
     ((client_service_with_name ''foo1'')\<lparr>cs_type := Service_Tcp, cs_local_addr := ''127.0.0.1:80'', cs_token := None\<rparr>) []"

text \<open>\<open>services.get_mut("foo1").unwrap().token = Some(..)\<close>, on a service that is there.\<close>

definition with_server_token :: "masked_string \<Rightarrow> server_config \<Rightarrow> server_config" where
  "with_server_token t c =
     c\<lparr>sc_services := map (\<lambda>(n, s). if n = ''foo1'' then (n, s\<lparr>ss_token := Some t\<rparr>) else (n, s)) (sc_services c)\<rparr>"

definition with_client_token :: "masked_string \<Rightarrow> client_config \<Rightarrow> client_config" where
  "with_client_token t c =
     c\<lparr>cc_services := map (\<lambda>(n, s). if n = ''foo1'' then (n, s\<lparr>cs_token := Some t\<rparr>) else (n, s)) (cc_services c)\<rparr>"

text \<open>
  The validation changes the configuration in place; after an error the test goes on with a configuration
  that has the name of the service filled in, which it had.
\<close>

definition test_validate_server_config :: "string + unit" where
  "test_validate_server_config =
     (let cfg = default_server_config\<lparr>sc_services := foo_server\<rparr>;
          cfg1 = cfg\<lparr>sc_default_token := Some ''123''\<rparr>
      in checks
        [check ''Missing the token'' (is_err (validate_server_config cfg)),
         (case validate_server_config cfg1 of
            Inl e \<Rightarrow> Inl ''Use the default token''
          | Inr cfg2 \<Rightarrow> checks
              [check ''Use the default token'' (server_token ''foo1'' cfg2 = Some ''123''),
               (case validate_server_config (with_server_token ''4'' cfg2) of
                  Inl e \<Rightarrow> Inl ''The default token will not override the service token''
                | Inr cfg3 \<Rightarrow> check ''The default token will not override the service token''
                    (server_token ''foo1'' cfg3 = Some ''4''))])])"

definition test_validate_client_config :: "string + unit" where
  "test_validate_client_config =
     (let cfg = derived_client_config\<lparr>cc_services := foo_client\<rparr>;
          cfg1 = cfg\<lparr>cc_default_token := Some ''123''\<rparr>
      in checks
        [check ''Missing the token'' (is_err (validate_client_config cfg)),
         (case validate_client_config cfg1 of
            Inl e \<Rightarrow> Inl ''Use the default token''
          | Inr cfg2 \<Rightarrow> checks
              [check ''Use the default token'' (client_token ''foo1'' cfg2 = Some ''123''),
               (case validate_client_config (with_client_token ''4'' cfg2) of
                  Inl e \<Rightarrow> Inl ''The default token will not override the service token''
                | Inr cfg3 \<Rightarrow> check ''The default token will not override the service token''
                    (client_token ''foo1'' cfg3 = Some ''4''))])])"

lemma validation_tests_pass:
  "test_validate_server_config = Inr ()"
  "test_validate_client_config = Inr ()"
  by (simp_all add: test_validate_server_config_def test_validate_client_config_def foo_server_def foo_client_def
      validate_server_config_def validate_client_config_def validate_transport_config_def default_server_config_def
      derived_client_config_def default_transport_config_def default_tcp_config_def server_token_def client_token_def with_server_token_def with_client_token_def
      server_service_with_name_def client_service_with_name_def)

section \<open>The events of the watcher\<close>

definition get_key :: "config_change \<Rightarrow> string" where
  "get_key ev =
     (case ev of
        General c \<Rightarrow> ''g''
      | ServerChange (Add_Server c) \<Rightarrow> ''s_add_'' @ ss_name c
      | ServerChange (Delete_Server n) \<Rightarrow> ''s_del_'' @ n
      | ClientChange (Add_Client c) \<Rightarrow> ''c_add_'' @ cs_name c
      | ClientChange (Delete_Client n) \<Rightarrow> ''c_del_'' @ n)"

text \<open>The five pairs; \<open>order\<close> gives the order in which a map of two entries is iterated.\<close>

definition in_order :: "bool \<Rightarrow> 'a \<Rightarrow> 'a \<Rightarrow> 'a list" where
  "in_order b x y = (if b then [x, y] else [y, x])"

definition server_with :: "(string, server_service) hash \<Rightarrow> server_config option" where
  "server_with h = Some (default_server_config\<lparr>sc_services := h\<rparr>)"

definition client_with :: "(string, client_service) hash \<Rightarrow> client_config option" where
  "client_with h = Some (derived_client_config\<lparr>cc_services := h\<rparr>)"

definition server_entry :: "string \<Rightarrow> string \<times> server_service" where
  "server_entry n = (n, server_service_with_name n)"

definition client_entry :: "string \<Rightarrow> string \<times> client_service" where
  "client_entry n = (n, client_service_with_name n)"

definition event_pairs :: "bool \<Rightarrow> bool \<Rightarrow> bool \<Rightarrow> bool \<Rightarrow> (config \<times> config) list" where
  "event_pairs a b c d =
     [(\<lparr>server = server_with [], client = None\<rparr>, \<lparr>server = server_with [], client = client_with []\<rparr>),
      (\<lparr>server = Some (default_server_config\<lparr>sc_bind_addr := ''127.0.0.1:2334''\<rparr>), client = None\<rparr>,
       \<lparr>server = Some (default_server_config\<lparr>sc_bind_addr := ''127.0.0.1:2333'',
          sc_services := [(''foo'', server_service_with_name [])]\<rparr>), client = None\<rparr>),
      (\<lparr>server = server_with [], client = None\<rparr>,
       \<lparr>server = server_with [(''foo'', server_service_with_name [])], client = None\<rparr>),
      (\<lparr>server = server_with [(''foo'', server_service_with_name [])], client = None\<rparr>,
       \<lparr>server = server_with [], client = None\<rparr>),
      (\<lparr>server = server_with (in_order a (server_entry ''foo1'') (server_entry ''foo2'')),
        client = client_with (in_order b (client_entry ''foo1'') (client_entry ''foo2''))\<rparr>,
       \<lparr>server = server_with (in_order c (server_entry ''bar1'') (server_entry ''foo2'')),
        client = client_with (in_order d (client_entry ''bar1'') (client_entry ''bar2''))\<rparr>)]"

definition expected_events :: "(config \<times> config) list \<Rightarrow> config_change list list" where
  "expected_events tests =
     [[General (snd (tests ! 0))],
      [General (snd (tests ! 1))],
      [ServerChange (Add_Server (server_service_with_name []))],
      [ServerChange (Delete_Server ''foo'')],
      [ServerChange (Delete_Server ''foo1''), ServerChange (Add_Server (server_service_with_name ''bar1'')),
       ClientChange (Delete_Client ''foo1''), ClientChange (Delete_Client ''foo2''),
       ClientChange (Add_Client (client_service_with_name ''bar1'')),
       ClientChange (Add_Client (client_service_with_name ''bar2''))]]"

definition test_calculate_events :: "bool \<Rightarrow> bool \<Rightarrow> bool \<Rightarrow> bool \<Rightarrow> bool" where
  "test_calculate_events a b c d =
     (let tests = event_pairs a b c d
      in length tests = length (expected_events tests) \<and>
        list_all2 (\<lambda>t ex. case calculate_events (fst t) (snd t) of
            None \<Rightarrow> False
          | Some es \<Rightarrow> sort_key get_key es = sort_key get_key ex) tests (expected_events tests) \<and>
        calculate_events \<lparr>server = None, client = None\<rparr> \<lparr>server = None, client = None\<rparr> = None)"

lemma test_calculate_events_orders:
  "list_all (\<lambda>a. list_all (\<lambda>b. list_all (\<lambda>c. list_all (test_calculate_events a b c)
     [True, False]) [True, False]) [True, False]) [True, False]"
  by code_simp

lemma test_calculate_events_passes: "test_calculate_events a b c d"
  using test_calculate_events_orders by (cases a; cases b; cases c; cases d; simp)

section \<open>The proxy\<close>

text \<open>Header names are those of a header map, in lower case.\<close>

definition test_headers_to_map :: bool where
  "test_headers_to_map =
     (let headers = hdr_insert list_http (hdr_insert list_http (hdr_empty list_http) ''content-type'' ''application/json'')
            ''x-custom-header'' ''some-value'';
          result = headers_to_map list_http headers
      in length result = 2 \<and> (''content-type'', ''application/json'') \<in> set result \<and>
         (''x-custom-header'', ''some-value'') \<in> set result)"

definition mock_app_state :: app_state where
  "mock_app_state =
     \<lparr>ap_tunnels = [], ap_responses = [], ap_health = Map.empty, ap_sent = [], ap_cloud_backend = ''http://localhost:8080''\<rparr>"

definition test_request :: "string \<Rightarrow> (string \<times> string) list axum_request" where
  "test_request subdomain =
     \<lparr>ax_method = ''GET'', ax_headers = [(''host'', subdomain @ ''.example.com'')], ax_path = Some ''/'', ax_body = Some []\<rparr>"

text \<open>Nobody answers on the channel of the test, so the request times out.\<close>

definition silent_env :: tunnel_env where
  "silent_env = \<lparr>te_request_id = ''r'', te_slot = 0, te_send_ok = True, te_outcome = Timed_Out, te_clock = (\<lambda>_. secs 1)\<rparr>"

definition test_proxy_handler_with_tunnel :: "instant \<Rightarrow> (string \<times> string) list cloud_outcome \<Rightarrow> string + unit" where
  "test_proxy_handler_with_tunnel now out =
     (let st = mock_app_state\<lparr>ap_tunnels := hash_insert ''test-subdomain'' 1 []\<rparr>
      in case proxy_handler list_http now silent_env out (test_request ''test-subdomain'') st of
           Inr (Inl e, st') \<Rightarrow> checks
             [check ''GATEWAY_TIMEOUT'' (e = GATEWAY_TIMEOUT), check ''received'' (map fst (ap_sent st') = [1])]
         | _ \<Rightarrow> Inl ''unwrap_err'')"

definition test_proxy_handler_no_tunnel :: "instant \<Rightarrow> (string \<times> string) list cloud_outcome \<Rightarrow> string + unit" where
  "test_proxy_handler_no_tunnel now out =
     (case proxy_handler list_http now silent_env out (test_request ''unassigned-subdomain'') mock_app_state of
        Inr (Inl e, st') \<Rightarrow> check ''status'' (e = BAD_GATEWAY \<or> e = GATEWAY_TIMEOUT)
      | _ \<Rightarrow> Inl ''unwrap_err'')"

definition test_response :: http_response where
  "test_response = \<lparr>rs_status = 200, rs_headers = [(''content-type'', ''text/plain'')], rs_body = map of_char ''response body''\<rparr>"

definition test_post :: "(string \<times> string) list axum_request" where
  "test_post =
     \<lparr>ax_method = ''POST'', ax_headers = [(''content-type'', ''application/json'')], ax_path = Some ''/test-path'',
      ax_body = Some (map of_char ''{\"key\":\"value\"}'')\<rparr>"

definition test_forward_via_tunnel :: "rat \<Rightarrow> string + unit" where
  "test_forward_via_tunnel latency =
     (let http = to_http_request list_http test_post (the (ax_body test_post))
      in checks
        [check ''method'' (rq_method http = ''POST''), check ''path'' (rq_path http = ''/test-path''),
         check ''body'' (rq_body http = map of_char ''{\"key\":\"value\"}''),
         (case forward_via_tunnel list_http (silent_env\<lparr>te_outcome := Answered test_response latency\<rparr>) ''test'' test_post 1
              mock_app_state of
            Inr (Inr resp, st') \<Rightarrow> checks
              [check ''OK'' (ar_status resp = 200),
               check ''Content-Type'' (hdr_get list_http (ar_headers resp) ''content-type'' = Some ''text/plain''),
               check ''response body'' (ar_body resp = map of_char ''response body'')]
          | _ \<Rightarrow> Inl ''is_ok'')])"

lemma proxy_tests_pass:
  "test_headers_to_map"
  "test_proxy_handler_with_tunnel now out = Inr ()"
  "out' = Cloud_Error \<or> out' = Cloud_Timeout \<Longrightarrow> test_proxy_handler_no_tunnel now out' = Inr ()"
  "test_forward_via_tunnel latency = Inr ()"
proof -
  show "test_headers_to_map"
    by (simp add: test_headers_to_map_def headers_to_map_def list_http_def visible_ascii_def)
  show "test_proxy_handler_with_tunnel now out = Inr ()"
    by (simp add: test_proxy_handler_with_tunnel_def proxy_handler_def get_cookie_value_def header_str_def list_http_def
        test_request_def visible_ascii_def mock_app_state_def by_subdomain_def choose_best_tunnel_def subdomain_of_def
        candidate_def healthy_def via_tunnel_def forward_via_tunnel_def silent_env_def remove_slot_def Let_def)
  show "out' = Cloud_Error \<or> out' = Cloud_Timeout \<Longrightarrow> test_proxy_handler_no_tunnel now out' = Inr ()"
    by (auto simp: test_proxy_handler_no_tunnel_def proxy_handler_def get_cookie_value_def header_str_def list_http_def
        test_request_def mock_app_state_def by_subdomain_def choose_best_tunnel_def via_cloud_def forward_to_cloud_def
        cloud_target_def trim_end_matches_def)
  show "test_forward_via_tunnel latency = Inr ()"
    by (simp add: test_forward_via_tunnel_def to_http_request_def headers_to_map_def test_post_def list_http_def
        visible_ascii_def forward_via_tunnel_def silent_env_def mock_app_state_def build_response_def test_response_def
        word_le_nat_alt word_less_nat_alt Let_def)
qed

section \<open>The choice of a tunnel\<close>

definition test_tunnels :: "(string, nat) hash" where
  "test_tunnels = fold (\<lambda>n. hash_insert n 1) [''app-01'', ''app-02'', ''app-03'', ''app-warning'', ''other-svc''] []"

definition test_health :: "instant \<Rightarrow> health_map" where
  "test_health now =
     [''app-01'' \<mapsto> (default_health now)\<lparr>status := Normal, avg_latency_ms := Some 50, error_rate := f64 (1 / 10)\<rparr>,
      ''app-02'' \<mapsto> (default_health now)\<lparr>status := Critical\<rparr>,
      ''app-03'' \<mapsto> (default_health now)\<lparr>status := Normal, avg_latency_ms := Some 200, error_rate := f64 (2 / 10)\<rparr>,
      ''app-warning'' \<mapsto> (default_health now)\<lparr>status := Warning, avg_latency_ms := Some 100, error_rate := f64 (5 / 10)\<rparr>]"

definition chosen :: "instant \<Rightarrow> string list \<Rightarrow> string option" where
  "chosen now removed = map_option fst (choose_best_tunnel (fold hash_remove removed test_tunnels) (test_health now) ''app'')"

definition test_choose_best_tunnel_logic :: "instant \<Rightarrow> string + unit" where
  "test_choose_best_tunnel_logic now = checks
     [check ''Should pick the best Normal tunnel (app-01)'' (chosen now [] = Some ''app-01''),
      check ''Should pick the next best Normal tunnel (app-03)'' (chosen now [''app-01''] = Some ''app-03''),
      check ''Should pick the Warning tunnel as a last resort'' (chosen now [''app-01'', ''app-03''] = Some ''app-warning''),
      check ''Should not pick a Critical tunnel'' (chosen now [''app-01'', ''app-03'', ''app-warning''] = None)]"

text \<open>
  The first three assertions hold; the last one fails, since a critical tunnel is the last choice and not
  excluded: the handler looks at its health afterwards.
\<close>

lemma f64_tenths: "f64 (1 / 10) \<le> f64 (2 / 10)"
  by (rule f64_mono) simp_all

lemma tunnel_choices:
  "chosen now [] = Some ''app-01''"
  "chosen now [''app-01''] = Some ''app-03''"
  "chosen now [''app-01'', ''app-03''] = Some ''app-warning''"
  "chosen now [''app-01'', ''app-03'', ''app-warning''] = Some ''app-02''"
  using f64_tenths
  by (simp_all add: chosen_def test_tunnels_def hash_remove_def choose_best_tunnel_def candidate_def starts_with_def
      test_health_def score_def status_rank_def default_health_def less_eq_prod_def sort_key_simps)

lemma choice_test_fails:
  "test_choose_best_tunnel_logic now = Inl ''Should not pick a Critical tunnel''"
  by (simp add: test_choose_best_tunnel_logic_def tunnel_choices)

section \<open>Health transitions\<close>

text \<open>All readings of a call are the time at which it is made; the sleeps of the test are ten seconds each.\<close>

definition failures_at :: "nat \<Rightarrow> instant \<Rightarrow> health_map \<Rightarrow> health_map" where
  "failures_at n t m = (mark_tunnel_failure (\<lambda>_. t) ''test-tunnel'' ^^ n) m"

definition successes_at :: "nat \<Rightarrow> instant \<Rightarrow> health_map \<Rightarrow> health_map" where
  "successes_at n t m = (mark_tunnel_success (\<lambda>_. t) ''test-tunnel'' (Some 50) ^^ n) m"

definition has_health :: "(tunnel_health \<Rightarrow> bool) \<Rightarrow> health_map \<Rightarrow> bool" where
  "has_health P m = (case m ''test-tunnel'' of None \<Rightarrow> False | Some h \<Rightarrow> P h)"

definition test_health_transitions :: "string + unit" where
  "test_health_transitions =
     (let m1 = failures_at 1 HYSTERESIS_DURATION Map.empty;
          m2 = failures_at (unat WARNING_TO_CRITICAL_FAILURES - 1) (2 * HYSTERESIS_DURATION) m1;
          m3 = failures_at 1 (3 * HYSTERESIS_DURATION) m2;
          m4 = successes_at 1 (4 * HYSTERESIS_DURATION) m3;
          m5 = (case m4 ''test-tunnel'' of None \<Rightarrow> m4 | Some h \<Rightarrow> m4(''test-tunnel'' \<mapsto> h\<lparr>status := Warning\<rparr>));
          m6 = successes_at (unat SUCCESS_TO_NORMAL) (5 * HYSTERESIS_DURATION) m5
      in checks
        [check ''First failure should trigger Warning status'' (has_health (\<lambda>h. status h = Warning) m1),
         check ''one failure'' (has_health (\<lambda>h. consecutive_failures h = 1) m1),
         check ''Should remain Warning until final failure'' (has_health (\<lambda>h. status h = Warning) m2),
         check ''failures'' (has_health (\<lambda>h. consecutive_failures h = WARNING_TO_CRITICAL_FAILURES) m2),
         check ''Exceeding failure threshold should trigger Critical status'' (has_health (\<lambda>h. status h = Critical) m3),
         check ''A Critical tunnel should not recover to Warning on a single success''
           (has_health (\<lambda>h. status h = Critical) m4),
         check ''Should recover to Normal after enough successes'' (has_health (\<lambda>h. status h = Normal) m6),
         check ''no failures'' (has_health (\<lambda>h. consecutive_failures h = 0) m6),
         check ''successes'' (has_health (\<lambda>h. consecutive_successes h = SUCCESS_TO_NORMAL) m6)])"

lemma health_test_fails:
  "test_health_transitions = Inl ''First failure should trigger Warning status''"
proof -
  have "\<not> has_health (\<lambda>h. status h = Warning) (failures_at 1 HYSTERESIS_DURATION Map.empty)"
    by (simp add: failures_at_def has_health_def mark_tunnel_failure_def entry_or_default_def failure_entry_def
        default_health_def HYSTERESIS_DURATION_def Let_def)
  then show ?thesis by (simp add: test_health_transitions_def Let_def)
qed

end
