(* ===== verification/Client_Props.thy ===== *)
theory Client_Props
  imports Client
begin

text \<open>
  Properties of the client, alone and together with the server: the handshake of both sides, data
  channels, the loop and its timers, the UDP forwarders, and hot reload.
\<close>

section \<open>Both sides of a handshake\<close>

text \<open>
  The exchange of one client with the server: each side's stretches run when the other's bytes are
  there. The result is what the client has (the session key or an error) and the server's state.
\<close>

definition exchange ::
  "codec \<Rightarrow> client_service \<Rightarrow> bytes \<Rightarrow> server_state \<Rightarrow> fault + ((err + digest) \<times> server_state)" where
  "exchange k cs nonce w =
     (let c1 = snd (client_hello k cs (fresh_conn []))
      in case read_hello k (fresh_conn (sent c1)) of
           (Inr (ControlChannelHello v d), s0) \<Rightarrow>
             rbind (handshake_begin k (srv_services w) d nonce s0) (\<lambda>(r, s1).
             rbind (client_auth k cs (c1\<lparr>inp := sent s1, sent := []\<rparr>)) (\<lambda>(a, c2).
             case a of
               Inl e \<Rightarrow> Inr (Inl e, w)
             | Inr key \<Rightarrow>
                 rbind (case r of
                          Inl e \<Rightarrow> Inr (s1\<lparr>sent := []\<rparr>, w)
                        | Inr (svc, cb) \<Rightarrow>
                            rbind (handshake_finish k d svc cb (s1\<lparr>inp := inp s1 @ sent c2, sent := []\<rparr>) w)
                              (\<lambda>(rs, s2, w'). Inr (s2, w')))
                   (\<lambda>(s2, w').
                     Inr (case client_ack k cs (c2\<lparr>inp := inp c2 @ sent s2\<rparr>) of
                            (Inl e, c3) \<Rightarrow> Inl e
                          | (Inr _, c3) \<Rightarrow> Inr key, w'))))
         | (_, s0) \<Rightarrow> Inr (Inl (Msg ''Unexpected type of hello''), w))"

lemma client_auth_ok:
  assumes "wire_codec k" "cs_token cs = Some t" "length nonce = HASH_WIDTH_IN_BYTES" "room c = None"
    and "inp c = ser_hello k (ControlChannelHello CURRENT_PROTO_VERSION nonce) @ rest"
  shows "client_auth k cs c = Inr (Inr (digest k (as_bytes t @ nonce)),
    c\<lparr>inp := rest, sent := sent c @ ser_auth k (Auth (digest k (as_bytes t @ nonce)))\<rparr>)"
proof -
  have "read_hello k c = (Inr (ControlChannelHello CURRENT_PROTO_VERSION nonce), c\<lparr>inp := rest\<rparr>)"
    using wire_codec.read_hello_ok [OF assms(1) _ assms(5)] assms(3) by simp
  then show ?thesis using assms(2,4) by (simp add: client_auth_def Let_def)
qed

lemma client_ack_ok:
  assumes "wire_codec k" "inp c = ser_ack k a @ rest"
  shows "client_ack k cs c =
    (if a = Ok then Inr () else Inl (Context (''Authentication failed: '' @ cs_name cs) (Msg (ack_display a))),
     c\<lparr>inp := rest\<rparr>)"
  using wire_codec.read_ack_ok [OF assms] by (simp add: client_ack_def act_bind_Inr)

lemma client_hello_ok:
  "room c = None \<Longrightarrow> client_hello k cs c =
    (Inr (), c\<lparr>sent := sent c @ ser_hello k (ControlChannelHello CURRENT_PROTO_VERSION (digest k (as_bytes (cs_name cs))))\<rparr>)"
  by (simp add: client_hello_def)

text \<open>
  C1. Client and server agree on the outcome of a handshake. With the same token the client gets the
  session key under which (and under the service) the server has just registered the channel; with
  a token that gives another digest the client is told \<open>Incorrect token\<close>, for a service that is not
  configured \<open>Service not exist\<close>, and in both cases the server is unchanged.
\<close>

theorem client_server_handshake_agrees:
  assumes "wire_codec k" "server_inv k N w" "cs_token cs = Some t" "length nonce = HASH_WIDTH_IN_BYTES"
    and "\<forall>d' h'. mm_tbl (srv_channels w) d' = Some (digest k (as_bytes t @ nonce), h') \<longrightarrow>
      d' = digest k (as_bytes (cs_name cs))"
  shows "\<exists>r w'. exchange k cs nonce w = Inr (r, w') \<and>
    (case map_of (srv_services w) (digest k (as_bytes (cs_name cs))) of
       None \<Rightarrow> r = Inl (Context (''Authentication failed: '' @ cs_name cs) (Msg ''Service not exist'')) \<and> w' = w
     | Some svc \<Rightarrow>
         if digest k (as_bytes (the (ss_token svc)) @ nonce) = digest k (as_bytes t @ nonce)
         then r = Inr (digest k (as_bytes t @ nonce))
           \<and> (\<exists>h. mm_get1 (digest k (as_bytes (cs_name cs))) (srv_channels w') = Inr (Some h)
                \<and> mm_get2 (digest k (as_bytes t @ nonce)) (srv_channels w') = Inr (Some h) \<and> h_service h = svc)
         else r = Inl (Context (''Authentication failed: '' @ cs_name cs) (Msg ''Incorrect token'')) \<and> w' = w)"
proof -
  let ?d = "digest k (as_bytes (cs_name cs))" and ?key = "digest k (as_bytes t @ nonce)"
  let ?hello = "ser_hello k (ControlChannelHello CURRENT_PROTO_VERSION nonce)"
  let ?c1 = "(fresh_conn [])\<lparr>sent := ser_hello k (ControlChannelHello CURRENT_PROTO_VERSION ?d)\<rparr>"
  let ?auth = "ser_auth k (Auth ?key)"
  note k = assms(1)
  have mm: "mm_inv (srv_channels w)" and svcs: "services_inv k (srv_services w)"
    using assms(2) by (simp_all add: server_inv_def)
  have h: "snd (client_hello k cs (fresh_conn [])) = ?c1"
    using client_hello_ok [of "fresh_conn []" k cs] by (simp add: fresh_conn_def)
  have rh: "read_hello k (fresh_conn (sent ?c1)) = (Inr (ControlChannelHello CURRENT_PROTO_VERSION ?d), fresh_conn [])"
    using wire_codec.read_hello_ok [OF k, of "ControlChannelHello CURRENT_PROTO_VERSION ?d" "fresh_conn (sent ?c1)" "[]"]
      wire_codec.length_digest [OF k] by (simp add: fresh_conn_def)
  have ca: "client_auth k cs (?c1\<lparr>inp := ?hello @ rest, sent := []\<rparr>) = Inr (Inr ?key, ?c1\<lparr>inp := rest, sent := ?auth\<rparr>)" for rest
    using client_auth_ok [OF k assms(3,4), of "?c1\<lparr>inp := ?hello @ rest, sent := []\<rparr>" rest] by (simp add: fresh_conn_def)
  have ack: "client_ack k cs (?c1\<lparr>inp := ser_ack k a, sent := ?auth\<rparr>) =
      (if a = Ok then Inr () else Inl (Context (''Authentication failed: '' @ cs_name cs) (Msg (ack_display a))),
       ?c1\<lparr>inp := [], sent := ?auth\<rparr>)" for a
    using client_ack_ok [OF k, of "?c1\<lparr>inp := ser_ack k a, sent := ?auth\<rparr>" a "[]"] by simp
  show ?thesis
  proof (cases "map_of (srv_services w) ?d")
    case None
    from handshake_begin_eqs(1) [of "fresh_conn []", OF _ None, of k nonce]
    have "handshake_begin k (srv_services w) ?d nonce (fresh_conn []) =
        Inr (Inl (Msg ''No such a service''), (fresh_conn [])\<lparr>sent := ?hello @ ser_ack k ServiceNotExist\<rparr>)"
      by (simp add: fresh_conn_def)
    with h rh ca [of "ser_ack k ServiceNotExist"] ack [of ServiceNotExist] None show ?thesis
      by (simp add: exchange_def Let_def)
  next
    case (Some svc)
    with svcs have sok: "service_ok svc" by (simp add: services_inv_def)
    then obtain ts where ts: "ss_token svc = Some ts" by (auto simp: service_ok_def)
    let ?s1 = "(fresh_conn [])\<lparr>sent := ?hello\<rparr>"
    have hb: "handshake_begin k (srv_services w) ?d nonce (fresh_conn []) = Inr (Inr (svc, as_bytes ts @ nonce), ?s1)"
      using handshake_begin_eqs(2) [of "fresh_conn []", OF _ Some ts, of k nonce] by (simp add: fresh_conn_def)
    let ?s2 = "?s1\<lparr>inp := ?auth, sent := []\<rparr>"
    show ?thesis
    proof (cases "digest k (as_bytes ts @ nonce) = ?key")
      case True
      have "room ?s2 = None" "inp ?s2 = ser_auth k (Auth (digest k (as_bytes ts @ nonce))) @ []"
        using True by (simp_all add: fresh_conn_def)
      from handshake_finish_accepts [OF k this sok mm, of ?d] assms(5) True obtain w' hd where
        fin: "handshake_finish k ?d svc (as_bytes ts @ nonce) ?s2 w = Inr (Inr (), ?s2\<lparr>inp := [], sent := ser_ack k Ok\<rparr>, w')"
          "mm_inv (srv_channels w')" "mm_tbl (srv_channels w') = (mm_tbl (srv_channels w))(?d \<mapsto> (?key, hd))" "h_service hd = svc"
        by auto
      have "exchange k cs nonce w = Inr (Inr ?key, w')"
        using h rh hb ca [of "[]"] ack [of Ok] fin(1) by (simp add: exchange_def Let_def fresh_conn_def)
      with mm.get1_tbl [OF fin(2), of ?d] mm.get2_Some [OF fin(2), of ?d ?key hd] fin(3,4) Some ts True show ?thesis
        by simp
    next
      case False
      then have "?key \<noteq> digest k (as_bytes ts @ nonce)" by simp
      from handshake_finish_rejects [OF k _ _ wire_codec.length_digest [OF k] this, of ?s2 "[]" ?d svc w]
      have "handshake_finish k ?d svc (as_bytes ts @ nonce) ?s2 w =
          Inr (Inl (Msg (''Service '' @ ss_name svc @ '' failed the authentication'')), ?s2\<lparr>inp := [], sent := ser_ack k AuthFailed\<rparr>, w)"
        by (simp add: fresh_conn_def)
      with h rh hb ca [of "[]"] ack [of AuthFailed] Some ts False show ?thesis
        by (simp add: exchange_def Let_def fresh_conn_def)
    qed
  qed
qed

definition app_client :: client_service where
  "app_client = (client_service_with_name ''app'')\<lparr>cs_token := Some ''t''\<rparr>"

theorem client_server_handshake_agrees_witness:
  "\<exists>w' h. exchange bincode app_client (replicate 32 7) app_server = Inr (Inr (app_key (replicate 32 7)), w')
    \<and> mm_get2 (app_key (replicate 32 7)) (srv_channels w') = Inr (Some h) \<and> h_service h = app_service"
proof -
  have "cs_token app_client = Some ''t''" "length (replicate 32 (7 :: byte)) = HASH_WIDTH_IN_BYTES"
    "\<forall>d' h'. mm_tbl (srv_channels app_server) d' = Some (digest bincode (as_bytes ''t'' @ replicate 32 7), h') \<longrightarrow>
      d' = digest bincode (as_bytes (cs_name app_client))"
    by (simp_all add: app_client_def HASH_WIDTH_IN_BYTES_def app_server_sel mm_new_inv)
  from client_server_handshake_agrees [OF bincode.wire_codec_axioms app_server_inv [of "{}"] this]
  show ?thesis
    by (auto simp: app_server_sel app_service_sel app_client_def client_service_with_name_def app_key_def)
qed



section \<open>The loop\<close>

lemma loop_reach_tick_near:
  assumes "loop_reach hb s0 s" "lc_tick s0 \<le> lc_now s0 + secs 10"
  shows "lc_tick s \<le> lc_now s + secs 10"
  using assms
proof (induction rule: loop_reach.induct)
  case (step s b s')
  then have "lc_tick s \<le> lc_now s + secs 10" by simp
  with step.hyps(2) show ?case
    by (cases rule: loop_round.cases) (auto simp: ready_at_def heartbeat_deadline_def)
qed

text \<open>
  The heartbeat timeout of more than ten seconds never fires: each round makes the sleep anew, and
  the health interval ends every round within ten seconds, so with the default of 40 seconds the
  client does not notice a server that has gone silent, however the rounds go.
\<close>

theorem heartbeat_timeout_never_fires:
  assumes "10 < unat hb" "lc_tick s0 = lc_now s0" "loop_reach hb s0 s"
  shows "\<not> loop_round hb s Took_Timeout s'"
proof
  assume "loop_round hb s Took_Timeout s'"
  then have "heartbeat_deadline hb s \<le> ready_at s (lc_tick s)" by (rule timeoutE) simp
  moreover have "lc_tick s \<le> lc_now s + secs 10" using loop_reach_tick_near [OF assms(3)] assms(2) by simp
  ultimately show False using assms(1) by (simp add: heartbeat_deadline_def ready_at_def max_def split: if_splits)
qed

theorem heartbeat_timeout_never_fires_witness:
  "\<not> (\<exists>s'. loop_round DEFAULT_HEARTBEAT_TIMEOUT_SECS \<lparr>lc_now = secs 3, lc_tick = secs 13, lc_cmds = []\<rparr> Took_Timeout s')"
proof -
  let ?s0 = "\<lparr>lc_now = secs 3, lc_tick = secs 3, lc_cmds = []\<rparr>"
  have "loop_round DEFAULT_HEARTBEAT_TIMEOUT_SECS ?s0 Took_Tick (?s0\<lparr>lc_now := secs 3, lc_tick := lc_tick ?s0 + secs 10\<rparr>)"
    by (rule loop_round.tick) (simp_all add: ready_at_def no_cmd_before_def heartbeat_deadline_def)
  from loop_reach.step [OF loop_reach.start this]
  have "loop_reach DEFAULT_HEARTBEAT_TIMEOUT_SECS ?s0 \<lparr>lc_now = secs 3, lc_tick = secs 13, lc_cmds = []\<rparr>" by simp
  from heartbeat_timeout_never_fires [OF _ _ this] show ?thesis
    by (simp add: DEFAULT_HEARTBEAT_TIMEOUT_SECS_def)
qed

text \<open>
  A connection that breaks while a health report is written ends the service for good: the run
  returns without an error, so the supervising task stops and never reconnects, whereas an error of
  reading a command makes it reconnect.
\<close>

theorem failed_report_ends_service:
  assumes "room c = Some n" "n < length report"
  shows "client_loop k (Health_Tick report taken # evs) c m = (m, c, Some (Inr ()))
    \<and> supervise ((the (snd (snd (client_loop k (Health_Tick report taken # evs) c m))), sd) # rs) r = Ended r
    \<and> supervise ((Inl e, False) # rs) r = supervise rs (r + 1)"
  using assms by (simp add: client_loop_step_def write_all_def)

theorem failed_report_ends_service_witness:
  "client_loop bincode [Health_Tick [123, 125] 0, Cmd_Ready] ((fresh_conn [])\<lparr>room := Some 1\<rparr>) 0 =
    (0, (fresh_conn [])\<lparr>room := Some 1\<rparr>, Some (Inr ()))"
  using failed_report_ends_service [of "(fresh_conn [])\<lparr>room := Some 1\<rparr>" 1 "[123, 125]" bincode 0 "[Cmd_Ready]" 0]
  by simp

text \<open>
  A health report that interrupts the read of a command breaks the channel: when one to three of
  the four bytes of a \<open>CreateDataChannel\<close> had been read, they are lost, and with the wire format of
  bincode the next command is an error that ends the run.
\<close>

theorem interrupted_command_breaks_channel:
  assumes "taken \<in> {1, 2, 3}" "room c = None"
    and "inp c = ser_ccmd bincode CreateDataChannel @ ser_ccmd bincode HeartBeat @ rest"
  shows "\<exists>c' e. client_loop bincode [Health_Tick report taken, Cmd_Ready] c m = (m, c', Some (Inl e))"
proof -
  have four: "(4 :: nat) = Suc (Suc (Suc (Suc 0)))" by simp
  have le: "le 4 0 = [0, 0, 0, 0]" "le 4 (Suc 0) = [1, 0, 0, 0]" unfolding four by simp_all
  have len: "len_c_cmd (PACKET_LEN bincode) = 4" by (simp add: PACKET_LEN_def Let_def)
  let ?c = "c\<lparr>inp := drop taken (inp c), sent := sent c @ report\<rparr>"
  have i: "\<exists>b. take 4 (inp ?c) = b \<and> length (inp ?c) \<ge> 4 \<and> un_le b \<ge> 2"
    using assms(1) by (auto simp: assms(3) bc_variant_def le)
  then have "read_control_cmd bincode ?c = (Inl (Context ''Failed to deserialize control cmd'' (Msg ''bincode'')), ?c\<lparr>inp := drop 4 (inp ?c)\<rparr>)"
    by (simp add: read_control_cmd_def read_packet_def len act_bind_def with_context_def read_exact_def
        deserialize_def bc_de_enum_def Let_def)
  with assms(2) show ?thesis by (simp add: client_loop_step_def)
qed

theorem interrupted_command_breaks_channel_witness:
  "\<exists>c' e. client_loop bincode [Health_Tick [123, 125] 2, Cmd_Ready]
     (fresh_conn (ser_ccmd bincode CreateDataChannel @ ser_ccmd bincode HeartBeat @ [])) 0 = (0, c', Some (Inl e))"
  by (rule interrupted_command_breaks_channel [where rest = "[]"]) (simp_all add: fresh_conn_def)

section \<open>UDP forwarders\<close>

lemma nth_update_any: "xs[i := x] ! j = (if i = j \<and> j < length xs then x else xs ! j)"
  by (cases "i < length xs"; cases "i = j") (simp_all add: list_update_beyond)

lemma forwarders_other:
  assumes "i < length (uc_forwarders u)" "\<not> fw_alive (uc_forwarders u ! i)"
  shows "uc_forwarders (forwarder_step j ev u) ! i = uc_forwarders u ! i
    \<and> i < length (uc_forwarders (forwarder_step j ev u))"
proof (cases "j = i")
  case True
  with assms show ?thesis by (simp add: forwarder_step_def)
next
  case False
  then show ?thesis
    using assms(1)
    by (simp add: forwarder_step_def forwarder_break_def Let_def split: forwarder_event.splits list.splits)
qed

lemma packet_keeps_dead:
  assumes "map_of (uc_port_map u) a = Some i" "i < length (uc_forwarders u)" "\<not> fw_alive (uc_forwarders u ! i)"
    and "list_all (\<lambda>f. fw_alive f \<longrightarrow> fw_from f \<noteq> a) (uc_forwarders u)"
  shows "map_of (uc_port_map (udp_packet b p u)) a = Some i \<and> i < length (uc_forwarders (udp_packet b p u))
    \<and> uc_forwarders (udp_packet b p u) ! i = uc_forwarders u ! i
    \<and> list_all (\<lambda>f. fw_alive f \<longrightarrow> fw_from f \<noteq> a) (uc_forwarders (udp_packet b p u))"
proof (cases "map_of (uc_port_map u) (udp_from p)")
  case None
  then have "udp_from p \<noteq> a" using assms(1) by auto
  with None assms show ?thesis by (auto simp: udp_packet_def Let_def nth_append)
next
  case (Some x)
  then show ?thesis
    using assms by (auto simp: udp_packet_def Let_def list_all_length nth_update_any)
qed

lemma forwarder_keeps_dead:
  assumes "map_of (uc_port_map u) a = Some i" "list_all (\<lambda>f. fw_alive f \<longrightarrow> fw_from f \<noteq> a) (uc_forwarders u)"
  shows "map_of (uc_port_map (forwarder_step j e u)) a = Some i
    \<and> list_all (\<lambda>f. fw_alive f \<longrightarrow> fw_from f \<noteq> a) (uc_forwarders (forwarder_step j e u))"
proof (cases "length (uc_forwarders u) \<le> j \<or> \<not> fw_alive (uc_forwarders u ! j)")
  case True
  with assms show ?thesis by (simp add: forwarder_step_def)
next
  case False
  with assms(2) have "fw_from (uc_forwarders u ! j) \<noteq> a" by (simp add: list_all_length)
  with assms False show ?thesis
    by (auto simp: forwarder_step_def forwarder_break_def Let_def list_all_length nth_update_any not_le
        split: forwarder_event.splits list.splits)
qed

lemma dead_entry_stays:
  assumes "map_of (uc_port_map u) a = Some i" "i < length (uc_forwarders u)" "\<not> fw_alive (uc_forwarders u ! i)"
    and "list_all (\<lambda>f. fw_alive f \<longrightarrow> fw_from f \<noteq> a) (uc_forwarders u)"
  shows "map_of (uc_port_map (udp_client_run evs u)) a = Some i
    \<and> uc_forwarders (udp_client_run evs u) ! i = uc_forwarders u ! i
    \<and> list_all (\<lambda>f. fw_alive f \<longrightarrow> fw_from f \<noteq> a) (uc_forwarders (udp_client_run evs u))"
  using assms
proof (induction evs arbitrary: u)
  case (Cons ev evs)
  show ?case
  proof (cases ev)
    case (Server_Packet b p)
    let ?u = "udp_packet b p u"
    have "map_of (uc_port_map ?u) a = Some i" "i < length (uc_forwarders ?u)" "uc_forwarders ?u ! i = uc_forwarders u ! i"
      "list_all (\<lambda>f. fw_alive f \<longrightarrow> fw_from f \<noteq> a) (uc_forwarders ?u)"
      using packet_keeps_dead [OF Cons.prems] by simp_all
    with Cons.IH [of ?u] Cons.prems(3) show ?thesis by (simp add: Server_Packet)
  next
    case (Forwarder j e)
    let ?u = "forwarder_step j e u"
    have "map_of (uc_port_map ?u) a = Some i"
      "list_all (\<lambda>f. fw_alive f \<longrightarrow> fw_from f \<noteq> a) (uc_forwarders ?u)"
      using forwarder_keeps_dead [OF Cons.prems(1,4)] by simp_all
    with Cons.IH [of ?u] Cons.prems forwarders_other [OF Cons.prems(2,3), of j e] show ?thesis
      by (simp add: Forwarder)
  qed
qed simp

text \<open>
  A UDP visitor can be cut off for the life of the data channel: when the forwarder of its address
  fails to send to the local service, the task ends without removing its entry, and from then on,
  whatever else happens, no forwarder is made for that address and nothing from it is delivered.
\<close>

theorem failed_udp_send_cuts_visitor_off:
  assumes "i < length (uc_forwarders u)" "fw_alive (uc_forwarders u ! i)" "fw_from (uc_forwarders u ! i) = a"
    and "fw_inbox (uc_forwarders u ! i) = d # ds" "map_of (uc_port_map u) a = Some i"
    and "\<forall>j < length (uc_forwarders u). j \<noteq> i \<longrightarrow> fw_from (uc_forwarders u ! j) \<noteq> a"
  shows "let u' = udp_client_run (Forwarder i (Inbound False) # evs) u
    in map_of (uc_port_map u') a = Some i
      \<and> uc_forwarders u' ! i = (uc_forwarders u ! i)\<lparr>fw_inbox := ds, fw_alive := False\<rparr>
      \<and> list_all (\<lambda>f. fw_alive f \<longrightarrow> fw_from f \<noteq> a) (uc_forwarders u')"
proof -
  let ?u = "forwarder_step i (Inbound False) u"
  have "?u = u\<lparr>uc_forwarders := (uc_forwarders u)[i := (uc_forwarders u ! i)\<lparr>fw_inbox := ds, fw_alive := False\<rparr>]\<rparr>"
    using assms(1,2,4) by (simp add: forwarder_step_def Let_def)
  with dead_entry_stays [of ?u a i evs] assms show ?thesis
    by (auto simp: Let_def list_all_length nth_list_update)
qed

definition one_forwarder :: udp_client where
  "one_forwarder = \<lparr>uc_port_map = [(V4 0x0A000001 99, 0)],
     uc_forwarders = [\<lparr>fw_from = V4 0x0A000001 99, fw_inbox = [[1]], fw_sent = [], fw_alive = True\<rparr>], uc_outbound = []\<rparr>"

theorem failed_udp_send_cuts_visitor_off_witness:
  "map_of (uc_port_map (udp_client_run [Forwarder 0 (Inbound False), Server_Packet True \<lparr>udp_from = V4 0x0A000001 99, udp_data = [2]\<rparr>]
     one_forwarder)) (V4 0x0A000001 99) = Some 0"
  using failed_udp_send_cuts_visitor_off [where u = one_forwarder and i = 0 and a = "V4 0x0A000001 99" and d = "[1]" and ds = "[]"
      and evs = "[Server_Packet True \<lparr>udp_from = V4 0x0A000001 99, udp_data = [2]\<rparr>]"]
  by (simp add: one_forwarder_def Let_def)

section \<open>Services of the client\<close>

definition live_services :: "client_state \<Rightarrow> string \<rightharpoonup> client_service" where
  "live_services w n = (case map_of (cl_handles w) n of None \<Rightarrow> None | Some i \<Rightarrow> Some (fst (cl_tasks w ! i)))"

definition client_inv :: "client_state \<Rightarrow> bool" where
  "client_inv w =
     ((\<forall>n i. map_of (cl_handles w) n = Some i \<longrightarrow> i < length (cl_tasks w) \<and> \<not> snd (cl_tasks w ! i))
      \<and> (\<forall>n n' i. map_of (cl_handles w) n = Some i \<longrightarrow> map_of (cl_handles w) n' = Some i \<longrightarrow> n = n')
      \<and> (\<forall>i < length (cl_tasks w). \<not> snd (cl_tasks w ! i) \<longrightarrow> (\<exists>n. map_of (cl_handles w) n = Some i)))"

lemma client_invI:
  assumes "\<And>n i. map_of (cl_handles w) n = Some i \<Longrightarrow> i < length (cl_tasks w) \<and> \<not> snd (cl_tasks w ! i)"
    and "\<And>n n' i. map_of (cl_handles w) n = Some i \<Longrightarrow> map_of (cl_handles w) n' = Some i \<Longrightarrow> n = n'"
    and "\<And>i. i < length (cl_tasks w) \<Longrightarrow> \<not> snd (cl_tasks w ! i) \<Longrightarrow> \<exists>n. map_of (cl_handles w) n = Some i"
  shows "client_inv w"
  unfolding client_inv_def using assms by blast

lemma client_invD:
  assumes "client_inv w"
  shows "map_of (cl_handles w) n = Some i \<Longrightarrow> i < length (cl_tasks w) \<and> \<not> snd (cl_tasks w ! i)"
    and "map_of (cl_handles w) n = Some i \<Longrightarrow> map_of (cl_handles w) n' = Some i \<Longrightarrow> n = n'"
    and "i < length (cl_tasks w) \<Longrightarrow> \<not> snd (cl_tasks w ! i) \<Longrightarrow> \<exists>n. map_of (cl_handles w) n = Some i"
  using assms by (auto simp: client_inv_def)

lemma length_stop_task [simp]: "length (stop_task i ts) = length ts"
  by (simp add: stop_task_def split: option.splits)

lemma stop_task_nth:
  "i < length ts \<Longrightarrow> stop_task o' ts ! i = (fst (ts ! i), if o' = Some i then True else snd (ts ! i))"
  by (auto simp: stop_task_def nth_list_update split: option.splits)

lemma remove_service_inv:
  assumes "client_inv w"
  shows "client_inv (w\<lparr>cl_handles := hash_remove n (cl_handles w), cl_tasks := stop_task (map_of (cl_handles w) n) (cl_tasks w)\<rparr>)"
    and "live_services (w\<lparr>cl_handles := hash_remove n (cl_handles w), cl_tasks := stop_task (map_of (cl_handles w) n) (cl_tasks w)\<rparr>)
      = (live_services w)(n := None)"
proof -
  let ?w = "w\<lparr>cl_handles := hash_remove n (cl_handles w), cl_tasks := stop_task (map_of (cl_handles w) n) (cl_tasks w)\<rparr>"
  note D = client_invD [OF assms]
  show "client_inv ?w"
  proof (rule client_invI)
    fix m i
    assume "map_of (cl_handles ?w) m = Some i"
    then have m: "m \<noteq> n" "map_of (cl_handles w) m = Some i" by (simp_all split: if_splits)
    with D(2) [of m i n] have "map_of (cl_handles w) n \<noteq> Some i" by auto
    with D(1) [OF m(2)] show "i < length (cl_tasks ?w) \<and> \<not> snd (cl_tasks ?w ! i)"
      by (simp add: stop_task_nth)
  next
    fix m m' i
    assume "map_of (cl_handles ?w) m = Some i" "map_of (cl_handles ?w) m' = Some i"
    then show "m = m'" using D(2) [of m i m'] by (simp split: if_splits)
  next
    fix i
    assume i: "i < length (cl_tasks ?w)" "\<not> snd (cl_tasks ?w ! i)"
    then have "map_of (cl_handles w) n \<noteq> Some i" "\<not> snd (cl_tasks w ! i)"
      by (simp_all add: stop_task_nth split: if_splits)
    with D(3) [of i] i(1) obtain m where "map_of (cl_handles w) m = Some i" by auto
    with \<open>map_of (cl_handles w) n \<noteq> Some i\<close> show "\<exists>m. map_of (cl_handles ?w) m = Some i"
      by (intro exI [of _ m]) auto
  qed
  show "live_services ?w = (live_services w)(n := None)"
  proof
    fix m
    show "live_services ?w m = ((live_services w)(n := None)) m"
      using D(1) [of m] by (auto simp: live_services_def stop_task_nth split: option.splits)
  qed
qed

lemma append_service_inv:
  assumes "client_inv w" "map_of (cl_handles w) n = None"
  shows "client_inv (w\<lparr>cl_handles := hash_insert n (length (cl_tasks w)) (cl_handles w), cl_tasks := cl_tasks w @ [(cs, False)]\<rparr>)"
    and "live_services (w\<lparr>cl_handles := hash_insert n (length (cl_tasks w)) (cl_handles w), cl_tasks := cl_tasks w @ [(cs, False)]\<rparr>)
      = (live_services w)(n \<mapsto> cs)"
proof -
  let ?w = "w\<lparr>cl_handles := hash_insert n (length (cl_tasks w)) (cl_handles w), cl_tasks := cl_tasks w @ [(cs, False)]\<rparr>"
  note D = client_invD [OF assms(1)]
  show "client_inv ?w"
  proof (rule client_invI)
    fix m i
    assume "map_of (cl_handles ?w) m = Some i"
    then show "i < length (cl_tasks ?w) \<and> \<not> snd (cl_tasks ?w ! i)"
      using D(1) [of m i] by (cases "m = n") (auto simp: nth_append)
  next
    fix m m' i
    assume "map_of (cl_handles ?w) m = Some i" "map_of (cl_handles ?w) m' = Some i"
    then show "m = m'"
      using D(1) [of m i] D(1) [of m' i] D(2) [of m i m'] by (simp split: if_splits)
  next
    fix i
    assume i: "i < length (cl_tasks ?w)" "\<not> snd (cl_tasks ?w ! i)"
    show "\<exists>m. map_of (cl_handles ?w) m = Some i"
    proof (cases "i = length (cl_tasks w)")
      case True
      then show ?thesis by (intro exI [of _ n]) simp
    next
      case False
      with i D(3) [of i] obtain m where m: "map_of (cl_handles w) m = Some i" by (auto simp: nth_append)
      with assms(2) have "m \<noteq> n" by auto
      with m show ?thesis by (intro exI [of _ m]) simp
    qed
  qed
  show "live_services ?w = (live_services w)(n \<mapsto> cs)"
  proof
    fix m
    show "live_services ?w m = ((live_services w)(n \<mapsto> cs)) m"
      using D(1) [of m] by (auto simp: live_services_def nth_append split: option.splits)
  qed
qed

lemma start_service_step:
  assumes inv: "client_inv w" and r: "cs_retry_interval cs \<noteq> None"
  shows "\<exists>w'. start_service n cs w = Inr w' \<and> client_inv w' \<and> live_services w' = (live_services w)(n \<mapsto> cs)"
proof -
  let ?w1 = "w\<lparr>cl_handles := hash_remove n (cl_handles w), cl_tasks := stop_task (map_of (cl_handles w) n) (cl_tasks w)\<rparr>"
  let ?w2 = "?w1\<lparr>cl_handles := hash_insert n (length (cl_tasks ?w1)) (cl_handles ?w1), cl_tasks := cl_tasks ?w1 @ [(cs, False)]\<rparr>"
  let ?w' = "w\<lparr>cl_handles := hash_insert n (length (cl_tasks w)) (cl_handles w),
      cl_tasks := stop_task (map_of (cl_handles w) n) (cl_tasks w @ [(cs, False)])\<rparr>"
  have two: "client_inv ?w2" "live_services ?w2 = (live_services ?w1)(n \<mapsto> cs)"
    using append_service_inv [OF remove_service_inv(1) [OF inv], of n n cs] by simp_all
  have tasks: "stop_task (map_of (cl_handles w) n) (cl_tasks w @ [(cs, False)])
      = stop_task (map_of (cl_handles w) n) (cl_tasks w) @ [(cs, False)]"
    using client_invD(1) [OF inv, of n] by (auto simp: stop_task_def nth_append list_update_append split: option.splits)
  have handles: "map_of (cl_handles ?w') = map_of (cl_handles ?w2)" by (simp add: fun_eq_iff)
  have "client_inv ?w' \<longleftrightarrow> client_inv ?w2"
    unfolding client_inv_def handles by (simp add: tasks)
  moreover have "live_services ?w' = live_services ?w2"
    by (rule ext) (auto simp: live_services_def tasks split: option.splits)
  moreover have "start_service n cs w = Inr ?w'" using r by (auto simp: start_service_def)
  ultimately show ?thesis using two remove_service_inv(2) [OF inv, of n] by simp
qed

fun client_event_ok :: "config_change \<Rightarrow> bool" where
  "client_event_ok (ClientChange (Add_Client c)) = (cs_retry_interval c \<noteq> None)"
| "client_event_ok (General c) = False"
| "client_event_ok e = True"

lemma client_reload_step:
  assumes "client_inv w" "client_event_ok e"
  shows "\<exists>w'. client_hot_reload e w = Inr w' \<and> client_inv w' \<and> live_services w' = apply_client_event e (live_services w)"
proof (cases e)
  case (ClientChange c)
  show ?thesis
  proof (cases c)
    case (Add_Client c)
    with start_service_step [OF assms(1), of c "cs_name c"] assms(2) ClientChange show ?thesis
      by (simp add: client_hot_reload_def)
  next
    case (Delete_Client n)
    with remove_service_inv [OF assms(1), of n] ClientChange show ?thesis by (simp add: client_hot_reload_def)
  qed
qed (use assms in \<open>simp_all add: client_hot_reload_def\<close>)

lemma client_reloads_run:
  assumes "client_inv w" "list_all client_event_ok es"
  shows "\<exists>w'. client_reloads es w = Inr w' \<and> client_inv w' \<and> live_services w' = fold apply_client_event es (live_services w)"
  using assms
proof (induction es arbitrary: w)
  case (Cons e es)
  then obtain w' where "client_hot_reload e w = Inr w'" "client_inv w'" "live_services w' = apply_client_event e (live_services w)"
    using client_reload_step [of w e] by auto
  with Cons show ?case by fastforce
qed simp

lemma start_all_run:
  assumes "client_inv w" "list_all (\<lambda>(n, c). cs_retry_interval c \<noteq> None) svs" "distinct (map fst svs)"
    and "\<And>n. n \<in> fst ` set svs \<Longrightarrow> live_services w n = None"
  shows "\<exists>w'. start_all svs w = Inr w' \<and> client_inv w' \<and> live_services w' = live_services w ++ map_of svs"
  using assms
proof (induction svs arbitrary: w)
  case (Cons e svs)
  obtain n c where e: "e = (n, c)" by (cases e)
  obtain w1 where w1: "start_service n c w = Inr w1" "client_inv w1" "live_services w1 = (live_services w)(n \<mapsto> c)"
    using start_service_step [OF Cons.prems(1), of c n] Cons.prems(2) e by auto
  have "live_services w1 m = None" if "m \<in> fst ` set svs" for m
    using that w1(3) Cons.prems(3,4) e by (auto simp: rev_image_eqI)
  with Cons.IH [OF w1(2)] Cons.prems(2,3) e obtain w' where
    "start_all svs w1 = Inr w'" "client_inv w'" "live_services w' = live_services w1 ++ map_of svs" by auto
  moreover have "live_services w1 ++ map_of svs = live_services w ++ map_of (e # svs)"
  proof
    fix x
    have "map_of svs n = None" using Cons.prems(3) e by (simp add: map_of_eq_None_iff)
    then show "(live_services w1 ++ map_of svs) x = (live_services w ++ map_of (e # svs)) x"
      by (auto simp: e w1(3) map_add_def split: option.splits)
  qed
  ultimately show ?case using w1(1) e by (simp del: map_of.simps)
qed simp

lemma shutdown_stops_all:
  assumes "client_inv w" "i < length (cl_tasks w)"
  shows "snd (cl_tasks (client_shutdown w) ! i)"
proof -
  have keep: "snd (fold (\<lambda>e. stop_task (Some (snd e))) es ts ! j)" if "j < length ts" "snd (ts ! j)" for es ts j
    using that by (induction es arbitrary: ts) (simp_all add: stop_task_nth)
  have stop: "snd (fold (\<lambda>e. stop_task (Some (snd e))) es ts ! j)" if "j < length ts" "\<exists>e \<in> set es. snd e = j" for es ts j
    using that
  proof (induction es arbitrary: ts)
    case (Cons e es)
    then show ?case by (cases "snd e = j") (auto simp: stop_task_nth intro: keep)
  qed simp
  show ?thesis
  proof (cases "snd (cl_tasks w ! i)")
    case True
    then show ?thesis using keep [OF assms(2)] by (simp add: client_shutdown_def)
  next
    case False
    with client_invD(3) [OF assms] obtain n where "map_of (cl_handles w) n = Some i" by blast
    then have "\<exists>e \<in> set (cl_handles w). snd e = i" by (force dest: map_of_SomeD)
    from stop [OF assms(2) this] show ?thesis by (simp add: client_shutdown_def)
  qed
qed


definition one_client :: client_config where
  "one_client =
     \<lparr>cc_remote_addr = ''example.com:2333'', cc_default_token = None, cc_prefer_ipv6 = None,
      cc_services = [(''app'', app_client\<lparr>cs_retry_interval := Some 1\<rparr>)], cc_transport = default_transport_config,
      cc_heartbeat_timeout = 40, cc_retry_interval = 1\<rparr>"


end
