(* ===== verification/Tcp_Path.thy ===== *)
theory Tcp_Path
  imports Client "HOL-Library.Sublist"
begin

text \<open>
  The way of a TCP visitor's bytes: its socket at the server, the data channel it was paired with by
  \<open>run_tcp_connection_pool\<close> of \<open>src/rathole/src/server.rs\<close>, and the connection to the local service that
  \<open>run_data_channel_for_tcp\<close> of \<open>src/rathole/src/client.rs\<close> makes. Either program hands its two streams to
  tokio's \<open>copy_bidirectional\<close>.
\<close>

section \<open>Copying\<close>

text \<open>
  One side's view of a stream: what has arrived and is not read, whether the end comes after it, what was
  written and the transport has not taken, and whether nothing more will be written.
\<close>

record tcp_end =
  te_unread :: bytes
  te_eof :: bool
  te_out :: bytes
  te_shut :: bool

definition new_end :: tcp_end where
  "new_end = \<lparr>te_unread = [], te_eof = False, te_out = [], te_shut = False\<rparr>"

text \<open>
  What may happen in one direction while the library copies: some bytes move, in order; the target is shut
  down only when the source is at its end, and is not written after that.
\<close>

definition flows :: "tcp_end \<Rightarrow> tcp_end \<Rightarrow> tcp_end \<Rightarrow> tcp_end \<Rightarrow> bool" where
  "flows a b a' b' =
     ((\<exists>n. te_unread a' = drop n (te_unread a) \<and> te_out b' = te_out b @ take n (te_unread a)) \<and>
      te_eof a' = te_eof a \<and> (te_shut b \<longrightarrow> te_shut b' \<and> te_out b' = te_out b) \<and>
      (te_shut b' \<longrightarrow> te_shut b \<or> te_eof a \<and> te_unread a' = []))"

lemma flows_all:
  assumes "flows a b a' b'" "te_unread a' = []" "te_eof a \<longrightarrow> te_shut b'"
  shows "te_out b' = te_out b @ te_unread a \<and> te_shut b' = (te_shut b \<or> te_eof a)"
  using assms by (auto simp: flows_def)

text \<open>
  The documented behaviour of \<open>copy_bidirectional\<close>, up to its next wait: both directions flow, or there
  was an error, after which the future has returned. While it can write it can go on until everything
  there is copied, and shuts a stream down when the other one is at its end.
\<close>

locale copy_lib =
  fixes copy :: "'k \<Rightarrow> tcp_end \<Rightarrow> tcp_end \<Rightarrow> (tcp_end \<times> tcp_end) option"
  assumes copies: "copy x a b = Some (a', b') \<Longrightarrow> flows a b a' b' \<and> flows b a b' a'"
    and drains: "(te_shut a \<longrightarrow> te_unread b = []) \<Longrightarrow> (te_shut b \<longrightarrow> te_unread a = []) \<Longrightarrow>
      \<exists>x a' b'. copy x a b = Some (a', b') \<and> te_unread a' = [] \<and> te_unread b' = [] \<and>
        (te_eof a \<longrightarrow> te_shut b') \<and> (te_eof b \<longrightarrow> te_shut a')"
begin

lemma drained:
  assumes "te_shut a \<longrightarrow> te_unread b = []" "te_shut b \<longrightarrow> te_unread a = []"
  obtains x where "copy x a b =
    Some (a\<lparr>te_unread := [], te_out := te_out a @ te_unread b, te_shut := te_shut a \<or> te_eof b\<rparr>,
          b\<lparr>te_unread := [], te_out := te_out b @ te_unread a, te_shut := te_shut b \<or> te_eof a\<rparr>)"
proof -
  from drains [OF assms] obtain x a' b' where c: "copy x a b = Some (a', b')" "te_unread a' = []" "te_unread b' = []"
    "te_eof a \<longrightarrow> te_shut b'" "te_eof b \<longrightarrow> te_shut a'" by blast
  note f = copies [OF c(1)]
  have "a' = a\<lparr>te_unread := [], te_out := te_out a @ te_unread b, te_shut := te_shut a \<or> te_eof b\<rparr>"
    using flows_all [OF _ c(3,5), of a] f c(2) by (intro tcp_end.equality) (simp_all add: flows_def)
  moreover have "b' = b\<lparr>te_unread := [], te_out := te_out b @ te_unread a, te_shut := te_shut b \<or> te_eof a\<rparr>"
    using flows_all [OF _ c(2,4), of b] f c(3) by (intro tcp_end.equality) (simp_all add: flows_def)
  ultimately show thesis using c(1) that by blast
qed

end

text \<open>An instance: the numbers of bytes moved are given, or the error.\<close>

definition copy_some :: "(nat \<times> nat) option \<Rightarrow> tcp_end \<Rightarrow> tcp_end \<Rightarrow> (tcp_end \<times> tcp_end) option" where
  "copy_some x a b =
     (case x of
        None \<Rightarrow> None
      | Some (n, m) \<Rightarrow>
          let up = (if te_shut b then 0 else n); down = (if te_shut a then 0 else m)
          in Some
            (a\<lparr>te_unread := drop up (te_unread a), te_out := te_out a @ take down (te_unread b),
               te_shut := te_shut a \<or> te_eof b \<and> drop down (te_unread b) = []\<rparr>,
             b\<lparr>te_unread := drop down (te_unread b), te_out := te_out b @ take up (te_unread a),
               te_shut := te_shut b \<or> te_eof a \<and> drop up (te_unread a) = []\<rparr>))"

interpretation some_copy: copy_lib copy_some
proof
  fix x and a b a' b' :: tcp_end
  show "copy_some x a b = Some (a', b') \<Longrightarrow> flows a b a' b' \<and> flows b a b' a'"
    by (auto simp: copy_some_def flows_def Let_def split: option.splits if_splits)
next
  fix a b :: tcp_end
  assume "te_shut a \<longrightarrow> te_unread b = []" "te_shut b \<longrightarrow> te_unread a = []"
  then show "\<exists>x a' b'. copy_some x a b = Some (a', b') \<and> te_unread a' = [] \<and> te_unread b' = [] \<and>
      (te_eof a \<longrightarrow> te_shut b') \<and> (te_eof b \<longrightarrow> te_shut a')"
    by (intro exI [of _ "Some (length (te_unread a), length (te_unread b))"]) (simp add: copy_some_def)
qed

section \<open>The path\<close>

text \<open>A program waits for what tells it to copy, copies, or has dropped its two streams.\<close>

datatype copy_stage = Tp_Waiting | Tp_Copying | Tp_Gone

text \<open>
  The socket of the visitor at the server, the two ends of the data channel, the client's socket to the
  service, and what visitor and service have sent. The flag says that a stream, a command or the
  connection to the service has failed.
\<close>

record tcp_path =
  tp_visitor :: tcp_end
  tp_server :: tcp_end
  tp_client :: tcp_end
  tp_local :: tcp_end
  tp_server_stage :: copy_stage
  tp_client_stage :: copy_stage
  tp_visitor_sent :: bytes
  tp_local_sent :: bytes
  tp_failed :: bool

text \<open>The task spawned for a visitor and the data channel on which the start command was written.\<close>

definition start_path :: "conn \<Rightarrow> tcp_path" where
  "start_path d =
     \<lparr>tp_visitor = new_end, tp_server = new_end\<lparr>te_unread := inp d, te_out := sent d\<rparr>, tp_client = new_end,
      tp_local = new_end, tp_server_stage = Tp_Copying, tp_client_stage = Tp_Waiting, tp_visitor_sent = [],
      tp_local_sent = [], tp_failed = False\<rparr>"

definition shut_end :: "tcp_end \<Rightarrow> tcp_end" where
  "shut_end e = e\<lparr>te_shut := True\<rparr>"

text \<open>Dropping both streams at one side, after a failure.\<close>

definition server_fails :: "tcp_path \<Rightarrow> tcp_path" where
  "server_fails p = p\<lparr>tp_server := shut_end (tp_server p), tp_visitor := shut_end (tp_visitor p),
     tp_server_stage := Tp_Gone, tp_failed := True\<rparr>"

definition client_fails :: "tcp_path \<Rightarrow> tcp_path" where
  "client_fails p = p\<lparr>tp_client := shut_end (tp_client p), tp_local := shut_end (tp_local p),
     tp_client_stage := Tp_Gone, tp_failed := True\<rparr>"

definition server_copies ::
  "('k \<Rightarrow> tcp_end \<Rightarrow> tcp_end \<Rightarrow> (tcp_end \<times> tcp_end) option) \<Rightarrow> 'k \<Rightarrow> tcp_path \<Rightarrow> tcp_path" where
  "server_copies copy x p =
     (if tp_server_stage p \<noteq> Tp_Copying then p
      else case copy x (tp_server p) (tp_visitor p) of
             None \<Rightarrow> server_fails p
           | Some (ch, visitor) \<Rightarrow>
               p\<lparr>tp_server := ch, tp_visitor := visitor,
                 tp_server_stage := (if te_shut ch \<and> te_shut visitor then Tp_Gone else Tp_Copying)\<rparr>)"

definition client_copies ::
  "('k \<Rightarrow> tcp_end \<Rightarrow> tcp_end \<Rightarrow> (tcp_end \<times> tcp_end) option) \<Rightarrow> 'k \<Rightarrow> tcp_path \<Rightarrow> tcp_path" where
  "client_copies copy x p =
     (if tp_client_stage p \<noteq> Tp_Copying then p
      else case copy x (tp_client p) (tp_local p) of
             None \<Rightarrow> client_fails p
           | Some (conn, local) \<Rightarrow>
               p\<lparr>tp_client := conn, tp_local := local,
                 tp_client_stage := (if te_shut conn \<and> te_shut local then Tp_Gone else Tp_Copying)\<rparr>)"

text \<open>\<open>run_data_channel_for_tcp\<close> up to the copying, from the result of its connection to the service.\<close>

definition run_data_channel_for_tcp :: "err + unit \<Rightarrow> tcp_path \<Rightarrow> tcp_path" where
  "run_data_channel_for_tcp linked p =
     (case linked of Inl e \<Rightarrow> client_fails p | Inr u \<Rightarrow> p\<lparr>tp_client_stage := Tp_Copying\<rparr>)"

text \<open>
  \<open>run_data_channel\<close> after its hello: the command is there, or the end of the stream comes before it.
\<close>

definition client_starts :: "codec \<Rightarrow> client_service \<Rightarrow> err + unit \<Rightarrow> tcp_path \<Rightarrow> tcp_path" where
  "client_starts k cs linked p =
     (let e = tp_client p
      in if tp_client_stage p \<noteq> Tp_Waiting \<or> length (te_unread e) < len_d_cmd (PACKET_LEN k) \<and> \<not> te_eof e then p
         else case take_data_cmd k cs (fresh_conn (te_unread e)) of
                (r, c) \<Rightarrow>
                  let p1 = p\<lparr>tp_client := e\<lparr>te_unread := inp c\<rparr>\<rparr>
                  in case r of
                       Inr Forward_Tcp \<Rightarrow> run_data_channel_for_tcp linked p1
                     | _ \<Rightarrow> client_fails p1)"

text \<open>The transport takes some bytes from one end to the other, and the end of the stream after all of them.\<close>

definition transmit :: "nat \<Rightarrow> tcp_end \<Rightarrow> tcp_end \<Rightarrow> tcp_end \<times> tcp_end" where
  "transmit n b c = (b\<lparr>te_out := drop n (te_out b)\<rparr>, c\<lparr>te_unread := te_unread c @ take n (te_out b)\<rparr>)"

definition transmit_end :: "tcp_end \<Rightarrow> tcp_end \<Rightarrow> tcp_end" where
  "transmit_end b c = (if te_shut b \<and> te_out b = [] then c\<lparr>te_eof := True\<rparr> else c)"

datatype 'k path_event =
    Visitor_Sends bytes
  | Visitor_Ends
  | Service_Sends bytes
  | Service_Ends
  | Server_Copies 'k
  | Client_Starts "err + unit"
  | Client_Copies 'k
  | Down nat
  | Down_End
  | Up nat
  | Up_End

definition path_step ::
  "codec \<Rightarrow> client_service \<Rightarrow> ('k \<Rightarrow> tcp_end \<Rightarrow> tcp_end \<Rightarrow> (tcp_end \<times> tcp_end) option) \<Rightarrow> 'k path_event \<Rightarrow> tcp_path \<Rightarrow> tcp_path" where
  "path_step k cs copy ev p =
     (case ev of
        Visitor_Sends bs \<Rightarrow>
          (if te_eof (tp_visitor p) then p
           else p\<lparr>tp_visitor := (tp_visitor p)\<lparr>te_unread := te_unread (tp_visitor p) @ bs\<rparr>,
                  tp_visitor_sent := tp_visitor_sent p @ bs\<rparr>)
      | Visitor_Ends \<Rightarrow> p\<lparr>tp_visitor := (tp_visitor p)\<lparr>te_eof := True\<rparr>\<rparr>
      | Service_Sends bs \<Rightarrow>
          (if tp_client_stage p \<noteq> Tp_Copying \<or> te_eof (tp_local p) then p
           else p\<lparr>tp_local := (tp_local p)\<lparr>te_unread := te_unread (tp_local p) @ bs\<rparr>,
                  tp_local_sent := tp_local_sent p @ bs\<rparr>)
      | Service_Ends \<Rightarrow>
          (if tp_client_stage p \<noteq> Tp_Copying then p else p\<lparr>tp_local := (tp_local p)\<lparr>te_eof := True\<rparr>\<rparr>)
      | Server_Copies x \<Rightarrow> server_copies copy x p
      | Client_Starts linked \<Rightarrow> client_starts k cs linked p
      | Client_Copies x \<Rightarrow> client_copies copy x p
      | Down n \<Rightarrow> (let (b, c) = transmit n (tp_server p) (tp_client p) in p\<lparr>tp_server := b, tp_client := c\<rparr>)
      | Down_End \<Rightarrow> p\<lparr>tp_client := transmit_end (tp_server p) (tp_client p)\<rparr>
      | Up n \<Rightarrow> (let (b, c) = transmit n (tp_client p) (tp_server p) in p\<lparr>tp_client := b, tp_server := c\<rparr>)
      | Up_End \<Rightarrow> p\<lparr>tp_server := transmit_end (tp_client p) (tp_server p)\<rparr>)"

fun run_path ::
  "codec \<Rightarrow> client_service \<Rightarrow> ('k \<Rightarrow> tcp_end \<Rightarrow> tcp_end \<Rightarrow> (tcp_end \<times> tcp_end) option) \<Rightarrow> 'k path_event list \<Rightarrow> tcp_path \<Rightarrow> tcp_path" where
  "run_path k cs copy [] p = p"
| "run_path k cs copy (ev # evs) p = run_path k cs copy evs (path_step k cs copy ev p)"

section \<open>One direction\<close>

text \<open>
  Through two programs: from the end \<open>a\<close> to \<open>b\<close> by the first, over the transport to \<open>c\<close>, to \<open>d\<close> by the
  second, which has taken \<open>pre\<close> for itself. Nothing is lost, and the end follows the bytes unless
  something failed.
\<close>

definition lane :: "bool \<Rightarrow> bytes \<Rightarrow> tcp_end \<Rightarrow> tcp_end \<Rightarrow> tcp_end \<Rightarrow> tcp_end \<Rightarrow> bytes \<Rightarrow> bool" where
  "lane failed s a b c d pre =
     (s = pre @ te_out d @ te_unread c @ te_out b @ te_unread a \<and>
      (te_shut b \<and> \<not> failed \<longrightarrow> te_eof a \<and> te_unread a = []) \<and>
      (te_eof c \<longrightarrow> te_shut b \<and> te_out b = []) \<and>
      (te_shut d \<and> \<not> failed \<longrightarrow> te_eof c \<and> te_unread c = []))"

lemma lane_first:
  "lane f t a b c d pre \<Longrightarrow> flows a b a' b' \<Longrightarrow> flows b a b' a' \<Longrightarrow> lane f t a' b' c d pre"
  by (auto simp: lane_def flows_def)

lemma lane_second:
  "lane f t a b c d pre \<Longrightarrow> flows c d c' d' \<Longrightarrow> flows d c d' c' \<Longrightarrow> lane f t a b c' d' pre"
  by (auto simp: lane_def flows_def)

lemma lane_transmit:
  "lane f t a b c d pre \<Longrightarrow> transmit n b c = (b', c') \<Longrightarrow> lane f t a b' c' d pre"
  by (auto simp: lane_def transmit_def)

lemma lane_back: "lane f t a b c d pre \<Longrightarrow> transmit n c b = (c', b') \<Longrightarrow> lane f t a b' c' d pre"
  by (auto simp: lane_def transmit_def)

lemma lane_ends:
  "lane f t a b c d pre \<Longrightarrow> lane f t a b (transmit_end b c) d pre"
  "lane f t a b c d pre \<Longrightarrow> lane f t a (transmit_end c b) c d pre"
  by (auto simp: lane_def transmit_end_def)

lemma lane_fails:
  assumes "lane f t a b c d pre"
  shows "lane True t (shut_end a) (shut_end b) c d pre" "lane True t a b (shut_end c) (shut_end d) pre"
  using assms by (auto simp: lane_def shut_end_def)

lemma lane_source:
  "lane f t a b c d pre \<Longrightarrow> \<not> te_eof a \<Longrightarrow> lane f (t @ bs) (a\<lparr>te_unread := te_unread a @ bs\<rparr>) b c d pre"
  "lane f t a b c d pre \<Longrightarrow> lane f t (a\<lparr>te_eof := True\<rparr>) b c d pre"
  by (auto simp: lane_def)

lemma lane_target:
  "lane f t a b c (d\<lparr>te_unread := u\<rparr>) pre = lane f t a b c d pre"
  "lane f t a b c (d\<lparr>te_eof := v\<rparr>) pre = lane f t a b c d pre"
  "lane f t a (b\<lparr>te_unread := u\<rparr>) c d pre = lane f t a b c d pre"
  by (simp_all add: lane_def)

section \<open>The invariant\<close>

text \<open>What the client has taken off the data channel: nothing, the start command, or part of it when it fails.\<close>

definition taken :: "codec \<Rightarrow> tcp_path \<Rightarrow> bytes \<Rightarrow> bool" where
  "taken k p pre =
     (case tp_client_stage p of
        Tp_Waiting \<Rightarrow> pre = [] \<and> te_out (tp_local p) = [] \<and> \<not> te_shut (tp_local p)
      | Tp_Copying \<Rightarrow> pre = ser_dcmd k StartForwardTcp
      | Tp_Gone \<Rightarrow> pre = ser_dcmd k StartForwardTcp \<or> tp_failed p \<and> te_out (tp_local p) = [])"

definition down_lane :: "codec \<Rightarrow> tcp_path \<Rightarrow> bytes \<Rightarrow> bool" where
  "down_lane k p pre =
     lane (tp_failed p) (ser_dcmd k StartForwardTcp @ tp_visitor_sent p)
       (tp_visitor p) (tp_server p) (tp_client p) (tp_local p) pre"

definition up_lane :: "tcp_path \<Rightarrow> bool" where
  "up_lane p =
     lane (tp_failed p) (tp_local_sent p) (tp_local p) (tp_client p) (tp_server p) (tp_visitor p) []"

definition path_inv :: "codec \<Rightarrow> tcp_path \<Rightarrow> bool" where
  "path_inv k p = (up_lane p \<and> (\<exists>pre. down_lane k p pre \<and> taken k p pre))"

lemmas lanes = down_lane_def up_lane_def

lemma path_invI: "up_lane p \<Longrightarrow> down_lane k p pre \<Longrightarrow> taken k p pre \<Longrightarrow> path_inv k p"
  by (auto simp: path_inv_def)

lemma path_invE:
  assumes "path_inv k p"
  obtains pre where "up_lane p" "down_lane k p pre" "taken k p pre"
  using assms by (auto simp: path_inv_def)

lemma inv_server_fails: "path_inv k p \<Longrightarrow> path_inv k (server_fails p)"
  by (erule path_invE, rule path_invI)
     (auto simp: lanes server_fails_def taken_def intro: lane_fails split: copy_stage.splits)

lemma inv_client_fails:
  assumes "up_lane p" "down_lane k p pre" "pre = ser_dcmd k StartForwardTcp \<or> te_out (tp_local p) = []"
  shows "path_inv k (client_fails p)"
proof (rule path_invI)
  show "up_lane (client_fails p)" using assms(1) by (simp add: lanes client_fails_def lane_fails)
  show "down_lane k (client_fails p) pre" using assms(2) by (simp add: lanes client_fails_def lane_fails)
  show "taken k (client_fails p) pre" using assms(3) by (auto simp: taken_def client_fails_def shut_end_def)
qed

lemma take_data_cmd_rest:
  assumes "take_data_cmd k cs c = (r, c')"
  obtains bs where "inp c = bs @ inp c'"
proof -
  have "\<exists>bs. inp c = bs @ inp c'"
    using assms append_take_drop_id [of "len_d_cmd (PACKET_LEN k)" "inp c"]
    by (auto simp: take_data_cmd_def read_data_cmd_def read_packet_def act_bind_def with_context_def read_exact_def
        deserialize_def act_return_def act_fail_def split: if_splits option.splits data_channel_cmd.splits
        intro: exI [of _ "take (len_d_cmd (PACKET_LEN k)) (inp c)"])
  with that show thesis by blast
qed

context wire_codec
begin

lemma take_start_command:
  assumes "inp c = ser_dcmd k StartForwardTcp @ rest"
  shows "take_data_cmd k cs c =
    (if cs_type cs = Service_Tcp then (Inr Forward_Tcp, c\<lparr>inp := rest\<rparr>)
     else (Inl (Msg ''Expect TCP traffic. Please check the configuration.''), c\<lparr>inp := rest\<rparr>))"
  using read_data_cmd_ok [OF assms] by (simp add: take_data_cmd_def act_bind_def)

lemma inv_client_starts:
  assumes "path_inv k p"
  shows "path_inv k (client_starts k cs linked p)"
proof -
  let ?cmd = "ser_dcmd k StartForwardTcp" and ?e = "tp_client p"
  obtain pre where i: "up_lane p" "down_lane k p pre" "taken k p pre" using assms by (rule path_invE)
  show ?thesis
  proof (cases "tp_client_stage p \<noteq> Tp_Waiting \<or> length (te_unread ?e) < len_d_cmd (PACKET_LEN k) \<and> \<not> te_eof ?e")
    case True
    with assms show ?thesis by (simp add: client_starts_def Let_def)
  next
    case False
    then have w: "pre = []" "te_out (tp_local p) = []" "\<not> te_shut (tp_local p)" using i(3) by (auto simp: taken_def)
    obtain r c where t: "take_data_cmd k cs (fresh_conn (te_unread ?e)) = (r, c)" by fastforce
    obtain bs where bs: "te_unread ?e = bs @ inp c" using take_data_cmd_rest [OF t] by (auto simp: fresh_conn_def)
    let ?p = "p\<lparr>tp_client := ?e\<lparr>te_unread := inp c\<rparr>\<rparr>"
    have up: "up_lane ?p" using i(1) by (simp add: up_lane_def lane_target)
    have down: "down_lane k ?p bs" using i(2) w(1,2) bs by (auto simp: down_lane_def lane_def)
    have fails: "path_inv k (client_fails ?p)" using inv_client_fails [OF up down] w(2) by simp
    show ?thesis
    proof (cases "r = Inr Forward_Tcp \<and> linked = Inr ()")
      case True
      have cmd: "?cmd @ tp_visitor_sent p = te_unread ?e @ te_out (tp_server p) @ te_unread (tp_visitor p)"
        using i(2) w(1,2) by (simp add: down_lane_def lane_def)
      have "length ?cmd \<le> length (te_unread ?e)"
        using True t by (force simp: take_data_cmd_def read_data_cmd_def read_packet_def act_eqs read_exact_def
            packet_lengths fresh_conn_def split: if_splits)
      then obtain rest where "te_unread ?e = ?cmd @ rest" using cmd by (metis append_eq_append_conv_if append_take_drop_id)
      then have "bs = ?cmd" using bs t take_start_command [of "fresh_conn (te_unread ?e)" rest cs]
        by (auto simp: fresh_conn_def split: if_splits)
      then have "path_inv k (?p\<lparr>tp_client_stage := Tp_Copying\<rparr>)"
        using up down by (intro path_invI [of _ _ bs]) (simp_all add: lanes taken_def)
      with True False t show ?thesis by (auto simp: client_starts_def run_data_channel_for_tcp_def Let_def)
    next
      case no: False
      have "client_starts k cs linked p = client_fails ?p"
        using False no t by (auto simp: client_starts_def run_data_channel_for_tcp_def Let_def
            split: sum.splits forward.splits)
      with fails show ?thesis by simp
    qed
  qed
qed

end

context copy_lib
begin

lemma inv_server_copies:
  assumes "path_inv k p"
  shows "path_inv k (server_copies copy x p)"
proof (cases "tp_server_stage p = Tp_Copying")
  case c: True
  show ?thesis
  proof (cases "copy x (tp_server p) (tp_visitor p)")
    case None
    with c inv_server_fails [OF assms] show ?thesis by (simp add: server_copies_def)
  next
    case (Some ab)
    obtain a b where [simp]: "ab = (a, b)" by fastforce
    note f = copies [OF Some [simplified]]
    from assms obtain pre where "up_lane p" "down_lane k p pre" "taken k p pre" by (rule path_invE)
    then have "up_lane (server_copies copy x p)" "down_lane k (server_copies copy x p) pre" "taken k (server_copies copy x p) pre"
      using f Some c by (auto simp: lanes server_copies_def taken_def intro: lane_first lane_second split: copy_stage.splits)
    then show ?thesis by (rule path_invI)
  qed
qed (use assms in \<open>simp add: server_copies_def\<close>)

lemma inv_client_copies:
  assumes "path_inv k p"
  shows "path_inv k (client_copies copy x p)"
proof (cases "tp_client_stage p = Tp_Copying")
  case c: True
  from assms obtain pre where i: "up_lane p" "down_lane k p pre" "taken k p pre" by (rule path_invE)
  have pre: "pre = ser_dcmd k StartForwardTcp" using i(3) c by (simp add: taken_def)
  show ?thesis
  proof (cases "copy x (tp_client p) (tp_local p)")
    case None
    with c inv_client_fails [OF i(1,2)] pre show ?thesis by (simp add: client_copies_def)
  next
    case (Some ab)
    obtain a b where [simp]: "ab = (a, b)" by fastforce
    note f = copies [OF Some [simplified]]
    have "up_lane (client_copies copy x p)" "down_lane k (client_copies copy x p) pre" "taken k (client_copies copy x p) pre"
      using f Some c i pre by (auto simp: lanes client_copies_def taken_def intro: lane_first lane_second)
    then show ?thesis by (rule path_invI)
  qed
qed (use assms in \<open>simp add: client_copies_def\<close>)

end

lemma inv_path_step:
  assumes "wire_codec k" "copy_lib copy" "path_inv k p"
  shows "path_inv k (path_step k cs copy ev p)"
proof -
  from assms(3) obtain pre where i: "up_lane p" "down_lane k p pre" "taken k p pre" by (rule path_invE)
  note sub = i [unfolded lanes taken_def]
  let ?p = "path_step k cs copy ev p"
  have moves: "path_inv k ?p" if "up_lane ?p" "down_lane k ?p pre" "taken k ?p pre" using that by (rule path_invI)
  show ?thesis
  proof (cases ev)
    case (Server_Copies x)
    with copy_lib.inv_server_copies [OF assms(2,3)] show ?thesis by (simp add: path_step_def)
  next
    case (Client_Copies x)
    with copy_lib.inv_client_copies [OF assms(2,3)] show ?thesis by (simp add: path_step_def)
  next
    case (Client_Starts linked)
    with wire_codec.inv_client_starts [OF assms(1,3)] show ?thesis by (simp add: path_step_def)
  next
    case (Visitor_Sends bs)
    with sub show ?thesis
      by (intro moves)
         (auto simp: path_step_def lanes taken_def lane_target simp flip: append_assoc intro: lane_source split: copy_stage.splits)
  next
    case (Service_Sends bs)
    with sub show ?thesis
      by (intro moves)
         (auto simp: path_step_def lanes taken_def lane_target intro: lane_source split: copy_stage.splits)
  next
    case (Down n)
    with sub show ?thesis
      by (intro moves)
         (auto simp: path_step_def lanes taken_def Let_def split: prod.splits copy_stage.splits intro: lane_transmit lane_back)
  next
    case (Up n)
    with sub show ?thesis
      by (intro moves)
         (auto simp: path_step_def lanes taken_def Let_def split: prod.splits copy_stage.splits intro: lane_transmit lane_back)
  qed (use sub in \<open>intro moves; auto simp: path_step_def lanes taken_def lane_target split: copy_stage.splits intro: lane_source lane_ends\<close>)+
qed

lemma inv_path_run:
  "wire_codec k \<Longrightarrow> copy_lib copy \<Longrightarrow> path_inv k p \<Longrightarrow> path_inv k (run_path k cs copy evs p)"
  by (induction evs arbitrary: p) (simp_all add: inv_path_step)

definition new_channel :: "conn \<Rightarrow> bool" where
  "new_channel d = (inp d = [] \<and> sent d = [])"

lemma paired_channel:
  assumes "try_channels k alive ds reqs = Paired d ds' reqs'" "list_all new_channel ds"
  shows "inp d = [] \<and> sent d = ser_dcmd k StartForwardTcp"
  using assms
  by (induction k alive ds reqs rule: try_channels.induct)
     (auto simp: new_channel_def conn_write_and_flush_def with_context_eq_Inr write_all_inp dest: write_all_Inr
       split: prod.splits sum.splits if_splits)

lemma inv_start_path:
  assumes "inp d = []" "sent d = ser_dcmd k StartForwardTcp"
  shows "path_inv k (start_path d)"
  using assms by (intro path_invI [of _ _ "[]"]) (simp_all add: lanes lane_def taken_def start_path_def new_end_def)

section \<open>What arrives\<close>

text \<open>
  C11. What a TCP visitor sends reaches the local service byte for byte, and its answer the visitor, however
  the two programs, the transport and the two peers interleave: at any time each has got a prefix of what
  the other sent, without the start command. As long as nothing fails, the end of the stream follows the
  bytes: a side is shut down only when the other side has ended its stream and everything has arrived.
\<close>

theorem tcp_bytes_arrive_in_order:
  assumes "wire_codec k" "copy_lib copy"
    and "try_channels k alive ds reqs = Paired d ds' reqs'" "list_all new_channel ds"
    and "run_path k cs copy evs (start_path d) = p"
  shows "prefix (te_out (tp_local p)) (tp_visitor_sent p) \<and> prefix (te_out (tp_visitor p)) (tp_local_sent p) \<and>
    (\<not> tp_failed p \<longrightarrow>
      (te_shut (tp_local p) \<longrightarrow> te_eof (tp_visitor p) \<and> te_out (tp_local p) = tp_visitor_sent p) \<and>
      (te_shut (tp_visitor p) \<longrightarrow> te_eof (tp_local p) \<and> te_out (tp_visitor p) = tp_local_sent p))"
proof -
  have "path_inv k p"
    using inv_path_run [OF assms(1,2) inv_start_path] paired_channel [OF assms(3,4)] assms(5) by blast
  then obtain pre where i: "up_lane p" "down_lane k p pre" "taken k p pre" by (rule path_invE)
  have "prefix (te_out (tp_local p)) (tp_visitor_sent p)"
    using i(2,3) by (auto simp: down_lane_def lane_def taken_def split: copy_stage.splits)
  moreover have "prefix (te_out (tp_visitor p)) (tp_local_sent p)" using i(1) by (auto simp: up_lane_def lane_def)
  moreover have "te_eof (tp_visitor p) \<and> te_out (tp_local p) = tp_visitor_sent p"
    if "\<not> tp_failed p" "te_shut (tp_local p)"
    using that i(2,3) by (auto simp: down_lane_def lane_def taken_def split: copy_stage.splits)
  moreover have "te_eof (tp_local p) \<and> te_out (tp_visitor p) = tp_local_sent p"
    if "\<not> tp_failed p" "te_shut (tp_visitor p)"
    using that i(1) by (auto simp: up_lane_def lane_def)
  ultimately show ?thesis by blast
qed

definition example_channel :: conn where
  "example_channel = (fresh_conn [])\<lparr>sent := bc_ser_dcmd StartForwardTcp\<rparr>"

lemma example_paired:
  "try_channels bincode True [fresh_conn []] 0 = Paired example_channel [] 0" "list_all new_channel [fresh_conn []]"
  by (simp_all add: conn_write_and_flush_def with_context_def fresh_conn_def example_channel_def new_channel_def)

definition example_events :: "(nat \<times> nat) option path_event list" where
  "example_events = [Visitor_Sends [1, 2, 3], Server_Copies (Some (0, 2)), Down 5, Client_Starts (Inr ()), Client_Copies (Some (9, 0))]"

lemma example_type: "cs_type (client_service_with_name n) = Service_Tcp"
  by (simp add: client_service_with_name_def default_service_type_def)

lemma example_run:
  "te_out (tp_local (run_path bincode (client_service_with_name ''web'') copy_some example_events (start_path example_channel))) = [1]"
proof -
  have "take_data_cmd bincode (client_service_with_name ''web'') (fresh_conn (bc_ser_dcmd StartForwardTcp @ [1])) =
      (Inr Forward_Tcp, fresh_conn [1])"
    using bincode.take_start_command [of "fresh_conn (bc_ser_dcmd StartForwardTcp @ [1])" "[1]" "client_service_with_name ''web''"]
    by (simp add: fresh_conn_def example_type)
  moreover have "len_d_cmd (PACKET_LEN bincode) = 4"
    using bincode.packet_lengths(5) [of StartForwardTcp] by (simp add: bc_variant_def)
  ultimately show ?thesis
    by (simp add: example_events_def example_channel_def start_path_def new_end_def path_step_def server_copies_def client_copies_def
        copy_some_def client_starts_def run_data_channel_for_tcp_def transmit_def Let_def fresh_conn_def bc_variant_def)
qed

theorem tcp_bytes_arrive_in_order_witness:
  "prefix (te_out (tp_local (run_path bincode (client_service_with_name ''web'') copy_some example_events (start_path example_channel))))
     (tp_visitor_sent (run_path bincode (client_service_with_name ''web'') copy_some example_events (start_path example_channel))) \<and>
   te_out (tp_local (run_path bincode (client_service_with_name ''web'') copy_some example_events (start_path example_channel))) = [1]"
  using tcp_bytes_arrive_in_order [OF bincode.wire_codec_axioms some_copy.copy_lib_axioms example_paired refl] example_run
  by blast

definition conversation :: "'k \<Rightarrow> 'k \<Rightarrow> 'k \<Rightarrow> 'k \<Rightarrow> bytes \<Rightarrow> nat \<Rightarrow> bytes \<Rightarrow> nat \<Rightarrow> 'k path_event list" where
  "conversation x1 x2 x3 x4 request n response m =
     [Visitor_Sends request, Visitor_Ends, Server_Copies x1, Down n, Down_End, Client_Starts (Inr ()), Client_Copies x2,
      Service_Sends response, Service_Ends, Client_Copies x3, Up m, Up_End, Server_Copies x4]"

text \<open>
  A whole conversation gets through: the visitor sends a request and ends its stream, the service
  answers and ends its own, and there is a course of the two copies after which each has everything and
  both programs have dropped their streams, with no failure, for a service of type TCP.
\<close>

lemma tcp_conversation_works:
  assumes "wire_codec k" "copy_lib copy" "cs_type cs = Service_Tcp"
    and "try_channels k alive ds reqs = Paired d ds' reqs'" "list_all new_channel ds"
  shows "\<exists>x1 x2 x3 x4 n m p. run_path k cs copy (conversation x1 x2 x3 x4 request n response m) (start_path d) = p \<and>
    te_out (tp_local p) = request \<and> te_out (tp_visitor p) = response \<and> \<not> tp_failed p \<and>
    tp_server_stage p = Tp_Gone \<and> tp_client_stage p = Tp_Gone"
proof -
  let ?cmd = "ser_dcmd k StartForwardTcp"
  have d: "inp d = []" "sent d = ?cmd" using paired_channel [OF assms(4,5)] by simp_all
  have start: "take_data_cmd k cs (fresh_conn (?cmd @ request)) = (Inr Forward_Tcp, fresh_conn request)"
    using wire_codec.take_start_command [OF assms(1), of "fresh_conn (?cmd @ request)" request cs] assms(3)
    by (simp add: fresh_conn_def)
  let ?e = "\<lambda>u f w g. \<lparr>te_unread = u, te_eof = f, te_out = w, te_shut = g\<rparr>"
  obtain x1 where "copy x1 (?e [] False ?cmd False) (?e request True [] False) =
      Some (?e [] False (?cmd @ request) True, ?e [] True [] False)"
    by (rule copy_lib.drained [OF assms(2), of "?e [] False ?cmd False" "?e request True [] False"]) auto
  moreover obtain x2 where "copy x2 (?e request True [] False) (?e [] False [] False) =
      Some (?e [] True [] False, ?e [] False request True)"
    by (rule copy_lib.drained [OF assms(2), of "?e request True [] False" "?e [] False [] False"]) auto
  moreover obtain x3 where "copy x3 (?e [] True [] False) (?e response True request True) =
      Some (?e [] True response True, ?e [] True request True)"
    by (rule copy_lib.drained [OF assms(2), of "?e [] True [] False" "?e response True request True"]) auto
  moreover obtain x4 where "copy x4 (?e response True [] True) (?e [] True [] False) =
      Some (?e [] True [] True, ?e [] True response True)"
    by (rule copy_lib.drained [OF assms(2), of "?e response True [] True" "?e [] True [] False"]) auto
  ultimately have x: "copy x1 (?e [] False ?cmd False) (?e request True [] False) =
      Some (?e [] False (?cmd @ request) True, ?e [] True [] False)"
    "copy x2 (?e request True [] False) (?e [] False [] False) = Some (?e [] True [] False, ?e [] False request True)"
    "copy x3 (?e [] True [] False) (?e response True request True) = Some (?e [] True response True, ?e [] True request True)"
    "copy x4 (?e response True [] True) (?e [] True [] False) = Some (?e [] True [] True, ?e [] True response True)" by auto
  let ?s = "\<lambda>v s c l ss st vs ls. \<lparr>tp_visitor = v, tp_server = s, tp_client = c, tp_local = l, tp_server_stage = ss,
    tp_client_stage = st, tp_visitor_sent = vs, tp_local_sent = ls, tp_failed = False\<rparr>"
  let ?run = "run_path k cs copy" and ?o = "?e [] False [] False" and ?n = "length (?cmd @ request)"
  have 1: "?run [Visitor_Sends request, Visitor_Ends, Server_Copies x1, Down ?n, Down_End] (start_path d) =
      ?s (?e [] True [] False) (?e [] False [] True) (?e (?cmd @ request) True [] False) ?o Tp_Copying Tp_Waiting request []"
    using d x(1) by (simp add: start_path_def new_end_def path_step_def server_copies_def transmit_def transmit_end_def Let_def)
  have 2: "path_step k cs copy (Client_Starts (Inr ()))
        (?s (?e [] True [] False) (?e [] False [] True) (?e (?cmd @ request) True [] False) ?o Tp_Copying Tp_Waiting request []) =
      ?s (?e [] True [] False) (?e [] False [] True) (?e request True [] False) ?o Tp_Copying Tp_Copying request []"
    using start by (simp add: path_step_def client_starts_def run_data_channel_for_tcp_def Let_def fresh_conn_def)
  have 3: "?run [Client_Copies x2, Service_Sends response, Service_Ends, Client_Copies x3, Up (length response), Up_End, Server_Copies x4]
        (?s (?e [] True [] False) (?e [] False [] True) (?e request True [] False) ?o Tp_Copying Tp_Copying request []) =
      ?s (?e [] True response True) (?e [] True [] True) (?e [] True [] True) (?e [] True request True) Tp_Gone Tp_Gone request response"
    using x(2-4) by (simp add: path_step_def server_copies_def client_copies_def transmit_def transmit_end_def Let_def)
  have "?run (conversation x1 x2 x3 x4 request ?n response (length response)) (start_path d) =
      ?s (?e [] True response True) (?e [] True [] True) (?e [] True [] True) (?e [] True request True) Tp_Gone Tp_Gone request response"
    using 1 2 3 by (simp add: conversation_def)
  then show ?thesis
    by (intro exI [of _ x1] exI [of _ x2] exI [of _ x3] exI [of _ x4] exI [of _ ?n] exI [of _ "length response"] exI conjI) auto
qed

end
