(* ===== verification/Tcp_Service.thy ===== *)
theory Tcp_Service
  imports Client_Props Tcp_Path
begin

text \<open>
  A TCP visitor from its arrival to the end of its conversation: the system of \<open>Server_System\<close>, the loop
  of the client and the way of the bytes of \<open>Tcp_Path\<close>, one after the other. Every message goes over the
  connection it is written to.
\<close>

section \<open>The two halves\<close>

text \<open>A control channel with nothing to do: all its tasks live and what it has written is delivered.\<close>

definition waiting_channel :: "chan \<Rightarrow> bool" where
  "waiting_channel ch =
     (c_ctl_alive ch \<and> c_listening ch \<and> c_pool_alive ch \<and> c_visitors ch = [] \<and> c_data ch = [] \<and>
      room (c_conn ch) = None \<and> sent (c_conn ch) = [])"

definition chan_of :: "sys \<Rightarrow> nat \<Rightarrow> chan" where
  "chan_of s i = srv_chans (sys_server s) ! i"

text \<open>A visitor makes the server ask the client for a data channel.\<close>

definition asked :: "codec \<Rightarrow> nat \<Rightarrow> chan \<Rightarrow> chan" where
  "asked k v ch = ch\<lparr>c_visitors := [v], c_conn := (c_conn ch)\<lparr>sent := ser_ccmd k CreateDataChannel\<rparr>\<rparr>"

lemma visitor_is_announced:
  assumes "i < length (srv_chans (sys_server s))" "waiting_channel (chan_of s i)" "\<not> c_shutdown (chan_of s i)"
  shows "sys_run k [Visitor i v, Ctl i Request_Ready] s =
    Inr (s\<lparr>sys_server := (sys_server s)\<lparr>srv_chans := (srv_chans (sys_server s))[i := asked k v (chan_of s i)]\<rparr>\<rparr>)"
proof -
  have "ctl_step k Request_Ready (visitor_arrives v (chan_of s i)) = asked k v (chan_of s i)"
    using assms(2,3)
    by (simp add: waiting_channel_def visitor_arrives_def ctl_step_def ctl_write_def conn_write_and_flush_def
        with_context_def asked_def)
  then show ?thesis using assms(1) by (simp add: sys_step_def update_chan_def chan_of_def Let_def)
qed

lemma command_is_taken:
  assumes "wire_codec k"
  shows "client_loop_step k Cmd_Ready (fresh_conn (ser_ccmd k CreateDataChannel)) = Continue (fresh_conn []) (Some CreateDataChannel)"
  using wire_codec.read_control_cmd_ok [OF assms, of "fresh_conn (ser_ccmd k CreateDataChannel)" CreateDataChannel "[]"]
  by (simp add: client_loop_step_def fresh_conn_def)

text \<open>The data channel of the client reaches the pool, which pairs it with the visitor.\<close>

definition data_hello :: "codec \<Rightarrow> digest \<Rightarrow> conn" where
  "data_hello k key = fresh_conn (sent (snd (client_data_hello k key (fresh_conn []))))"

lemma data_channel_is_paired:
  assumes "wire_codec k" "sys_running s" "length key = HASH_WIDTH_IN_BYTES"
    and "mm_get2 key (srv_channels (sys_server s)) = Inr (Some h)" "h_id h = i" "i < length (srv_chans (sys_server s))"
    and "c_pool_alive (chan_of s i)" "c_visitors (chan_of s i) = [v]" "c_data (chan_of s i) = []"
  shows "\<exists>s' d. sys_run k [Accepted nonce (data_hello k key), Task (length (sys_tasks s)), Task (length (sys_tasks s)), Tcp_Pool i] s
      = Inr s' \<and>
    c_forwarding (chan_of s' i) = (v, d) # c_forwarding (chan_of s i) \<and>
    try_channels k (c_ctl_alive (chan_of s i)) [fresh_conn []] (c_reqs (chan_of s i)) = Paired d [] (c_reqs (chan_of s i))"
proof -
  let ?ch = "chan_of s i" and ?n = "length (sys_tasks s)" and ?w = "sys_server s"
  have hello: "read_hello k (data_hello k key) = (Inr (DataChannelHello CURRENT_PROTO_VERSION key), fresh_conn [])"
    using wire_codec.read_hello_ok [OF assms(1), of "DataChannelHello CURRENT_PROTO_VERSION key" "data_hello k key" "[]"] assms(3)
    by (simp add: data_hello_def client_data_hello_def fresh_conn_def)
  let ?d = "(fresh_conn [])\<lparr>sent := ser_dcmd k StartForwardTcp\<rparr>"
  have pair: "try_channels k alive [fresh_conn []] reqs = Paired ?d [] reqs" for alive reqs
    by (simp add: conn_write_and_flush_def with_context_def fresh_conn_def)
  let ?ch1 = "?ch\<lparr>c_data := [fresh_conn []]\<rparr>"
  have deliver: "do_data_channel_handshake key (fresh_conn []) ?w = Inr (Ready (Inr ()), ?w\<lparr>srv_chans := (srv_chans ?w)[i := ?ch1]\<rparr>)"
    using assms(4-9) by (simp add: do_data_channel_handshake_def Let_def chan_of_def CHAN_SIZE_def)
  have pool: "tcp_pool_step k ?ch1 = ?ch1\<lparr>c_visitors := [], c_data := [], c_forwarding := (v, ?d) # c_forwarding ?ch\<rparr>"
    using assms(7,8) pair by (simp add: tcp_pool_step_def)
  have "sys_run k [Accepted nonce (data_hello k key), Task ?n, Task ?n, Tcp_Pool i] s =
      Inr (s\<lparr>sys_server := ?w\<lparr>srv_chans := (srv_chans ?w)[i := tcp_pool_step k ?ch1]\<rparr>, sys_tasks := sys_tasks s @ [Finished]\<rparr>)"
    using assms(2,6) hello deliver by (simp add: sys_step_def task_step_def update_chan_def Let_def)
  moreover have "c_forwarding (tcp_pool_step k ?ch1) = (v, ?d) # c_forwarding ?ch" using pool by simp
  ultimately show ?thesis using pair assms(6) by (auto simp: chan_of_def)
qed

section \<open>A visitor is served\<close>

text \<open>
  C2. A TCP visitor is served. With a live control channel of its service that has nothing to do, and the
  client in its loop: the arrival of the visitor makes the server send one command, the client takes
  exactly this command off the control channel, the hello of the data channel it then opens leads the
  server to pair it with the visitor, and over this data channel a whole conversation of visitor and
  local service gets through unchanged.
\<close>

theorem tcp_visitor_is_served:
  assumes "wire_codec k" "copy_lib copy" "server_inv k N (sys_server s)" "sys_running s" "cs_type cs = Service_Tcp"
    and "mm_get2 key (srv_channels (sys_server s)) = Inr (Some h)" "waiting_channel (chan_of s (h_id h))"
  shows "\<exists>s1 s2 d x1 x2 x3 x4 n m p.
    sys_run k [Visitor (h_id h) v, Ctl (h_id h) Request_Ready] s = Inr s1 \<and>
    client_loop_step k Cmd_Ready (fresh_conn (sent (c_conn (chan_of s1 (h_id h))))) =
      Continue (fresh_conn []) (Some CreateDataChannel) \<and>
    sys_run k [Accepted nonce (data_hello k key), Task (length (sys_tasks s)), Task (length (sys_tasks s)), Tcp_Pool (h_id h)] s1
      = Inr s2 \<and>
    c_forwarding (chan_of s2 (h_id h)) = (v, d) # c_forwarding (chan_of s (h_id h)) \<and>
    run_path k cs copy (conversation x1 x2 x3 x4 request n response m) (start_path d) = p \<and>
    te_out (tp_local p) = request \<and> te_out (tp_visitor p) = response \<and> \<not> tp_failed p"
proof -
  let ?w = "sys_server s" and ?i = "h_id h"
  have mm: "mm_inv (srv_channels ?w)" and ok: "table_ok k N (mm_tbl (srv_channels ?w)) (srv_chans ?w)"
    using assms(3) by (simp_all add: server_inv_def)
  obtain dg where dg: "mm_tbl (srv_channels ?w) dg = Some (key, h)"
    using assms(6) by (cases key rule: mm.get2_cases [OF mm]) auto
  note h = table_okD [OF ok dg]
  have key: "length key = HASH_WIDTH_IN_BYTES"
    using h(1) wire_codec.length_digest [OF assms(1)] by (auto simp: entry_ok_def)
  define s1 where "s1 = s\<lparr>sys_server := ?w\<lparr>srv_chans := (srv_chans ?w)[?i := asked k v (chan_of s ?i)]\<rparr>\<rparr>"
  have c1: "chan_of s1 ?i = asked k v (chan_of s ?i)" using h(2) by (simp add: s1_def chan_of_def)
  have 1: "sys_run k [Visitor ?i v, Ctl ?i Request_Ready] s = Inr s1"
    using visitor_is_announced [OF h(2) assms(7)] h(3) by (simp add: s1_def chan_of_def)
  have 2: "client_loop_step k Cmd_Ready (fresh_conn (sent (c_conn (chan_of s1 ?i)))) =
      Continue (fresh_conn []) (Some CreateDataChannel)"
    using command_is_taken [OF assms(1)] by (simp add: c1 asked_def)
  have ch1: "c_pool_alive (chan_of s1 ?i)" "c_visitors (chan_of s1 ?i) = [v]" "c_data (chan_of s1 ?i) = []"
    "c_forwarding (chan_of s1 ?i) = c_forwarding (chan_of s ?i)"
    using assms(7) by (simp_all add: c1 asked_def waiting_channel_def)
  have s1: "sys_running s1" "mm_get2 key (srv_channels (sys_server s1)) = Inr (Some h)"
    "?i < length (srv_chans (sys_server s1))" "sys_tasks s1 = sys_tasks s"
    using assms(4,6) h(2) by (simp_all add: s1_def)
  from data_channel_is_paired [OF assms(1) s1(1) key s1(2) refl s1(3) ch1(1-3), of nonce]
  obtain s2 d where 3: "sys_run k [Accepted nonce (data_hello k key), Task (length (sys_tasks s)), Task (length (sys_tasks s)), Tcp_Pool ?i] s1
      = Inr s2" "c_forwarding (chan_of s2 ?i) = (v, d) # c_forwarding (chan_of s ?i)"
    and d: "try_channels k (c_ctl_alive (chan_of s1 ?i)) [fresh_conn []] (c_reqs (chan_of s1 ?i)) = Paired d [] (c_reqs (chan_of s1 ?i))"
    unfolding s1(4) ch1(4) by blast
  have "list_all new_channel [fresh_conn []]" by (simp add: new_channel_def fresh_conn_def)
  from tcp_conversation_works [OF assms(1,2,5) d this, of request response]
  obtain x1 x2 x3 x4 n m p where "run_path k cs copy (conversation x1 x2 x3 x4 request n response m) (start_path d) = p"
    "te_out (tp_local p) = request" "te_out (tp_visitor p) = response" "\<not> tp_failed p" by blast
  with 1 2 3 show ?thesis by blast
qed

definition web_handle :: handle where
  "web_handle = \<lparr>h_id = 0, h_service = app_service\<rparr>"

definition web_sys :: "(digest, digest, handle) multi_map \<Rightarrow> sys" where
  "web_sys m =
     \<lparr>sys_server = app_server\<lparr>srv_channels := m, srv_chans := [(busy_chan [])\<lparr>c_visitors := []\<rparr>]\<rparr>, sys_tasks = [], sys_running = True\<rparr>"

lemma web_sys_ready:
  "\<exists>m. server_inv bincode {[]} (sys_server (web_sys m)) \<and> mm_get2 (app_key []) m = Inr (Some web_handle)"
proof -
  let ?dg = "digest bincode (as_bytes ''app'')" and ?key = "app_key []"
  have new: "mm_inv (mm_new :: (digest, digest, handle) multi_map)"
    "\<And>d. mm_tbl (mm_new :: (digest, digest, handle) multi_map) d = None" by (simp_all add: mm_new_inv)
  obtain m where m: "mm_inv m" "mm_tbl m = (mm_tbl mm_new)(?dg \<mapsto> (?key, web_handle))"
    using mm.ins_new [OF new(1), of ?dg ?key web_handle] new(2) by auto
  have tbl: "mm_tbl m = Map.empty(?dg \<mapsto> (?key, web_handle))" using m(2) new(2) by (auto simp: fun_eq_iff)
  have "table_ok bincode {[]} (Map.empty(?dg \<mapsto> (?key, web_handle))) ([] @ [(busy_chan [])\<lparr>c_visitors := []\<rparr>])"
    by (rule table_ok_insert) (simp_all add: table_ok_def entry_ok_def web_handle_def app_service_def app_key_def busy_chan_def)
  then have "server_inv bincode {[]} (sys_server (web_sys m))"
    using m(1) tbl app_server_inv [of "{[]}"] by (simp add: server_inv_def web_sys_def)
  moreover have "mm_get2 ?key m = Inr (Some web_handle)"
    using mm.get2_Some [OF m(1), of ?dg ?key web_handle] tbl by simp
  ultimately show ?thesis by blast
qed

theorem tcp_visitor_is_served_witness:
  "\<exists>m s1 s2 d x1 x2 x3 x4 n n' p.
    sys_run bincode [Visitor 0 7, Ctl 0 Request_Ready] (web_sys m) = Inr s1 \<and>
    sys_run bincode [Accepted [] (data_hello bincode (app_key [])), Task 0, Task 0, Tcp_Pool 0] s1 = Inr s2 \<and>
    c_forwarding (chan_of s2 0) = [(7, d)] \<and>
    run_path bincode (client_service_with_name ''app'') copy_some (conversation x1 x2 x3 x4 [1, 2] n [3] n') (start_path d) = p \<and>
    te_out (tp_local p) = [1, 2] \<and> te_out (tp_visitor p) = [3]"
proof -
  obtain m where m: "server_inv bincode {[]} (sys_server (web_sys m))" "mm_get2 (app_key []) m = Inr (Some web_handle)"
    using web_sys_ready by blast
  have c: "sys_running (web_sys m)" "mm_get2 (app_key []) (srv_channels (sys_server (web_sys m))) = Inr (Some web_handle)"
    "waiting_channel (chan_of (web_sys m) (h_id web_handle))" "sys_tasks (web_sys m) = []" "h_id web_handle = 0"
    "c_forwarding (chan_of (web_sys m) 0) = []"
    using m(2) by (simp_all add: web_sys_def waiting_channel_def chan_of_def web_handle_def busy_chan_def fresh_conn_def)
  from tcp_visitor_is_served [OF bincode.wire_codec_axioms some_copy.copy_lib_axioms m(1) c(1) example_type c(2,3),
      where v = 7 and nonce = "[]" and request = "[1, 2]" and response = "[3]"]
  show ?thesis unfolding c(4-6) list.size(3) by meson
qed

end
