(* ===== verification/Udp_Path.thy ===== *)
theory Udp_Path
  imports Client "HOL-Library.Sublist"
begin

text \<open>
  The way of UDP datagrams through both programs: \<open>run_udp_connection_pool\<close> of \<open>src/rathole/src/server.rs\<close>,
  one data channel, and at the client \<open>run_data_channel_for_udp\<close> of \<open>src/rathole/src/client.rs\<close> with its task
  that writes and the forwarders.
\<close>

section \<open>The system\<close>

text \<open>
  Beside the two programs there is what happened: the datagrams the pool has received (cut to its buffer),
  those the client has taken off the data channel, and the replies of the service by the visitor whose
  socket they came to.
\<close>

record udp_path =
  ud_pool :: udp_pool
  ud_pool_alive :: bool
  ud_client :: udp_client
  ud_conn :: conn
  ud_reader :: bool
  ud_writer :: bool
  ud_arrived :: "udp_traffic list"
  ud_taken :: "udp_traffic list"
  ud_replies :: "udp_traffic list"

text \<open>The data channel once the start command has been written, delivered and read.\<close>

definition start_udp_path :: "codec \<Rightarrow> client_service \<Rightarrow> conn \<Rightarrow> udp_path option" where
  "start_udp_path k cs d =
     (case udp_pool_start k [d] of
        Inl e \<Rightarrow> None
      | Inr pool \<Rightarrow>
          (case take_data_cmd k cs (fresh_conn (sent (up_conn pool))) of
             (Inr Forward_Udp, c) \<Rightarrow>
               Some \<lparr>ud_pool = pool\<lparr>up_conn := (up_conn pool)\<lparr>sent := []\<rparr>\<rparr>, ud_pool_alive = True,
                     ud_client = \<lparr>uc_port_map = [], uc_forwarders = [], uc_outbound = []\<rparr>, ud_conn = c,
                     ud_reader = True, ud_writer = True, ud_arrived = [], ud_taken = [], ud_replies = []\<rparr>
           | _ \<Rightarrow> None))"

text \<open>\<open>run_data_channel_for_udp\<close>: one round. What is there of a datagram that is not complete waits.\<close>

definition udp_reader_step :: "codec \<Rightarrow> bool \<Rightarrow> udp_path \<Rightarrow> udp_path" where
  "udp_reader_step k connected p =
     (if \<not> ud_reader p then p
      else case act_bind read_u8 (udp_read k) (ud_conn p) of
             (Inl e, c) \<Rightarrow> p
           | (Inr t, c) \<Rightarrow>
               p\<lparr>ud_conn := c, ud_client := udp_packet connected t (ud_client p), ud_taken := ud_taken p @ [t]\<rparr>)"

text \<open>The task that writes what the forwarders have queued; an error ends it.\<close>

definition udp_writer_step :: "codec \<Rightarrow> udp_path \<Rightarrow> udp_path" where
  "udp_writer_step k p =
     (if \<not> ud_writer p then p
      else case uc_outbound (ud_client p) of
             [] \<Rightarrow> p
           | t # ts \<Rightarrow>
               let p1 = p\<lparr>ud_client := (ud_client p)\<lparr>uc_outbound := ts\<rparr>\<rparr>
               in case udp_write k t (ud_conn p) of
                    (Inr u, c) \<Rightarrow> p1\<lparr>ud_conn := c\<rparr>
                  | (Inl e, c) \<Rightarrow> p1\<lparr>ud_conn := c, ud_writer := False\<rparr>)"

text \<open>The service answers to the socket of a forwarder; the queue is closed when the writer is gone.\<close>

definition service_replies :: "nat \<Rightarrow> bytes \<Rightarrow> udp_path \<Rightarrow> udp_path" where
  "service_replies i bs p =
     (let fs = uc_forwarders (ud_client p)
      in p\<lparr>ud_client := forwarder_step i (From_Service bs (ud_writer p)) (ud_client p),
           ud_replies := ud_replies p @
             (if i < length fs \<and> fw_alive (fs ! i) \<and> ud_writer p
              then [cut_datagram (fw_from (fs ! i), bs)] else [])\<rparr>)"

text \<open>
  The pool at the server: a datagram of a visitor, or one of the client when it is complete. An error
  ends the pool.
\<close>

definition pool_receives :: "codec \<Rightarrow> socket_addr \<Rightarrow> bytes \<Rightarrow> udp_path \<Rightarrow> udp_path" where
  "pool_receives k a bs p =
     (if \<not> ud_pool_alive p then p
      else case udp_pool_step k (From_Visitor a bs) (ud_pool p) of
             Inl e \<Rightarrow> p\<lparr>ud_pool_alive := False\<rparr>
           | Inr pool \<Rightarrow> p\<lparr>ud_pool := pool, ud_arrived := ud_arrived p @ [cut_datagram (a, bs)]\<rparr>)"

definition pool_answers :: "codec \<Rightarrow> udp_path \<Rightarrow> udp_path" where
  "pool_answers k p =
     (if \<not> ud_pool_alive p then p
      else case udp_pool_step k From_Client (ud_pool p) of Inl e \<Rightarrow> p | Inr pool \<Rightarrow> p\<lparr>ud_pool := pool\<rparr>)"

datatype udp_path_event =
    Visitor_Datagram socket_addr bytes
  | Pool_Answers
  | Pool_Ends
  | Datagrams_Down nat
  | Datagrams_Up nat
  | Client_Takes bool
  | Client_Delivers nat bool
  | Service_Replies nat bytes
  | Socket_Error nat
  | Socket_Idle nat
  | Client_Writes_Reply
  | Reader_Ends
  | Writer_Ends

definition udp_path_step :: "codec \<Rightarrow> udp_path_event \<Rightarrow> udp_path \<Rightarrow> udp_path" where
  "udp_path_step k ev p =
     (let s = up_conn (ud_pool p); c = ud_conn p in
      case ev of
        Visitor_Datagram a bs \<Rightarrow> pool_receives k a bs p
      | Pool_Answers \<Rightarrow> pool_answers k p
      | Pool_Ends \<Rightarrow> p\<lparr>ud_pool_alive := False\<rparr>
      | Datagrams_Down n \<Rightarrow>
          p\<lparr>ud_pool := (ud_pool p)\<lparr>up_conn := s\<lparr>sent := drop n (sent s)\<rparr>\<rparr>, ud_conn := c\<lparr>inp := inp c @ take n (sent s)\<rparr>\<rparr>
      | Datagrams_Up n \<Rightarrow>
          p\<lparr>ud_conn := c\<lparr>sent := drop n (sent c)\<rparr>, ud_pool := (ud_pool p)\<lparr>up_conn := s\<lparr>inp := inp s @ take n (sent c)\<rparr>\<rparr>\<rparr>
      | Client_Takes connected \<Rightarrow> udp_reader_step k connected p
      | Client_Delivers i ok \<Rightarrow> p\<lparr>ud_client := forwarder_step i (Inbound ok) (ud_client p)\<rparr>
      | Service_Replies i bs \<Rightarrow> service_replies i bs p
      | Socket_Error i \<Rightarrow> p\<lparr>ud_client := forwarder_step i Receive_Error (ud_client p)\<rparr>
      | Socket_Idle i \<Rightarrow> p\<lparr>ud_client := forwarder_step i Idle_Timeout (ud_client p)\<rparr>
      | Client_Writes_Reply \<Rightarrow> udp_writer_step k p
      | Reader_Ends \<Rightarrow> p\<lparr>ud_reader := False\<rparr>
      | Writer_Ends \<Rightarrow> p\<lparr>ud_writer := False\<rparr>)"

fun run_udp_path :: "codec \<Rightarrow> udp_path_event list \<Rightarrow> udp_path \<Rightarrow> udp_path" where
  "run_udp_path k [] p = p"
| "run_udp_path k (ev # evs) p = run_udp_path k evs (udp_path_step k ev p)"

section \<open>Streams of datagrams\<close>

definition carried :: "udp_traffic \<Rightarrow> bool" where
  "carried t = (plain_addr (udp_from t) \<and> length (udp_data t) < 65536)"

lemma carried_cut: "carried (cut_datagram (a, bs)) = plain_addr a"
  by (auto simp: carried_def cut_datagram_def UDP_BUFFER_SIZE_def min_def)

lemma udp_stream_simps [simp]:
  "udp_stream k [] = []" "udp_stream k (ts @ us) = udp_stream k ts @ udp_stream k us"
  "udp_stream k [t] = udp_bytes k (udp_from t) (udp_data t)"
  by (simp_all add: udp_stream_def)

text \<open>A read that succeeds takes the same from a stream on which more has arrived.\<close>

definition steady :: "(conn, 'a) act \<Rightarrow> bool" where
  "steady r = (\<forall>c x c' ys. r c = (Inr x, c') \<longrightarrow> r (c\<lparr>inp := inp c @ ys\<rparr>) = (Inr x, c'\<lparr>inp := inp c' @ ys\<rparr>))"

lemma steadyD: "steady r \<Longrightarrow> r c = (Inr x, c') \<Longrightarrow> r (c\<lparr>inp := inp c @ ys\<rparr>) = (Inr x, c'\<lparr>inp := inp c' @ ys\<rparr>)"
  by (simp add: steady_def)

lemma steady_read [intro]: "steady (read_exact n)"
  by (auto simp: steady_def read_exact_def split: if_splits)

lemma steady_bind [intro]: "steady r \<Longrightarrow> (\<And>x. steady (f x)) \<Longrightarrow> steady (act_bind r f)"
  unfolding steady_def act_bind_eq_Inr by meson

lemma steady_context [intro]: "steady r \<Longrightarrow> steady (with_context msg r)"
  unfolding steady_def with_context_eq_Inr .

lemma steady_return [intro]: "steady (act_return x)"
  by (auto simp: steady_def)

lemma steady_deserialize [intro]: "steady (deserialize de bs)"
  by (auto simp: steady_def deserialize_def split: option.splits)

lemma steady_udp_read: "steady (act_bind read_u8 (udp_read k))"
  unfolding read_u8_def udp_read_def
  by (intro steady_bind steady_read steady_context steady_return steady_deserialize)

lemma udp_bytes_not_empty: "udp_bytes k a d \<noteq> []"
  by (simp add: udp_bytes_def Let_def)

lemma udp_read_stream:
  assumes "wire_codec k" "inp c @ ys = udp_stream k ts" "list_all carried ts"
    and r: "act_bind read_u8 (udp_read k) c = (Inr t, c')"
  obtains ts' where "ts = t # ts'" "inp c' @ ys = udp_stream k ts'" "sent c' = sent c" "room c' = room c"
proof -
  have more: "act_bind read_u8 (udp_read k) (c\<lparr>inp := udp_stream k ts\<rparr>) = (Inr t, c'\<lparr>inp := inp c' @ ys\<rparr>)"
    using steadyD [OF steady_udp_read r, of ys] assms(2) by simp
  show thesis
  proof (cases ts)
    case Nil
    with more show thesis by (simp add: act_eqs read_u8_def read_exact_def)
  next
    case (Cons t0 ts')
    have "plain_addr (udp_from t0)" "length (udp_data t0) < 65536" using assms(3) Cons by (simp_all add: carried_def)
    with wire_codec.udp_read_ok [OF assms(1), of "udp_from t0" "c\<lparr>inp := udp_stream k ts\<rparr>" "udp_data t0" "udp_stream k ts'"] Cons
    have "act_bind read_u8 (udp_read k) (c\<lparr>inp := udp_stream k ts\<rparr>) = (Inr t0, c\<lparr>inp := udp_stream k ts'\<rparr>)"
      by (simp add: udp_stream_def)
    with more have "t = t0" "c'\<lparr>inp := inp c' @ ys\<rparr> = c\<lparr>inp := udp_stream k ts'\<rparr>" by simp_all
    then have "inp c' @ ys = udp_stream k ts' \<and> sent c' = sent c \<and> room c' = room c" by (cases c; cases c') simp
    with \<open>t = t0\<close> Cons that show thesis by blast
  qed
qed

lemma udp_write_ok: "room c = None \<Longrightarrow> udp_write k t c = (Inr (), c\<lparr>sent := sent c @ udp_bytes k (udp_from t) (udp_data t)\<rparr>)"
  by (simp add: udp_write_def udp_bytes_def act_bind_def Let_def)

section \<open>The forwarders\<close>

text \<open>
  The port map leads to the forwarder of the address, and what a forwarder was given are datagrams from
  its address in the order in which they were taken.
\<close>

definition from_addr :: "socket_addr \<Rightarrow> udp_traffic list \<Rightarrow> bytes list" where
  "from_addr a ts = map udp_data (filter (\<lambda>t. udp_from t = a) ts)"

lemma from_addr_simps [simp]:
  "from_addr a [] = []" "from_addr a (ts @ us) = from_addr a ts @ from_addr a us"
  "from_addr a [t] = (if udp_from t = a then [udp_data t] else [])"
  by (simp_all add: from_addr_def)

definition forwarder_ok :: "udp_traffic list \<Rightarrow> forwarder \<Rightarrow> bool" where
  "forwarder_ok ts f = (plain_addr (fw_from f) \<and> subseq (fw_sent f @ fw_inbox f) (from_addr (fw_from f) ts))"

definition forwarders_ok :: "udp_traffic list \<Rightarrow> udp_client \<Rightarrow> bool" where
  "forwarders_ok ts u =
     ((\<forall>a i. map_of (uc_port_map u) a = Some i \<longrightarrow> i < length (uc_forwarders u) \<and> fw_from (uc_forwarders u ! i) = a) \<and>
      list_all (forwarder_ok ts) (uc_forwarders u))"

lemma forwarder_ok_more: "forwarder_ok ts f \<Longrightarrow> forwarder_ok (ts @ us) f"
  by (auto simp: forwarder_ok_def intro: list_emb_prefix)

lemma forwarder_ok_given:
  "forwarder_ok ts f \<Longrightarrow> fw_from f = udp_from t \<Longrightarrow> forwarder_ok (ts @ [t]) (f\<lparr>fw_inbox := fw_inbox f @ [udp_data t]\<rparr>)"
  by (auto simp: forwarder_ok_def simp flip: append_assoc intro: list_emb_append_mono)

lemma forwarder_ok_drops:
  assumes "forwarder_ok ts f" "fw_inbox f = d # ds"
  shows "forwarder_ok ts (f\<lparr>fw_inbox := ds, fw_alive := False\<rparr>)"
    "forwarder_ok ts (f\<lparr>fw_inbox := ds, fw_sent := fw_sent f @ [d]\<rparr>)"
proof -
  have "subseq (fw_sent f @ ds) (fw_sent f @ d # ds)" by (intro list_emb_append_mono) auto
  then show "forwarder_ok ts (f\<lparr>fw_inbox := ds, fw_alive := False\<rparr>)"
    using assms by (auto simp: forwarder_ok_def intro: subseq_order.trans)
  show "forwarder_ok ts (f\<lparr>fw_inbox := ds, fw_sent := fw_sent f @ [d]\<rparr>)"
    using assms by (simp add: forwarder_ok_def)
qed

lemma forwarder_ok_alive [simp]: "forwarder_ok ts (f\<lparr>fw_alive := b\<rparr>) = forwarder_ok ts f"
  by (simp add: forwarder_ok_def)

lemma list_all_update: "list_all P xs \<Longrightarrow> P x \<Longrightarrow> list_all P (xs[i := x])"
  by (cases "i < length xs") (auto simp: list_all_length nth_list_update)

lemma forwarders_ok_update:
  assumes "forwarders_ok ts u" "forwarder_ok ts f" "fw_from f = fw_from (uc_forwarders u ! i)"
  shows "forwarders_ok ts (u\<lparr>uc_forwarders := (uc_forwarders u)[i := f]\<rparr>)"
  using assms unfolding forwarders_ok_def
  by (cases "i < length (uc_forwarders u)") (auto intro: list_all_update simp: nth_list_update list_update_beyond not_less)

lemma forwarders_ok_remove:
  "forwarders_ok ts u \<Longrightarrow> forwarders_ok ts (u\<lparr>uc_port_map := hash_remove a (uc_port_map u)\<rparr>)"
  by (auto simp: forwarders_ok_def split: if_splits)

lemma forwarders_ok_outbound: "forwarders_ok ts (u\<lparr>uc_outbound := q\<rparr>) = forwarders_ok ts u"
  by (simp add: forwarders_ok_def)

lemma forwarders_ok_packet:
  assumes "forwarders_ok ts u" "plain_addr (udp_from t)"
  shows "forwarders_ok (ts @ [t]) (udp_packet connected t u)"
proof -
  have old: "forwarders_ok (ts @ [t]) u"
    using assms(1) by (auto simp: forwarders_ok_def list_all_iff intro: forwarder_ok_more)
  let ?f = "\<lparr>fw_from = udp_from t, fw_inbox = [], fw_sent = [], fw_alive = True\<rparr>"
  let ?u = "u\<lparr>uc_port_map := hash_insert (udp_from t) (length (uc_forwarders u)) (uc_port_map u),
      uc_forwarders := uc_forwarders u @ [?f]\<rparr>"
  have new: "forwarders_ok (ts @ [t]) ?u \<and> forwarders_ok ts ?u"
    using old assms by (auto simp: forwarders_ok_def forwarder_ok_def nth_append less_Suc_eq)
  define u1 where "u1 = (case map_of (uc_port_map u) (udp_from t) of Some i \<Rightarrow> u | None \<Rightarrow> if connected then ?u else u)"
  have u1: "forwarders_ok (ts @ [t]) u1" "forwarders_ok ts u1"
    using old new assms(1) by (auto simp: u1_def split: option.split)
  have step: "udp_packet connected t u =
      (case map_of (uc_port_map u1) (udp_from t) of None \<Rightarrow> u1
       | Some i \<Rightarrow> let f = uc_forwarders u1 ! i in if fw_alive f
           then u1\<lparr>uc_forwarders := (uc_forwarders u1)[i := f\<lparr>fw_inbox := fw_inbox f @ [udp_data t]\<rparr>]\<rparr> else u1)"
    by (simp only: udp_packet_def u1_def Let_def)
  show ?thesis
  proof (cases "map_of (uc_port_map u1) (udp_from t)")
    case None
    with step u1(1) show ?thesis by simp
  next
    case (Some i)
    let ?g = "uc_forwarders u1 ! i"
    have g: "i < length (uc_forwarders u1)" "fw_from ?g = udp_from t" "forwarder_ok ts ?g"
      using u1(2) Some by (auto simp: forwarders_ok_def list_all_length)
    have "forwarders_ok (ts @ [t]) (u1\<lparr>uc_forwarders := (uc_forwarders u1)[i := ?g\<lparr>fw_inbox := fw_inbox ?g @ [udp_data t]\<rparr>]\<rparr>)"
      using forwarder_ok_given [OF g(3,2)] by (intro forwarders_ok_update [OF u1(1)]) simp_all
    with Some step u1(1) show ?thesis by (simp add: Let_def)
  qed
qed

lemma forwarders_ok_step:
  assumes "forwarders_ok ts u"
  shows "forwarders_ok ts (forwarder_step i ev u)"
proof (cases "length (uc_forwarders u) \<le> i \<or> \<not> fw_alive (uc_forwarders u ! i)")
  case True
  with assms show ?thesis by (simp add: forwarder_step_def)
next
  case False
  let ?f = "uc_forwarders u ! i"
  have f: "forwarder_ok ts ?f" using assms False by (simp add: forwarders_ok_def list_all_length)
  have brk: "forwarders_ok ts (forwarder_break i u)"
    using forwarders_ok_remove [OF forwarders_ok_update [OF assms, of "?f\<lparr>fw_alive := False\<rparr>" i], of "fw_from ?f"] f
    by (simp add: forwarder_break_def Let_def)
  show ?thesis
  proof (cases ev)
    case (Inbound ok)
    with False assms forwarder_ok_drops [OF f] show ?thesis
      by (auto simp: forwarder_step_def Let_def split: list.split intro!: forwarders_ok_update)
  next
    case (From_Service d q)
    with False assms f show ?thesis
      by (auto simp: forwarder_step_def Let_def forwarders_ok_outbound intro!: forwarders_ok_update)
  qed (use False brk in \<open>auto simp: forwarder_step_def Let_def\<close>)
qed

section \<open>The invariant\<close>

definition answered :: "udp_path \<Rightarrow> udp_traffic list" where
  "answered p = map (\<lambda>(a, bs). \<lparr>udp_from = a, udp_data = bs\<rparr>) (up_sent (ud_pool p))"

definition down_ok :: "codec \<Rightarrow> udp_path \<Rightarrow> bool" where
  "down_ok k p =
     (room (up_conn (ud_pool p)) = None \<and> list_all carried (ud_arrived p) \<and>
      (\<exists>ts. ud_arrived p = ud_taken p @ ts \<and> inp (ud_conn p) @ sent (up_conn (ud_pool p)) = udp_stream k ts))"

definition up_ok :: "codec \<Rightarrow> udp_path \<Rightarrow> bool" where
  "up_ok k p =
     (room (ud_conn p) = None \<and> list_all carried (ud_replies p) \<and>
      (\<exists>ts. ud_replies p = answered p @ ts @ uc_outbound (ud_client p) \<and>
        inp (up_conn (ud_pool p)) @ sent (ud_conn p) = udp_stream k ts))"

definition udp_path_inv :: "codec \<Rightarrow> udp_path \<Rightarrow> bool" where
  "udp_path_inv k p = (down_ok k p \<and> up_ok k p \<and> forwarders_ok (ud_taken p) (ud_client p))"

lemmas udp_path_invs = udp_path_inv_def down_ok_def up_ok_def answered_def

lemma packet_keeps_outbound [simp]: "uc_outbound (udp_packet connected t u) = uc_outbound u"
  by (simp add: udp_packet_def Let_def split: option.split)

lemma step_keeps_outbound:
  "(\<And>d q. ev \<noteq> From_Service d q) \<Longrightarrow> uc_outbound (forwarder_step i ev u) = uc_outbound u"
  by (simp add: forwarder_step_def forwarder_break_def Let_def split: forwarder_event.split list.split)

lemma inv_reader:
  assumes "wire_codec k" "udp_path_inv k p"
  shows "udp_path_inv k (udp_reader_step k connected p)"
proof (cases "ud_reader p \<and> (\<exists>t c. act_bind read_u8 (udp_read k) (ud_conn p) = (Inr t, c))")
  case False
  then have "udp_reader_step k connected p = p" by (auto simp: udp_reader_step_def split: prod.split sum.split)
  with assms(2) show ?thesis by simp
next
  case True
  then obtain t c where r: "act_bind read_u8 (udp_read k) (ud_conn p) = (Inr t, c)" and "ud_reader p" by auto
  then have s: "udp_reader_step k connected p =
      p\<lparr>ud_conn := c, ud_client := udp_packet connected t (ud_client p), ud_taken := ud_taken p @ [t]\<rparr>"
    by (simp add: udp_reader_step_def)
  from assms(2) obtain ts where ts: "ud_arrived p = ud_taken p @ ts" "list_all carried (ud_arrived p)"
    "inp (ud_conn p) @ sent (up_conn (ud_pool p)) = udp_stream k ts" by (auto simp: udp_path_inv_def down_ok_def)
  obtain ts' where t: "ts = t # ts'" "inp c @ sent (up_conn (ud_pool p)) = udp_stream k ts'"
    "sent c = sent (ud_conn p)" "room c = room (ud_conn p)"
    using udp_read_stream [OF assms(1) ts(3) _ r] ts(1,2) by auto
  have "plain_addr (udp_from t)" using ts(1,2) t(1) by (simp add: carried_def)
  with forwarders_ok_packet [of "ud_taken p" "ud_client p" t connected] assms(2) ts t show ?thesis
    unfolding s by (auto simp: udp_path_invs)
qed

lemma inv_writer:
  assumes "udp_path_inv k p"
  shows "udp_path_inv k (udp_writer_step k p)"
proof (cases "ud_writer p \<and> uc_outbound (ud_client p) \<noteq> []")
  case False
  with assms show ?thesis by (auto simp: udp_writer_step_def split: list.split)
next
  case True
  then obtain t q where q: "uc_outbound (ud_client p) = t # q" by (cases "uc_outbound (ud_client p)") auto
  from assms obtain ts where ts: "ud_replies p = answered p @ ts @ t # q"
    "inp (up_conn (ud_pool p)) @ sent (ud_conn p) = udp_stream k ts" "room (ud_conn p) = None"
    by (auto simp: udp_path_inv_def up_ok_def q)
  have s: "udp_writer_step k p = p\<lparr>ud_client := (ud_client p)\<lparr>uc_outbound := q\<rparr>,
      ud_conn := (ud_conn p)\<lparr>sent := sent (ud_conn p) @ udp_bytes k (udp_from t) (udp_data t)\<rparr>\<rparr>"
    using True q udp_write_ok [OF ts(3), of k t] by (simp add: udp_writer_step_def Let_def)
  have "up_ok k (udp_writer_step k p)"
    using assms ts unfolding s up_ok_def udp_path_inv_def
    by (intro conjI exI [of _ "ts @ [t]"]) (simp_all add: answered_def flip: append_assoc)
  then show ?thesis using assms unfolding s by (simp add: udp_path_inv_def down_ok_def forwarders_ok_outbound)
qed

lemma inv_service_replies:
  assumes "udp_path_inv k p"
  shows "udp_path_inv k (service_replies i bs p)"
proof -
  let ?fs = "uc_forwarders (ud_client p)" and ?c = "forwarder_step i (From_Service bs (ud_writer p)) (ud_client p)"
  let ?new = "if i < length ?fs \<and> fw_alive (?fs ! i) \<and> ud_writer p then [cut_datagram (fw_from (?fs ! i), bs)] else []"
  have f: "forwarders_ok (ud_taken p) (ud_client p)" using assms by (simp add: udp_path_inv_def)
  have "uc_outbound ?c = uc_outbound (ud_client p) @ ?new"
    by (simp add: forwarder_step_def Let_def cut_datagram_def)
  moreover have "list_all carried ?new"
    using f by (simp add: carried_cut forwarders_ok_def forwarder_ok_def list_all_length)
  ultimately have "up_ok k (service_replies i bs p)"
    using assms by (auto simp: udp_path_inv_def up_ok_def service_replies_def Let_def answered_def)
  then show ?thesis
    using assms forwarders_ok_step [OF f] by (simp add: udp_path_inv_def down_ok_def service_replies_def Let_def)
qed

lemma inv_pool_receives:
  assumes "wire_codec k" "udp_path_inv k p" "plain_addr a"
  shows "udp_path_inv k (pool_receives k a bs p)"
proof -
  let ?s = "up_conn (ud_pool p)"
  have "udp_pool_step k (From_Visitor a bs) (ud_pool p) =
      Inr ((ud_pool p)\<lparr>up_conn := ?s\<lparr>sent := sent ?s @ udp_bytes k a (take UDP_BUFFER_SIZE bs)\<rparr>\<rparr>)"
    using wire_codec.udp_write_slice_ok [OF assms(1)] assms(2) by (simp add: udp_pool_step_def udp_path_inv_def down_ok_def)
  then have s: "pool_receives k a bs p = (if \<not> ud_pool_alive p then p
      else p\<lparr>ud_pool := (ud_pool p)\<lparr>up_conn := ?s\<lparr>sent := sent ?s @ udp_bytes k a (take UDP_BUFFER_SIZE bs)\<rparr>\<rparr>,
             ud_arrived := ud_arrived p @ [cut_datagram (a, bs)]\<rparr>)"
    by (simp add: pool_receives_def)
  from assms(2) obtain ts where "ud_arrived p = ud_taken p @ ts" "inp (ud_conn p) @ sent ?s = udp_stream k ts"
    by (auto simp: udp_path_inv_def down_ok_def)
  then have "inp (ud_conn p) @ sent ?s @ udp_bytes k a (take UDP_BUFFER_SIZE bs) = udp_stream k (ts @ [cut_datagram (a, bs)])"
    "ud_arrived p @ [cut_datagram (a, bs)] = ud_taken p @ ts @ [cut_datagram (a, bs)]"
    by (simp_all add: cut_datagram_def flip: append_assoc)
  with assms(2,3) show ?thesis
    unfolding s udp_path_inv_def down_ok_def up_ok_def answered_def by (auto simp: carried_cut)
qed

lemma inv_pool_answers:
  assumes "wire_codec k" "udp_path_inv k p"
  shows "udp_path_inv k (pool_answers k p)"
proof (cases "ud_pool_alive p \<and> (\<exists>t c. act_bind read_u8 (udp_read k) (up_conn (ud_pool p)) = (Inr t, c))")
  case False
  then have "pool_answers k p = p"
    by (auto simp: pool_answers_def udp_pool_step_def split: prod.split sum.split)
  with assms(2) show ?thesis by simp
next
  case True
  then obtain t c where r: "act_bind read_u8 (udp_read k) (up_conn (ud_pool p)) = (Inr t, c)" and "ud_pool_alive p" by auto
  then have s: "pool_answers k p = p\<lparr>ud_pool := (ud_pool p)\<lparr>up_conn := c,
      up_sent := up_sent (ud_pool p) @ [(udp_from t, udp_data t)]\<rparr>\<rparr>"
    by (simp add: pool_answers_def udp_pool_step_def)
  from assms(2) obtain ts where ts: "ud_replies p = answered p @ ts @ uc_outbound (ud_client p)"
    "list_all carried (ud_replies p)" "inp (up_conn (ud_pool p)) @ sent (ud_conn p) = udp_stream k ts"
    by (auto simp: udp_path_inv_def up_ok_def)
  obtain ts' where "ts = t # ts'" "inp c @ sent (ud_conn p) = udp_stream k ts'"
    "sent c = sent (up_conn (ud_pool p))" "room c = room (up_conn (ud_pool p))"
    using udp_read_stream [OF assms(1) ts(3) _ r] ts(1,2) by auto
  with assms(2) ts show ?thesis unfolding s by (auto simp: udp_path_invs)
qed

definition plain_visitors :: "udp_path_event list \<Rightarrow> bool" where
  "plain_visitors evs = list_all (\<lambda>ev. case ev of Visitor_Datagram a bs \<Rightarrow> plain_addr a | _ \<Rightarrow> True) evs"

lemma inv_udp_step:
  assumes "wire_codec k" "udp_path_inv k p" "plain_visitors [ev]"
  shows "udp_path_inv k (udp_path_step k ev p)"
proof -
  note inv = assms(2) [unfolded udp_path_invs]
  show ?thesis
  proof (cases ev)
    case (Visitor_Datagram a bs)
    with inv_pool_receives [OF assms(1,2)] assms(3) show ?thesis by (simp add: udp_path_step_def Let_def plain_visitors_def)
  next
    case Pool_Answers
    with inv_pool_answers [OF assms(1,2)] show ?thesis by (simp add: udp_path_step_def Let_def)
  next
    case (Client_Takes connected)
    with inv_reader [OF assms(1,2)] show ?thesis by (simp add: udp_path_step_def Let_def)
  next
    case (Service_Replies i bs)
    with inv_service_replies [OF assms(2)] show ?thesis by (simp add: udp_path_step_def Let_def)
  next
    case Client_Writes_Reply
    with inv_writer [OF assms(2)] show ?thesis by (simp add: udp_path_step_def Let_def)
  qed (use inv in \<open>auto simp: udp_path_step_def udp_path_invs Let_def step_keeps_outbound forwarders_ok_step\<close>)
qed

lemma inv_udp_run:
  "wire_codec k \<Longrightarrow> plain_visitors evs \<Longrightarrow> udp_path_inv k p \<Longrightarrow> udp_path_inv k (run_udp_path k evs p)"
  by (induction evs arbitrary: p) (simp_all add: inv_udp_step plain_visitors_def)

definition empty_udp_path :: udp_path where
  "empty_udp_path =
     \<lparr>ud_pool = \<lparr>up_conn = fresh_conn [], up_sent = []\<rparr>, ud_pool_alive = True,
      ud_client = \<lparr>uc_port_map = [], uc_forwarders = [], uc_outbound = []\<rparr>, ud_conn = fresh_conn [],
      ud_reader = True, ud_writer = True, ud_arrived = [], ud_taken = [], ud_replies = []\<rparr>"

lemma start_udp_path_eq:
  assumes "wire_codec k"
  shows "start_udp_path k cs (fresh_conn []) = (if cs_type cs = Service_Udp then Some empty_udp_path else None)"
proof -
  let ?c = "fresh_conn (ser_dcmd k StartForwardUdp)"
  have r: "read_data_cmd k ?c = (Inr StartForwardUdp, fresh_conn [])"
    using wire_codec.read_data_cmd_ok [OF assms, of ?c StartForwardUdp "[]"] by (simp add: fresh_conn_def)
  then show ?thesis
    by (simp add: start_udp_path_def udp_pool_start_def conn_write_and_flush_def with_context_def take_data_cmd_def
        act_bind_Inr [where p = "read_data_cmd k"] empty_udp_path_def fresh_conn_def)
qed

lemma inv_empty_udp: "udp_path_inv k empty_udp_path"
  by (simp add: empty_udp_path_def udp_path_invs forwarders_ok_def fresh_conn_def)

section \<open>Isolation of visitors\<close>

text \<open>
  C12. UDP visitors are kept apart from end to end, in any interleaving of datagrams, replies, both programs
  and their failures: the service gets over one socket only datagrams of one visitor, in the order in which
  that visitor sent them, and the replies that come to this socket are sent to that visitor and nobody
  else, in order and unchanged up to the cut to 2048 bytes, as long as they get through.
\<close>

theorem udp_visitors_are_isolated:
  assumes "wire_codec k" "start_udp_path k cs (fresh_conn []) = Some p0" "plain_visitors evs"
    and "run_udp_path k evs p0 = p"
  shows "prefix (ud_taken p) (ud_arrived p) \<and> prefix (answered p) (ud_replies p) \<and>
    (\<forall>f \<in> set (uc_forwarders (ud_client p)). subseq (fw_sent f) (from_addr (fw_from f) (ud_taken p)))"
proof -
  have "udp_path_inv k p0" using assms(2) inv_empty_udp by (auto simp: start_udp_path_eq [OF assms(1)] split: if_splits)
  then have i: "udp_path_inv k p" using inv_udp_run [OF assms(1,3)] assms(4) by blast
  have "subseq (fw_sent f) (from_addr (fw_from f) (ud_taken p))" if "f \<in> set (uc_forwarders (ud_client p))" for f
  proof -
    have "subseq (fw_sent f @ fw_inbox f) (from_addr (fw_from f) (ud_taken p))"
      using i that by (simp add: udp_path_inv_def forwarders_ok_def forwarder_ok_def list_all_iff)
    then show ?thesis by (metis prefixI prefix_imp_subseq subseq_order.trans)
  qed
  with i show ?thesis by (auto simp: udp_path_inv_def down_ok_def up_ok_def)
qed

definition udp_service :: client_service where
  "udp_service = (client_service_with_name ''dns'')\<lparr>cs_type := Service_Udp\<rparr>"

text \<open>A datagram and its reply, with all bytes of either delivered at once.\<close>

definition exchange :: "codec \<Rightarrow> socket_addr \<Rightarrow> bytes \<Rightarrow> bytes \<Rightarrow> udp_path_event list" where
  "exchange k a request reply =
     [Visitor_Datagram a request, Datagrams_Down (length (udp_bytes k a (take UDP_BUFFER_SIZE request))), Client_Takes True,
      Client_Delivers 0 True, Service_Replies 0 reply, Client_Writes_Reply,
      Datagrams_Up (length (udp_bytes k a (take UDP_BUFFER_SIZE reply))), Pool_Answers]"

lemma exchange_answered:
  assumes "wire_codec k" "plain_addr a"
  shows "answered (run_udp_path k (exchange k a request reply) empty_udp_path) = [cut_datagram (a, reply)]"
proof -
  have r: "act_bind read_u8 (udp_read k) \<lparr>inp = udp_bytes k a (take UDP_BUFFER_SIZE bs), sent = [], room = None\<rparr> =
      (Inr (cut_datagram (a, bs)), \<lparr>inp = [], sent = [], room = None\<rparr>)" for bs
  proof -
    have "length (take UDP_BUFFER_SIZE bs) mod 65536 = length (take UDP_BUFFER_SIZE bs)" by (simp add: UDP_BUFFER_SIZE_def)
    with wire_codec.udp_read_ok [OF assms, of "\<lparr>inp = udp_bytes k a (take UDP_BUFFER_SIZE bs), sent = [], room = None\<rparr>"
        "take UDP_BUFFER_SIZE bs" "[]"]
    show ?thesis by (auto simp: cut_datagram_def min_def)
  qed
  have w: "udp_write_slice k a (take UDP_BUFFER_SIZE bs) \<lparr>inp = i, sent = [], room = None\<rparr> =
      (Inr (), \<lparr>inp = i, sent = udp_bytes k a (take UDP_BUFFER_SIZE bs), room = None\<rparr>)" for bs i
    using wire_codec.udp_write_slice_ok [OF assms(1)] by simp
  have o: "udp_write k \<lparr>udp_from = a, udp_data = take UDP_BUFFER_SIZE bs\<rparr> \<lparr>inp = i, sent = [], room = None\<rparr> =
      (Inr (), \<lparr>inp = i, sent = udp_bytes k a (take UDP_BUFFER_SIZE bs), room = None\<rparr>)" for bs i
    by (simp add: udp_write_ok)
  show ?thesis
    by (simp add: exchange_def empty_udp_path_def fresh_conn_def udp_path_step_def Let_def pool_receives_def udp_pool_step_def
        w r o udp_reader_step_def udp_packet_def cut_datagram_def forwarder_step_def service_replies_def udp_writer_step_def
        pool_answers_def answered_def)
qed

theorem udp_visitors_are_isolated_witness:
  "prefix (answered (run_udp_path bincode (exchange bincode (V4 0x0A000001 5353) [1, 2] [3]) empty_udp_path))
     (ud_replies (run_udp_path bincode (exchange bincode (V4 0x0A000001 5353) [1, 2] [3]) empty_udp_path)) \<and>
   answered (run_udp_path bincode (exchange bincode (V4 0x0A000001 5353) [1, 2] [3]) empty_udp_path) =
     [cut_datagram (V4 0x0A000001 5353, [3])]"
proof -
  have s: "start_udp_path bincode udp_service (fresh_conn []) = Some empty_udp_path"
    by (simp add: start_udp_path_eq [OF bincode.wire_codec_axioms] udp_service_def)
  have v: "plain_visitors (exchange bincode (V4 0x0A000001 5353) [1, 2] [3])" by (simp add: plain_visitors_def exchange_def)
  have "plain_addr (V4 0x0A000001 5353)" by simp
  from exchange_answered [OF bincode.wire_codec_axioms this, of "[1, 2]" "[3]"]
    udp_visitors_are_isolated [OF bincode.wire_codec_axioms s v refl]
  show ?thesis by blast
qed

end
