(* ===== verification/Udp_Live.thy ===== *)
theory Udp_Live
  imports Udp_Path
begin

text \<open>
  The service of UDP visitors through both programs, over any number of exchanges: from a path with nothing
  under way, a datagram of any visitor reaches the service over the socket of that visitor and its reply
  reaches the visitor, whether the visitor is new, known, or was forgotten after a pause.
\<close>

section \<open>Quiet paths\<close>

definition quiet_client :: "udp_client \<Rightarrow> bool" where
  "quiet_client u =
     (uc_outbound u = [] \<and>
      (\<forall>a i. map_of (uc_port_map u) a = Some i \<longrightarrow> i < length (uc_forwarders u) \<and>
         fw_from (uc_forwarders u ! i) = a \<and> fw_alive (uc_forwarders u ! i) \<and> fw_inbox (uc_forwarders u ! i) = []))"

definition quiet :: "udp_path \<Rightarrow> bool" where
  "quiet p =
     (ud_pool_alive p \<and> ud_reader p \<and> ud_writer p \<and> up_conn (ud_pool p) = fresh_conn [] \<and> ud_conn p = fresh_conn [] \<and>
      quiet_client (ud_client p))"

lemma quiet_empty: "quiet empty_udp_path"
  by (simp add: quiet_def quiet_client_def empty_udp_path_def)

text \<open>The number of the socket a datagram of a visitor will be sent over.\<close>

definition socket_of :: "socket_addr \<Rightarrow> udp_client \<Rightarrow> nat" where
  "socket_of a u = (case map_of (uc_port_map u) a of Some i \<Rightarrow> i | None \<Rightarrow> length (uc_forwarders u))"

text \<open>A datagram and its reply over a socket, with all bytes of either delivered at once.\<close>

definition exchange_over :: "codec \<Rightarrow> nat \<Rightarrow> socket_addr \<Rightarrow> bytes \<Rightarrow> bytes \<Rightarrow> udp_path_event list" where
  "exchange_over k i a request reply =
     [Visitor_Datagram a request, Datagrams_Down (length (udp_bytes k a (take UDP_BUFFER_SIZE request))), Client_Takes True,
      Client_Delivers i True, Service_Replies i reply, Client_Writes_Reply,
      Datagrams_Up (length (udp_bytes k a (take UDP_BUFFER_SIZE reply))), Pool_Answers]"

text \<open>The client in an exchange: what its forwarders have after the datagram was given to the service.\<close>

definition served_client :: "socket_addr \<Rightarrow> bytes \<Rightarrow> udp_client \<Rightarrow> udp_client" where
  "served_client a request u =
     (let i = socket_of a u;
          u1 = (if map_of (uc_port_map u) a = None
                then u\<lparr>uc_port_map := hash_insert a i (uc_port_map u),
                       uc_forwarders := uc_forwarders u @ [\<lparr>fw_from = a, fw_inbox = [], fw_sent = [], fw_alive = True\<rparr>]\<rparr>
                else u);
          f = uc_forwarders u1 ! i
      in u1\<lparr>uc_forwarders := (uc_forwarders u1)[i := f\<lparr>fw_sent := fw_sent f @ [take UDP_BUFFER_SIZE request]\<rparr>]\<rparr>)"

lemma socket_of_served:
  assumes "quiet_client u"
  shows "socket_of a u < length (uc_forwarders (served_client a request u))"
    and "fw_from (uc_forwarders (served_client a request u) ! socket_of a u) = a"
    and "fw_alive (uc_forwarders (served_client a request u) ! socket_of a u)"
    and "map_of (uc_port_map (served_client a request u)) = (map_of (uc_port_map u))(a \<mapsto> socket_of a u)"
  using assms
  by (auto simp: quiet_client_def served_client_def socket_of_def Let_def fun_upd_idem split: option.split)

lemma quiet_served:
  assumes "quiet_client u"
  shows "quiet_client (served_client a request u)"
proof -
  have old: "i < length (uc_forwarders u) \<and> fw_from (uc_forwarders u ! i) = b \<and> fw_alive (uc_forwarders u ! i) \<and>
      fw_inbox (uc_forwarders u ! i) = []" if "map_of (uc_port_map u) b = Some i" for b i
    using assms that by (simp add: quiet_client_def)
  have out: "uc_outbound u = []" using assms by (simp add: quiet_client_def)
  show ?thesis
  proof (cases "map_of (uc_port_map u) a")
    case None
    with old out show ?thesis
      by (fastforce simp: quiet_client_def served_client_def socket_of_def Let_def nth_append nth_list_update less_Suc_eq
          split: if_splits)
  next
    case (Some j)
    with old out show ?thesis
      by (auto simp: quiet_client_def served_client_def socket_of_def Let_def nth_list_update)
  qed
qed

text \<open>The packet and its delivery, the steps of the forwarder, and the reply.\<close>

lemma empty_inbox: "fw_inbox f = [] \<Longrightarrow> f\<lparr>fw_inbox := [], fw_sent := ds\<rparr> = f\<lparr>fw_sent := ds\<rparr>" for f :: forwarder
  by (cases f) simp

lemma packet_delivered:
  assumes "quiet_client u"
  shows "forwarder_step (socket_of a u) (Inbound True)
      (udp_packet True \<lparr>udp_from = a, udp_data = take UDP_BUFFER_SIZE request\<rparr> u) = served_client a request u"
proof (cases "map_of (uc_port_map u) a")
  case None
  then show ?thesis
    by (simp add: udp_packet_def forwarder_step_def served_client_def socket_of_def Let_def)
next
  case (Some i)
  with assms have "i < length (uc_forwarders u)" "fw_alive (uc_forwarders u ! i)" "fw_inbox (uc_forwarders u ! i) = []"
    by (simp_all add: quiet_client_def)
  with Some show ?thesis
    by (simp add: udp_packet_def forwarder_step_def served_client_def socket_of_def Let_def empty_inbox)
qed

section \<open>One exchange\<close>

definition after_exchange :: "socket_addr \<Rightarrow> bytes \<Rightarrow> bytes \<Rightarrow> udp_path \<Rightarrow> udp_path" where
  "after_exchange a request reply p =
     p\<lparr>ud_pool := (ud_pool p)\<lparr>up_sent := up_sent (ud_pool p) @ [(a, take UDP_BUFFER_SIZE reply)]\<rparr>,
       ud_client := served_client a request (ud_client p),
       ud_arrived := ud_arrived p @ [cut_datagram (a, request)], ud_taken := ud_taken p @ [cut_datagram (a, request)],
       ud_replies := ud_replies p @ [cut_datagram (a, reply)]\<rparr>"

lemma quiet_after: "quiet p \<Longrightarrow> quiet (after_exchange a request reply p)"
  by (simp add: quiet_def after_exchange_def quiet_served)

lemma exchange_from_quiet:
  assumes "wire_codec k" "plain_addr a" "quiet p"
  shows "run_udp_path k (exchange_over k (socket_of a (ud_client p)) a request reply) p = after_exchange a request reply p"
proof -
  let ?i = "socket_of a (ud_client p)"
  have r: "act_bind read_u8 (udp_read k) \<lparr>inp = udp_bytes k a (take UDP_BUFFER_SIZE bs), sent = [], room = None\<rparr> =
      (Inr (cut_datagram (a, bs)), \<lparr>inp = [], sent = [], room = None\<rparr>)" for bs
  proof -
    have "length (take UDP_BUFFER_SIZE bs) mod 65536 = length (take UDP_BUFFER_SIZE bs)" by (simp add: UDP_BUFFER_SIZE_def)
    with wire_codec.udp_read_ok [OF assms(1,2), of "\<lparr>inp = udp_bytes k a (take UDP_BUFFER_SIZE bs), sent = [], room = None\<rparr>"
        "take UDP_BUFFER_SIZE bs" "[]"]
    show ?thesis by (auto simp: cut_datagram_def min_def)
  qed
  have w: "udp_write_slice k a (take UDP_BUFFER_SIZE bs) \<lparr>inp = i, sent = [], room = None\<rparr> =
      (Inr (), \<lparr>inp = i, sent = udp_bytes k a (take UDP_BUFFER_SIZE bs), room = None\<rparr>)" for bs i
    using wire_codec.udp_write_slice_ok [OF assms(1)] by simp
  have o: "udp_write k \<lparr>udp_from = a, udp_data = take UDP_BUFFER_SIZE bs\<rparr> \<lparr>inp = i, sent = [], room = None\<rparr> =
      (Inr (), \<lparr>inp = i, sent = udp_bytes k a (take UDP_BUFFER_SIZE bs), room = None\<rparr>)" for bs i
    by (simp add: udp_write_ok)
  have q: "ud_pool_alive p" "ud_reader p" "ud_writer p" "up_conn (ud_pool p) = \<lparr>inp = [], sent = [], room = None\<rparr>"
      "ud_conn p = \<lparr>inp = [], sent = [], room = None\<rparr>" "quiet_client (ud_client p)"
    using assms(3) by (simp_all add: quiet_def fresh_conn_def)
  note d = packet_delivered [OF q(6), of a request]
  note s = socket_of_served [OF q(6), of a request]
  have out: "uc_outbound (served_client a request (ud_client p)) = []"
    using quiet_served [OF q(6)] by (simp add: quiet_client_def)
  have reply: "forwarder_step ?i (From_Service reply True) (served_client a request (ud_client p)) =
      (served_client a request (ud_client p))\<lparr>uc_outbound := [\<lparr>udp_from = a, udp_data = take UDP_BUFFER_SIZE reply\<rparr>]\<rparr>"
    using s out by (simp add: forwarder_step_def Let_def)
  have unsent: "(served_client a request (ud_client p))\<lparr>uc_outbound := []\<rparr> = served_client a request (ud_client p)"
    using out by (cases "served_client a request (ud_client p)") simp
  have same: "p'\<lparr>ud_conn := \<lparr>inp = [], sent = [], room = None\<rparr>, ud_pool := (ud_pool p)\<lparr>up_conn := \<lparr>inp = [], sent = [], room = None\<rparr>, up_sent := x\<rparr>\<rparr> =
      p'\<lparr>ud_pool := (ud_pool p)\<lparr>up_sent := x\<rparr>\<rparr>" if "ud_conn p' = ud_conn p" for p' :: udp_path and x
    using q(4,5) that by (cases p'; cases "ud_pool p") simp
  show ?thesis
    by (simp add: exchange_over_def udp_path_step_def Let_def pool_receives_def udp_pool_step_def q w r o
        udp_reader_step_def cut_datagram_def d service_replies_def s reply udp_writer_step_def pool_answers_def
        after_exchange_def unsent same)
qed

section \<open>What the service was given\<close>

text \<open>The socket a visitor has is the last one that was made for it.\<close>

definition latest :: "udp_client \<Rightarrow> bool" where
  "latest u =
     (let froms = map fw_from (uc_forwarders u)
      in \<forall>a i. map_of (uc_port_map u) a = Some i \<longrightarrow> i < length froms \<and> froms ! i = a \<and> a \<notin> set (drop (Suc i) froms))"

text \<open>All datagrams of a visitor that the service got, over the sockets of that visitor one after the other.\<close>

definition given :: "socket_addr \<Rightarrow> udp_client \<Rightarrow> bytes list" where
  "given a u = concat (map fw_sent (filter (\<lambda>f. fw_from f = a) (uc_forwarders u)))"

lemma given_cong:
  assumes "map (\<lambda>f. (fw_from f, fw_sent f)) fs = map (\<lambda>f. (fw_from f, fw_sent f)) gs"
  shows "concat (map fw_sent (filter (\<lambda>f. fw_from f = b) fs)) = concat (map fw_sent (filter (\<lambda>f. fw_from f = b) gs))"
proof -
  have "map fw_sent (filter (\<lambda>f. fw_from f = b) hs) =
      map snd (filter (\<lambda>p. fst p = b) (map (\<lambda>f. (fw_from f, fw_sent f)) hs))" for hs
    by (induction hs) simp_all
  from this [of fs] this [of gs] assms show ?thesis by simp
qed

lemma given_last:
  assumes "i < length fs" "fw_from (fs ! i) = a" "\<forall>f \<in> set (drop (Suc i) fs). fw_from f \<noteq> a"
  shows "concat (map fw_sent (filter (\<lambda>f. fw_from f = b) (fs[i := (fs ! i)\<lparr>fw_sent := fw_sent (fs ! i) @ ds\<rparr>]))) =
    concat (map fw_sent (filter (\<lambda>f. fw_from f = b) fs)) @ (if b = a then ds else [])"
proof -
  have none: "filter (\<lambda>f. fw_from f = a) (drop (Suc i) fs) = []" using assms(3) by (simp add: filter_empty_conv)
  have split: "fs = take i fs @ fs ! i # drop (Suc i) fs" using assms(1) by (simp add: id_take_nth_drop)
  have "filter (\<lambda>f. fw_from f = b) fs =
      filter (\<lambda>f. fw_from f = b) (take i fs) @ filter (\<lambda>f. fw_from f = b) (fs ! i # drop (Suc i) fs)"
    by (subst split) (simp only: filter_append)
  then show ?thesis
    using assms(1,2) none by (simp add: upd_conv_take_nth_drop)
qed

lemma latestD:
  assumes "latest u" "map_of (uc_port_map u) a = Some i"
  shows "i < length (uc_forwarders u)" "fw_from (uc_forwarders u ! i) = a"
    "\<forall>f \<in> set (drop (Suc i) (uc_forwarders u)). fw_from f \<noteq> a"
proof -
  have l: "i < length (map fw_from (uc_forwarders u)) \<and> map fw_from (uc_forwarders u) ! i = a \<and>
      a \<notin> set (drop (Suc i) (map fw_from (uc_forwarders u)))"
    using assms unfolding latest_def Let_def by blast
  then show "i < length (uc_forwarders u)" by simp
  then show "fw_from (uc_forwarders u ! i) = a" using l nth_map by metis
  show "\<forall>f \<in> set (drop (Suc i) (uc_forwarders u)). fw_from f \<noteq> a"
  proof
    fix f
    assume "f \<in> set (drop (Suc i) (uc_forwarders u))"
    then have "fw_from f \<in> set (drop (Suc i) (map fw_from (uc_forwarders u)))" by (simp add: drop_map)
    with l show "fw_from f \<noteq> a" by blast
  qed
qed

lemma latestI:
  assumes "\<And>a i. map_of (uc_port_map u) a = Some i \<Longrightarrow> i < length (uc_forwarders u) \<and>
    fw_from (uc_forwarders u ! i) = a \<and> (\<forall>f \<in> set (drop (Suc i) (uc_forwarders u)). fw_from f \<noteq> a)"
  shows "latest u"
  using assms by (fastforce simp: latest_def Let_def drop_map)

lemma given_served:
  assumes "latest u"
  shows "given b (served_client a request u) = given b u @ (if b = a then [take UDP_BUFFER_SIZE request] else [])"
proof (cases "map_of (uc_port_map u) a")
  case None
  then show ?thesis by (simp add: given_def served_client_def socket_of_def Let_def)
next
  case (Some i)
  from given_last [OF latestD [OF assms Some], of b] Some show ?thesis
    by (simp add: given_def served_client_def socket_of_def Let_def)
qed

lemma latest_update:
  assumes "latest u" "fw_from f = fw_from (uc_forwarders u ! i)"
  shows "latest (u\<lparr>uc_forwarders := (uc_forwarders u)[i := f]\<rparr>)"
proof -
  have "map fw_from ((uc_forwarders u)[i := f]) = map fw_from (uc_forwarders u)"
    using assms(2) by (cases "i < length (uc_forwarders u)") (simp_all add: map_update list_update_same_conv list_update_beyond)
  then show ?thesis using assms(1) by (simp add: latest_def)
qed

lemma latest_new:
  assumes "latest u" "fw_from f = a" "map_of (uc_port_map u) a = None"
  shows "latest (u\<lparr>uc_port_map := hash_insert a (length (uc_forwarders u)) (uc_port_map u),
    uc_forwarders := uc_forwarders u @ [f]\<rparr>)" (is "latest ?u")
proof (rule latestI)
  fix b i
  assume m: "map_of (uc_port_map ?u) b = Some i"
  show "i < length (uc_forwarders ?u) \<and> fw_from (uc_forwarders ?u ! i) = b \<and>
    (\<forall>g \<in> set (drop (Suc i) (uc_forwarders ?u)). fw_from g \<noteq> b)"
  proof (cases "b = a")
    case True
    with m assms(2) show ?thesis by (auto simp: nth_append)
  next
    case False
    with m have "map_of (uc_port_map u) b = Some i" by simp
    from latestD [OF assms(1) this] False assms(2) show ?thesis by (auto simp: nth_append dest: in_set_dropD)
  qed
qed

lemma latest_forget: "latest u \<Longrightarrow> latest (u\<lparr>uc_port_map := hash_remove a (uc_port_map u)\<rparr>)"
  by (intro latestI) (auto dest: latestD split: if_splits)

lemma latest_served:
  assumes "latest u"
  shows "latest (served_client a request u)"
  unfolding served_client_def Let_def using assms
  by (intro latest_update) (auto simp: latest_new socket_of_def)

text \<open>After a pause the client has forgotten a visitor; what was given does not change.\<close>

lemma pause_keeps:
  assumes "quiet_client u" "latest u"
  shows "quiet_client (forwarder_step i Idle_Timeout u)" "latest (forwarder_step i Idle_Timeout u)"
    "given b (forwarder_step i Idle_Timeout u) = given b u"
proof -
  let ?f = "(uc_forwarders u ! i)\<lparr>fw_alive := False\<rparr>"
  let ?u = "u\<lparr>uc_forwarders := (uc_forwarders u)[i := ?f]\<rparr>"
  have step: "forwarder_step i Idle_Timeout u =
      (if length (uc_forwarders u) \<le> i \<or> \<not> fw_alive (uc_forwarders u ! i) then u
       else ?u\<lparr>uc_port_map := hash_remove (fw_from (uc_forwarders u ! i)) (uc_port_map u)\<rparr>)"
    by (simp add: forwarder_step_def forwarder_break_def Let_def)
  show "quiet_client (forwarder_step i Idle_Timeout u)"
    unfolding step using assms(1) by (auto simp: quiet_client_def nth_list_update)
  show "latest (forwarder_step i Idle_Timeout u)"
    unfolding step using assms(2) latest_forget [OF latest_update [OF assms(2), of ?f i]] by simp
  have same: "map (\<lambda>f. (fw_from f, fw_sent f)) ((uc_forwarders u)[i := ?f]) = map (\<lambda>f. (fw_from f, fw_sent f)) (uc_forwarders u)"
    by (cases "i < length (uc_forwarders u)") (simp_all add: map_update list_update_same_conv list_update_beyond)
  show "given b (forwarder_step i Idle_Timeout u) = given b u"
    unfolding step using given_cong [OF same] by (simp add: given_def)
qed

section \<open>Conversations\<close>

datatype udp_round = Exchanged socket_addr bytes bytes | Paused nat

text \<open>The events of a conversation; the socket of an exchange is the one the client has, or will make.\<close>

fun udp_conversation :: "codec \<Rightarrow> udp_round list \<Rightarrow> udp_path \<Rightarrow> udp_path" where
  "udp_conversation k [] p = p"
| "udp_conversation k (Exchanged a request reply # rs) p =
     udp_conversation k rs (run_udp_path k (exchange_over k (socket_of a (ud_client p)) a request reply) p)"
| "udp_conversation k (Paused i # rs) p = udp_conversation k rs (run_udp_path k [Socket_Idle i] p)"

fun replies_of :: "udp_round list \<Rightarrow> (socket_addr \<times> bytes) list" where
  "replies_of [] = []"
| "replies_of (Exchanged a request reply # rs) = (a, take UDP_BUFFER_SIZE reply) # replies_of rs"
| "replies_of (Paused i # rs) = replies_of rs"

fun requests_of :: "socket_addr \<Rightarrow> udp_round list \<Rightarrow> bytes list" where
  "requests_of b [] = []"
| "requests_of b (Exchanged a request reply # rs) = (if b = a then [take UDP_BUFFER_SIZE request] else []) @ requests_of b rs"
| "requests_of b (Paused i # rs) = requests_of b rs"

definition plain_round :: "udp_round \<Rightarrow> bool" where
  "plain_round r = (case r of Exchanged a request reply \<Rightarrow> plain_addr a | Paused i \<Rightarrow> True)"

lemma conversation_from_quiet:
  assumes "wire_codec k" "list_all plain_round rs" "quiet p" "latest (ud_client p)"
  shows "up_sent (ud_pool (udp_conversation k rs p)) = up_sent (ud_pool p) @ replies_of rs \<and>
    given b (ud_client (udp_conversation k rs p)) = given b (ud_client p) @ requests_of b rs"
  using assms
proof (induction k rs p rule: udp_conversation.induct)
  case (2 k a request reply rs p)
  then have "plain_addr a" by (simp add: plain_round_def)
  then have e: "run_udp_path k (exchange_over k (socket_of a (ud_client p)) a request reply) p = after_exchange a request reply p"
    using exchange_from_quiet \<open>wire_codec k\<close> \<open>quiet p\<close> by blast
  have c: "ud_client (after_exchange a request reply p) = served_client a request (ud_client p)"
    by (simp add: after_exchange_def)
  have l: "latest (ud_client (after_exchange a request reply p))" using 2 by (simp add: c latest_served)
  have g: "given b (ud_client (after_exchange a request reply p)) =
      given b (ud_client p) @ (if b = a then [take UDP_BUFFER_SIZE request] else [])"
    using 2 by (simp add: c given_served)
  have s: "up_sent (ud_pool (after_exchange a request reply p)) = up_sent (ud_pool p) @ [(a, take UDP_BUFFER_SIZE reply)]"
    by (simp add: after_exchange_def)
  have "list_all plain_round rs" using 2 by simp
  from 2(1) [unfolded e, OF \<open>wire_codec k\<close> this quiet_after [OF \<open>quiet p\<close>] l] show ?case
    by (simp add: e g s)
next
  case (3 k i rs p)
  let ?p = "p\<lparr>ud_client := forwarder_step i Idle_Timeout (ud_client p)\<rparr>"
  have c: "quiet_client (ud_client p)" using \<open>quiet p\<close> by (simp add: quiet_def)
  note keeps = pause_keeps [where i = i, OF c \<open>latest (ud_client p)\<close>]
  have step: "udp_path_step k (Socket_Idle i) p = ?p" by (simp add: udp_path_step_def Let_def)
  have "quiet ?p" using \<open>quiet p\<close> keeps(1) by (simp add: quiet_def)
  with 3 keeps show ?case by (simp add: step)
qed simp

section \<open>Every conversation is answered\<close>

text \<open>
  C13. Over one data channel, UDP visitors are served without end: in any sequence of exchanges of any visitors,
  with any sockets forgotten in between after their timeout, the pool sends every reply to the visitor
  who asked, in order, and the service gets every request of a visitor in order, both up to the cut to
  2048 bytes.
\<close>

theorem udp_conversations_are_answered:
  assumes "wire_codec k" "start_udp_path k cs (fresh_conn []) = Some p0" "list_all plain_round rs"
    and "udp_conversation k rs p0 = p"
  shows "up_sent (ud_pool p) = replies_of rs \<and> given a (ud_client p) = requests_of a rs"
proof -
  have p0: "p0 = empty_udp_path" using assms(2) by (simp add: start_udp_path_eq [OF assms(1)] split: if_splits)
  have "latest (ud_client empty_udp_path)" "given a (ud_client empty_udp_path) = []" "up_sent (ud_pool empty_udp_path) = []"
    by (simp_all add: latest_def Let_def given_def empty_udp_path_def)
  with conversation_from_quiet [OF assms(1,3) quiet_empty] assms(4) p0 show ?thesis by simp
qed

theorem udp_conversations_are_answered_witness:
  "let a = V4 0x0A000001 5353;
       p = udp_conversation bincode [Exchanged a [1, 2] [3], Paused 0, Exchanged a [4] [5, 6]] empty_udp_path
   in up_sent (ud_pool p) = [(a, [3]), (a, [5, 6])] \<and> given a (ud_client p) = [[1, 2], [4]]"
proof -
  let ?a = "V4 0x0A000001 5353" and ?rs = "[Exchanged (V4 0x0A000001 5353) [1, 2] [3], Paused 0, Exchanged (V4 0x0A000001 5353) [4] [5, 6]]"
  have s: "start_udp_path bincode udp_service (fresh_conn []) = Some empty_udp_path"
    by (simp add: start_udp_path_eq [OF bincode.wire_codec_axioms] udp_service_def)
  have v: "list_all plain_round ?rs" by (simp add: plain_round_def)
  from udp_conversations_are_answered [OF bincode.wire_codec_axioms s v refl, of ?a]
  show ?thesis by (simp add: Let_def UDP_BUFFER_SIZE_def)
qed

end
