(* ===== verification/Retry.thy ===== *)
theory Retry
  imports Client Backoff
begin

text \<open>
  The task of a service in \<open>src/rathole/src/client.rs\<close> on the clock: runs of the control channel, the
  retry after a failed one, and the shutdown signal, which the code looks at only in the loop of the
  channel and after a failed run.
\<close>

section \<open>Runs\<close>

text \<open>
  How a run would go without the signal. Connecting and the exchange up to the ack are not under a
  timeout or a \<open>select!\<close>: they fail or complete after some time, or never return. Then the loop of the
  channel ends with a result after some time, goes on, or from some time on waits for ever in the body of a
  branch, which is where the health report is written. The flag says whether the signal wins when it comes at
  the very moment the loop ends; the number is what the backoff draws.
\<close>

datatype handshake_course = Hs_Fails err nat | Hs_Done nat | Hs_Stuck

datatype loop_course = Loop_Ends "err + unit" nat | Loop_Goes_On | Loop_Blocks nat

record attempt =
  at_handshake :: handshake_course
  at_loop :: loop_course
  at_signal_first :: bool
  at_random :: nat

text \<open>
  \<open>ControlChannel::run\<close> begun at a time, with the time of the signal: its result and when it returns.
\<close>

definition control_run :: "instant option \<Rightarrow> instant \<Rightarrow> attempt \<Rightarrow> ((err + unit) \<times> instant) option" where
  "control_run sd now a =
     (case at_handshake a of
        Hs_Stuck \<Rightarrow> None
      | Hs_Fails e t \<Rightarrow> Some (Inl e, now + t)
      | Hs_Done t \<Rightarrow>
          (case at_loop a of
             Loop_Goes_On \<Rightarrow> (case sd of None \<Rightarrow> None | Some s \<Rightarrow> Some (Inr (), max s (now + t)))
           | Loop_Blocks d \<Rightarrow>
               (case sd of None \<Rightarrow> None
                | Some s \<Rightarrow> if s < now + t + d then Some (Inr (), max s (now + t)) else None)
           | Loop_Ends r d \<Rightarrow>
               (case sd of None \<Rightarrow> Some (r, now + t + d)
                | Some s \<Rightarrow>
                    if s < now + t + d \<or> s = now + t + d \<and> at_signal_first a
                    then Some (Inr (), max s (now + t)) else Some (r, now + t + d))))"

section \<open>The task\<close>

text \<open>
  The task of \<open>ControlChannelHandle::new\<close>. It gives the log of the retries, each the start of
  the run, the time of its failure and the delay, and how the task stands: ended, in a run that never returns, or waiting for the
  next run, for which the list has no outcome.
\<close>

datatype task_state = Task_Ended instant | Task_Stuck instant | Task_Waiting instant

fun service_task ::
  "'b backoff_ops \<Rightarrow> instant option \<Rightarrow> attempt list \<Rightarrow> instant \<Rightarrow> instant \<Rightarrow> 'b \<Rightarrow>
    fault + ((instant \<times> instant \<times> nat) list \<times> task_state)" where
  "service_task ops sd [] start now b = Inr ([], Task_Waiting now)"
| "service_task ops sd (a # as) start now b =
     (case control_run sd now a of
        None \<Rightarrow> Inr ([], Task_Stuck now)
      | Some (Inr u, t) \<Rightarrow> Inr ([], Task_Ended t)
      | Some (Inl e, t) \<Rightarrow>
          if (case sd of None \<Rightarrow> False | Some s \<Rightarrow> s \<le> t) then Inr ([], Task_Ended t)
          else let b1 = (if secs 3 < duration_since t start then bo_reset ops t b else b)
               in case bo_next ops (at_random a) t b1 of
                    (None, b2) \<Rightarrow> Inl (Panic ''Failed to run the control channel. Break'')
                  | (Some d, b2) \<Rightarrow>
                      rbind (service_task ops sd as (t + d) (t + d) b2) (\<lambda>(retries, st).
                      Inr ((start, t, d) # retries, st)))"

text \<open>The task as it starts, with the backoff of the service's retry interval.\<close>

definition start_task ::
  "'b backoff_ops \<Rightarrow> instant option \<Rightarrow> attempt list \<Rightarrow> instant \<Rightarrow> client_service \<Rightarrow>
    fault + ((instant \<times> instant \<times> nat) list \<times> task_state)" where
  "start_task ops sd as now cs =
     (case cs_retry_interval cs of
        None \<Rightarrow> Inl (Panic ''called `Option::unwrap()` on a `None` value'')
      | Some r \<Rightarrow>
          service_task ops sd as now now (bo_make ops (run_control_chan_backoff (bo_default ops) r) now))"

section \<open>Bounded delays\<close>

definition delays_ok :: "policy \<Rightarrow> (instant \<times> instant \<times> nat) list \<Rightarrow> bool" where
  "delays_ok p retries =
     list_all (\<lambda>(u, t, d). d * 1000 \<le> delay_bound p \<and>
       (secs 3 < duration_since t u \<longrightarrow> d * 1000 \<le> (1000 + po_randomization p) * po_initial p)) retries"

context backoff_lib
begin

text \<open>The retry after a failed run: the delay keeps its bound, and after three seconds that of a new backoff.\<close>

lemma retry_delay:
  fixes t start :: instant
  assumes "belongs p b" "po_max_elapsed p = None"
  defines "b1 \<equiv> (if secs 3 < duration_since t start then bo_reset ops t b else b)"
  obtains d b2 where "bo_next ops r t b1 = (Some d, b2)" "belongs p b2" "delays_ok p [(start, t, d)]"
proof -
  have b1: "belongs p b1" using assms(1) reset_belongs by (simp add: b1_def)
  obtain d b2 where n: "bo_next ops r t b1 = (Some d, b2)" "d * 1000 \<le> delay_bound p" "belongs p b2"
    by (rule next_delay [OF b1 assms(2)])
  have "d * 1000 \<le> (1000 + po_randomization p) * po_initial p" if "secs 3 < duration_since t start"
    using reset_bounded [OF assms(1), of r t t d] n(1) that by (simp add: b1_def)
  with n that show thesis by (simp add: delays_ok_def)
qed

lemma service_task_retries:
  assumes "belongs p b" "po_max_elapsed p = None"
  shows "\<exists>retries st. service_task ops sd as start now b = Inr (retries, st) \<and> delays_ok p retries"
  using assms(1)
proof (induction as arbitrary: start now b)
  case Nil
  then show ?case by (simp add: delays_ok_def)
next
  case (Cons a as)
  show ?case
  proof (cases "\<exists>e t. control_run sd now a = Some (Inl e, t) \<and> \<not> (case sd of None \<Rightarrow> False | Some s \<Rightarrow> s \<le> t)")
    case False
    then show ?thesis by (auto simp: delays_ok_def split: option.splits sum.splits)
  next
    case True
    then obtain e t where r: "control_run sd now a = Some (Inl e, t)"
        "\<not> (case sd of None \<Rightarrow> False | Some s \<Rightarrow> s \<le> t)" by blast
    obtain d b2 where n: "bo_next ops (at_random a) t
          (if secs 3 < duration_since t start then bo_reset ops t b else b) = (Some d, b2)"
        "belongs p b2" "delays_ok p [(start, t, d)]"
      by (rule retry_delay [OF Cons.prems assms(2)])
    from Cons.IH [OF n(2), of "t + d" "t + d"] show ?thesis using r n by (auto simp: delays_ok_def)
  qed
qed

text \<open>Without a signal, failing runs are retried for ever.\<close>

lemma service_task_persists:
  assumes "belongs p b" "po_max_elapsed p = None"
    and "\<And>a now. a \<in> set as \<Longrightarrow> \<exists>e t. control_run None now a = Some (Inl e, t)"
  shows "\<exists>retries t. service_task ops None as start now b = Inr (retries, Task_Waiting t) \<and>
    length retries = length as \<and> delays_ok p retries"
  using assms(1,3)
proof (induction as arbitrary: start now b)
  case Nil
  then show ?case by (simp add: delays_ok_def)
next
  case (Cons a as)
  obtain e t where r: "control_run None now a = Some (Inl e, t)" using Cons.prems(2) by fastforce
  obtain d b2 where n: "bo_next ops (at_random a) t
        (if secs 3 < duration_since t start then bo_reset ops t b else b) = (Some d, b2)"
      "belongs p b2" "delays_ok p [(start, t, d)]"
    by (rule retry_delay [OF Cons.prems(1) assms(2)])
  from Cons.IH [OF n(2), of "t + d" "t + d"] Cons.prems(2) show ?case using r n by (auto simp: delays_ok_def)
qed

end

section \<open>Ending\<close>

text \<open>A run whose handshake returns within a bound and whose loop does not block.\<close>

definition returns_within :: "nat \<Rightarrow> attempt \<Rightarrow> bool" where
  "returns_within h a =
     ((case at_handshake a of Hs_Stuck \<Rightarrow> False | Hs_Fails e t \<Rightarrow> 0 < t \<and> t \<le> h | Hs_Done t \<Rightarrow> 0 < t \<and> t \<le> h) \<and>
      (case at_loop a of Loop_Blocks d \<Rightarrow> False | _ \<Rightarrow> True))"

lemma control_run_returns:
  assumes "returns_within h a"
  obtains (ok) u t where "control_run (Some s) now a = Some (Inr u, t)" "t \<le> max s now + h"
  | (failed) e t where "control_run (Some s) now a = Some (Inl e, t)" "now < t" "t \<le> max s now + h"
proof -
  consider e t where "at_handshake a = Hs_Fails e t" "0 < t" "t \<le> h"
    | t where "at_handshake a = Hs_Done t" "0 < t" "t \<le> h"
    using assms by (auto simp: returns_within_def split: handshake_course.splits)
  then show thesis
  proof cases
    case (1 e t)
    then show thesis using failed [of e "now + t"] by (simp add: control_run_def)
  next
    case (2 t)
    have m: "max s (now + t) \<le> max s now + h" using 2(3) by (simp add: max_def)
    show thesis
    proof (cases "\<exists>r d. at_loop a = Loop_Ends r d \<and> \<not> (s < now + t + d \<or> s = now + t + d \<and> at_signal_first a)")
      case False
      then have "control_run (Some s) now a = Some (Inr (), max s (now + t))"
        using 2 assms by (auto simp: control_run_def returns_within_def split: loop_course.splits)
      with ok m show thesis by blast
    next
      case True
      then obtain r d where l: "at_loop a = Loop_Ends r d" "\<not> (s < now + t + d \<or> s = now + t + d \<and> at_signal_first a)"
        by blast
      then have c: "control_run (Some s) now a = Some (r, now + t + d)"
        using 2 by (auto simp: control_run_def)
      have b: "now + t + d \<le> max s now + h" using l(2) by (simp add: max_def)
      show thesis using c b 2(2) ok failed [of _ "now + t + d"] by (cases r) auto
    qed
  qed
qed

context backoff_lib
begin

lemma service_task_ends:
  assumes "belongs p b" "po_max_elapsed p = None" and at: "\<And>i. returns_within h (at i)"
    and "now * 1000 \<le> s * 1000 + delay_bound p"
  shows "\<exists>n retries t. service_task ops (Some s) (map at [k..<k + n]) start now b = Inr (retries, Task_Ended t) \<and>
    t * 1000 \<le> (s + h) * 1000 + delay_bound p"
  using assms(1,4)
proof (induction "s - now" arbitrary: k start now b rule: less_induct)
  case less
  have first: "map at [k..<k + Suc n] = at k # map at [Suc k..<Suc k + n]" for n
    by (subst upt_conv_Cons) simp_all
  have m: "t * 1000 \<le> (s + h) * 1000 + delay_bound p" if "t \<le> max s now + h" for t
    using less.prems(2) that by (cases "s \<le> now") (simp_all add: max_def)
  from at [of k] show ?case
  proof (cases rule: control_run_returns [of h "at k" s now])
    case (ok u t)
    then have "service_task ops (Some s) (map at [k..<k + Suc 0]) start now b = Inr ([], Task_Ended t)"
      unfolding first by simp
    moreover have "t * 1000 \<le> (s + h) * 1000 + delay_bound p" using ok(2) by (rule m)
    ultimately show ?thesis by blast
  next
    case (failed e t)
    show ?thesis
    proof (cases "s \<le> t")
      case True
      then have "service_task ops (Some s) (map at [k..<k + Suc 0]) start now b = Inr ([], Task_Ended t)"
        unfolding first using failed by simp
      moreover have "t * 1000 \<le> (s + h) * 1000 + delay_bound p" using failed(3) by (rule m)
      ultimately show ?thesis by blast
    next
      case False
      obtain d b2 where n: "bo_next ops (at_random (at k)) t
            (if secs 3 < duration_since t start then bo_reset ops t b else b) = (Some d, b2)"
          "belongs p b2" "delays_ok p [(start, t, d)]"
        by (rule retry_delay [OF less.prems(1) assms(2)])
      have "d * 1000 \<le> delay_bound p" using n(3) by (simp add: delays_ok_def)
      then have "(t + d) * 1000 \<le> s * 1000 + delay_bound p" "s - (t + d) < s - now"
        using False failed(2) by simp_all
      from less.hyps [OF this(2) n(2) this(1), of "Suc k" "t + d"]
      obtain n' retries t' where "service_task ops (Some s) (map at [Suc k..<Suc k + n']) (t + d) (t + d) b2 =
            Inr (retries, Task_Ended t')" "t' * 1000 \<le> (s + h) * 1000 + delay_bound p" by blast
      then have "service_task ops (Some s) (map at [k..<k + Suc n']) start now b = Inr ((start, t, d) # retries, Task_Ended t')"
        unfolding first using failed(1) n(1) False by simp
      with \<open>t' * 1000 \<le> _\<close> show ?thesis by blast
    qed
  qed
qed

end

section \<open>Properties\<close>

lemma run_policy_bound:
  assumes "backoff_lib ops belongs"
  shows "delay_bound (run_control_chan_backoff (bo_default ops) r) = 1200 * max (millis 500) (secs (unat r))"
  using backoff_lib.default_initial [OF assms] by (simp add: delay_bound_def run_control_chan_backoff_def)

lemma run_policy_unlimited: "po_max_elapsed (run_control_chan_backoff dflt r) = None"
  by (simp add: run_control_chan_backoff_def)

lemma run_policy_delays:
  assumes "backoff_lib ops belongs" and "delays_ok (run_control_chan_backoff (bo_default ops) r) retries"
    and "(u, t, d) \<in> set retries"
  shows "d * 10 \<le> 12 * max (millis 500) (secs (unat r)) \<and> (secs 3 < duration_since t u \<longrightarrow> d \<le> millis 600)"
proof -
  let ?p = "run_control_chan_backoff (bo_default ops) r"
  have d: "d * 1000 \<le> delay_bound ?p"
    "secs 3 < duration_since t u \<Longrightarrow> d * 1000 \<le> (1000 + po_randomization ?p) * po_initial ?p"
    using assms(2,3) by (auto simp: delays_ok_def list_all_iff)
  have "(1000 + po_randomization ?p) * po_initial ?p = 1200 * millis 500"
    using backoff_lib.default_initial [OF assms(1)] by (simp add: run_control_chan_backoff_def)
  with d run_policy_bound [OF assms(1), of r] show ?thesis by auto
qed

text \<open>
  With the policy of the code a service whose runs all fail is retried after every failure and its
  task never panics: no delay is longer than 1.2 times the retry interval (or the initial half second),
  and after a run of more than three seconds none is longer than 0.6 seconds.
\<close>

theorem failing_service_is_retried:
  fixes as :: "attempt list"
  assumes "backoff_lib ops belongs" and "cs_retry_interval cs = Some r"
    and "\<And>a t. a \<in> set as \<Longrightarrow> \<exists>e u. control_run None t a = Some (Inl e, u)"
  shows "\<exists>retries t. start_task ops None as now cs = Inr (retries, Task_Waiting t) \<and> length retries = length as \<and>
    (\<forall>(u, t, d) \<in> set retries. d * 10 \<le> 12 * max (millis 500) (secs (unat r)) \<and>
      (secs 3 < duration_since t u \<longrightarrow> d \<le> millis 600))"
proof -
  let ?p = "run_control_chan_backoff (bo_default ops) r"
  obtain retries t where "service_task ops None as now now (bo_make ops ?p now) = Inr (retries, Task_Waiting t)"
      "length retries = length as" "delays_ok ?p retries"
    using backoff_lib.service_task_persists [OF assms(1) backoff_lib.make_belongs [OF assms(1)] run_policy_unlimited assms(3)]
    by blast
  with assms(2) run_policy_delays [OF assms(1)] show ?thesis by (fastforce simp: start_task_def)
qed

definition refused :: attempt where
  "refused = \<lparr>at_handshake = Hs_Fails (Io ''connection refused'') 5, at_loop = Loop_Goes_On, at_signal_first = True, at_random = 7\<rparr>"

definition long_run :: attempt where
  "long_run = \<lparr>at_handshake = Hs_Done 20, at_loop = Loop_Ends (Inl (Msg ''Heartbeat timed out'')) (secs 40),
     at_signal_first = False, at_random = 3\<rparr>"

definition quick_attempt :: attempt where
  "quick_attempt = \<lparr>at_handshake = Hs_Done 20, at_loop = Loop_Goes_On, at_signal_first = False, at_random = 0\<rparr>"

definition retried_service :: client_service where
  "retried_service =
     \<lparr>cs_type = Service_Tcp, cs_name = ''web'', cs_local_addr = ''127.0.0.1:80'', cs_prefer_ipv6 = False, cs_token = None,
      cs_nodelay = None, cs_retry_interval = Some 1\<rparr>"

lemma retried_service_interval: "cs_retry_interval retried_service = Some 1"
  by (simp add: retried_service_def)

theorem failing_service_is_retried_witness:
  "\<exists>retries t. start_task expo_ops None [refused, long_run, refused] 0 retried_service = Inr (retries, Task_Waiting t) \<and>
     length retries = length [refused, long_run, refused] \<and> (\<forall>(u, t, d) \<in> set retries. d * 10 \<le> 12 * max (millis 500) (secs (unat (1 :: u64))) \<and>
      (secs 3 < duration_since t u \<longrightarrow> d \<le> millis 600))"
proof -
  have "\<exists>e u. control_run None t a = Some (Inl e, u)" if "a \<in> set [refused, long_run, refused]" for a t
    using that by (auto simp: control_run_def refused_def long_run_def)
  from failing_service_is_retried [where as = "[refused, long_run, refused]" and now = 0,
      OF expo_lib.backoff_lib_axioms retried_service_interval this]
  show ?thesis .
qed

text \<open>
  C15. After the shutdown signal the task of a service ends: when every handshake returns within a time,
  it ends no later than one such time and one delay after the signal. A handshake that never returns (it
  has no timeout), or a health report that cannot be written, keeps the task, and the signal is never seen.
\<close>

theorem stopped_service_ends:
  assumes "backoff_lib ops belongs" and "cs_retry_interval cs = Some r" and "now \<le> s"
    and "\<And>i. returns_within h (at i)"
  shows "(\<exists>n retries t. start_task ops (Some s) (map at [0..<n]) now cs = Inr (retries, Task_Ended t) \<and>
      t * 10 \<le> (s + h) * 10 + 12 * max (millis 500) (secs (unat r))) \<and>
    start_task ops (Some s) ((at 0)\<lparr>at_handshake := Hs_Stuck\<rparr> # as) now cs = Inr ([], Task_Stuck now) \<and>
    (now + c + d \<le> s \<longrightarrow>
      start_task ops (Some s) ((at 0)\<lparr>at_handshake := Hs_Done c, at_loop := Loop_Blocks d\<rparr> # as) now cs =
        Inr ([], Task_Stuck now))"
proof (intro conjI impI)
  let ?p = "run_control_chan_backoff (bo_default ops) r"
  have "now * 1000 \<le> s * 1000 + delay_bound ?p" using assms(3) by (simp add: trans_le_add1)
  from backoff_lib.service_task_ends [where at = at and h = h and s = s and k = 0 and start = now,
      OF assms(1) backoff_lib.make_belongs [where t = now, OF assms(1)] run_policy_unlimited assms(4) this]
  obtain n retries t where "service_task ops (Some s) (map at [0..<n]) now now (bo_make ops ?p now) = Inr (retries, Task_Ended t)"
      "t * 1000 \<le> (s + h) * 1000 + delay_bound ?p"
    by auto
  with assms(2) run_policy_bound [OF assms(1), of r]
  show "\<exists>n retries t. start_task ops (Some s) (map at [0..<n]) now cs = Inr (retries, Task_Ended t) \<and>
      t * 10 \<le> (s + h) * 10 + 12 * max (millis 500) (secs (unat r))"
    by (auto simp: start_task_def intro!: exI)
  show "start_task ops (Some s) ((at 0)\<lparr>at_handshake := Hs_Stuck\<rparr> # as) now cs = Inr ([], Task_Stuck now)"
    using assms(2) by (simp add: start_task_def control_run_def)
  assume "now + c + d \<le> s"
  then show "start_task ops (Some s) ((at 0)\<lparr>at_handshake := Hs_Done c, at_loop := Loop_Blocks d\<rparr> # as) now cs =
      Inr ([], Task_Stuck now)"
    using assms(2) by (simp add: start_task_def control_run_def)
qed

theorem stopped_service_ends_witness:
  "(\<exists>n retries t. start_task expo_ops (Some (secs 2)) (map (\<lambda>i. if i = 0 then refused else quick_attempt) [0..<n]) 0
      retried_service = Inr (retries, Task_Ended t) \<and>
      t * 10 \<le> (secs 2 + 20) * 10 + 12 * max (millis 500) (secs (unat (1 :: u64)))) \<and>
    start_task expo_ops (Some (secs 2)) [refused\<lparr>at_handshake := Hs_Done 7, at_loop := Loop_Blocks (secs 1)\<rparr>] 0 retried_service =
      Inr ([], Task_Stuck 0)"
proof -
  let ?at = "\<lambda>i :: nat. if i = 0 then refused else quick_attempt"
  have w: "returns_within 20 (?at i)" for i
    by (simp add: returns_within_def refused_def quick_attempt_def)
  have n: "0 \<le> secs 2" "0 + 7 + secs 1 \<le> secs 2" by simp_all
  note t = stopped_service_ends [where at = ?at, OF expo_lib.backoff_lib_axioms retried_service_interval n(1) w,
      where c = 7 and d = "secs 1" and as = "[]"]
  show ?thesis using t n(2) by (simp only: if_True simp_thms)
qed

end
