(* ===== verification/Accept_Loop.thy ===== *)
theory Accept_Loop
  imports Retry
begin

text \<open>
  The accept loop of \<open>Server::run\<close> in \<open>src/rathole/src/server.rs\<close> on the clock. The body of the branch
  that accepts a connection does the handshake of the transport, and the loop waits for it: nothing else
  is accepted, reloaded or shut down meanwhile.
\<close>

section \<open>The loop\<close>

definition HANDSHAKE_TIMEOUT :: nat where "HANDSHAKE_TIMEOUT = 5"

text \<open>
  What \<open>accept\<close> gives for a connection in the queue of the listener, when it is there, and the course of
  the transport's handshake with it.
\<close>

datatype accept_result = Io_Error | Other_Error | Accepted handshake_course

record arrival =
  ar_time :: instant
  ar_peer :: nat
  ar_result :: accept_result
  ar_random :: nat

record 'b accept_clock =
  ac_now :: instant
  ac_arrivals :: "arrival list"
  ac_updates :: "(instant \<times> config_change) list"
  ac_shutdown :: "instant option"
  ac_backoff :: 'b
  ac_spawned :: "(nat \<times> instant) list"
  ac_reloaded :: "(instant \<times> config_change) list"
  ac_stopped :: bool

text \<open>\<open>time::timeout\<close> around the handshake: how long it takes, and whether there is a stream.\<close>

definition timed_handshake :: "handshake_course \<Rightarrow> nat \<times> bool" where
  "timed_handshake h =
     (case h of
        Hs_Done n \<Rightarrow> if n \<le> secs HANDSHAKE_TIMEOUT then (n, True) else (secs HANDSHAKE_TIMEOUT, False)
      | Hs_Fails e n \<Rightarrow> (min n (secs HANDSHAKE_TIMEOUT), False)
      | Hs_Stuck \<Rightarrow> (secs HANDSHAKE_TIMEOUT, False))"

text \<open>
  The body of the branch, begun at \<open>t\<close>: the backoff after it, how long it takes, and whether a task for
  the connection was spawned; without a value, the loop breaks.
\<close>

definition accept_body :: "'b backoff_ops \<Rightarrow> instant \<Rightarrow> arrival \<Rightarrow> 'b \<Rightarrow> ('b \<times> nat \<times> bool) option" where
  "accept_body ops t a b =
     (case ar_result a of
        Io_Error \<Rightarrow>
          (case bo_next ops (ar_random a) t b of
             (Some d, b') \<Rightarrow> Some (b', d, False)
           | (None, b') \<Rightarrow> None)
      | Other_Error \<Rightarrow> Some (b, 0, False)
      | Accepted h \<Rightarrow> Some (bo_reset ops t b, timed_handshake h))"

text \<open>
  A branch can be taken at a time if no other is ready before. The shutdown signal, the updates and the
  connections are looked at only between the bodies.
\<close>

definition ready_from :: "'b accept_clock \<Rightarrow> instant \<Rightarrow> instant" where
  "ready_from s t = max (ac_now s) t"

definition none_before :: "'b accept_clock \<Rightarrow> instant \<Rightarrow> bool" where
  "none_before s t =
     ((case ac_arrivals s of [] \<Rightarrow> True | a # as \<Rightarrow> t \<le> ready_from s (ar_time a)) \<and>
      (case ac_updates s of [] \<Rightarrow> True | u # us \<Rightarrow> t \<le> ready_from s (fst u)) \<and>
      (case ac_shutdown s of None \<Rightarrow> True | Some z \<Rightarrow> t \<le> ready_from s z))"

inductive accept_round :: "'b backoff_ops \<Rightarrow> 'b accept_clock \<Rightarrow> 'b accept_clock \<Rightarrow> bool" for ops where
  accepted: "\<not> ac_stopped s \<Longrightarrow> ac_arrivals s = a # as \<Longrightarrow> t = ready_from s (ar_time a) \<Longrightarrow> none_before s t \<Longrightarrow>
    accept_body ops t a (ac_backoff s) = Some (b, d, spawned) \<Longrightarrow>
    accept_round ops s
      (s\<lparr>ac_now := t + d, ac_arrivals := as, ac_backoff := b,
         ac_spawned := (if spawned then ac_spawned s @ [(ar_peer a, t + d)] else ac_spawned s)\<rparr>)"
| too_many: "\<not> ac_stopped s \<Longrightarrow> ac_arrivals s = a # as \<Longrightarrow> t = ready_from s (ar_time a) \<Longrightarrow> none_before s t \<Longrightarrow>
    accept_body ops t a (ac_backoff s) = None \<Longrightarrow>
    accept_round ops s (s\<lparr>ac_now := t, ac_arrivals := as, ac_stopped := True\<rparr>)"
| shutdown: "\<not> ac_stopped s \<Longrightarrow> ac_shutdown s = Some z \<Longrightarrow> t = ready_from s z \<Longrightarrow> none_before s t \<Longrightarrow>
    accept_round ops s (s\<lparr>ac_now := t, ac_stopped := True\<rparr>)"
| update: "\<not> ac_stopped s \<Longrightarrow> ac_updates s = u # us \<Longrightarrow> t = ready_from s (fst u) \<Longrightarrow> none_before s t \<Longrightarrow>
    accept_round ops s (s\<lparr>ac_now := t, ac_updates := us, ac_reloaded := ac_reloaded s @ [(t, snd u)]\<rparr>)"

text \<open>The loop as it begins: the policy of the code, nothing done yet.\<close>

definition accept_start ::
  "'b backoff_ops \<Rightarrow> instant \<Rightarrow> arrival list \<Rightarrow> (instant \<times> config_change) list \<Rightarrow> instant option \<Rightarrow> 'b accept_clock" where
  "accept_start ops now as us z =
     \<lparr>ac_now = now, ac_arrivals = as, ac_updates = us, ac_shutdown = z,
      ac_backoff = bo_make ops (accept_backoff (bo_default ops)) now, ac_spawned = [], ac_reloaded = [], ac_stopped = False\<rparr>"

section \<open>Bounds\<close>

lemma timed_handshake_bound: "fst (timed_handshake h) \<le> secs HANDSHAKE_TIMEOUT"
  by (simp add: timed_handshake_def split: handshake_course.split)

text \<open>
  The invariant: time is bounded by the connections taken so far, and the loop stops only for the
  shutdown signal.
\<close>

definition logs_by :: "instant \<Rightarrow> 'b accept_clock \<Rightarrow> bool" where
  "logs_by t s = ((\<forall>(p, u) \<in> set (ac_spawned s). u \<le> t) \<and> (\<forall>(u, e) \<in> set (ac_reloaded s). u \<le> t))"

definition inputs_by :: "instant \<Rightarrow> 'b accept_clock \<Rightarrow> bool" where
  "inputs_by T s =
     ((\<forall>a \<in> set (ac_arrivals s). ar_time a \<le> T) \<and> (\<forall>u \<in> set (ac_updates s). fst u \<le> T) \<and>
      (\<forall>y. ac_shutdown s = Some y \<longrightarrow> y \<le> T))"

definition time_bound :: "instant \<Rightarrow> nat \<Rightarrow> instant \<Rightarrow> nat \<Rightarrow> bool" where
  "time_bound T k now left = (left \<le> k \<and> now + secs HANDSHAKE_TIMEOUT * left \<le> T + secs HANDSHAKE_TIMEOUT * k)"

lemma logs_by_mono: "logs_by t s \<Longrightarrow> t \<le> t' \<Longrightarrow> logs_by t' s"
  by (fastforce simp: logs_by_def)

lemma time_bound_ready: "time_bound T k now left \<Longrightarrow> t \<le> T \<Longrightarrow> time_bound T k (max now t) left"
proof -
  assume b: "time_bound T k now left" and t: "t \<le> T"
  then have "secs HANDSHAKE_TIMEOUT * left \<le> secs HANDSHAKE_TIMEOUT * k"
    unfolding time_bound_def by (intro mult_le_mono2) simp
  with t have "t + secs HANDSHAKE_TIMEOUT * left \<le> T + secs HANDSHAKE_TIMEOUT * k" by (rule add_mono)
  with b show ?thesis by (simp add: time_bound_def max_def)
qed

lemma time_bound_body:
  "time_bound T k t (Suc left) \<Longrightarrow> d \<le> secs HANDSHAKE_TIMEOUT \<Longrightarrow> time_bound T k (t + d) left"
  by (simp add: time_bound_def)

context backoff_lib
begin

lemma accept_body_bound:
  assumes "belongs (accept_backoff (bo_default ops)) b"
  obtains b' d sp where "accept_body ops t a b = Some (b', d, sp)" "d \<le> secs HANDSHAKE_TIMEOUT"
    "belongs (accept_backoff (bo_default ops)) b'"
proof (cases "ar_result a")
  case Io_Error
  have u: "po_max_elapsed (accept_backoff (bo_default ops)) = None" by (simp add: accept_backoff_def)
  obtain d b' where n: "bo_next ops (ar_random a) t b = (Some d, b')"
      "d * 1000 \<le> delay_bound (accept_backoff (bo_default ops))" "belongs (accept_backoff (bo_default ops)) b'"
    by (rule next_delay [OF assms u])
  have "delay_bound (accept_backoff (bo_default ops)) = 1500 * millis 500"
    by (simp add: delay_bound_def accept_backoff_def default_initial default_randomization)
  with n(2) have "d \<le> secs HANDSHAKE_TIMEOUT" by (simp add: HANDSHAKE_TIMEOUT_def)
  with n Io_Error that [of b' d False] show thesis by (simp add: accept_body_def)
next
  case Other_Error
  with assms that [of b 0 False] show thesis by (simp add: accept_body_def)
next
  case (Accepted h)
  obtain d sp where h: "timed_handshake h = (d, sp)" by (cases "timed_handshake h")
  have "d \<le> secs HANDSHAKE_TIMEOUT" using timed_handshake_bound [of h] h by simp
  with h Accepted that reset_belongs [OF assms, of t] show thesis by (simp add: accept_body_def)
qed

definition accept_inv :: "instant \<Rightarrow> nat \<Rightarrow> instant option \<Rightarrow> 'b accept_clock \<Rightarrow> bool" where
  "accept_inv T k z s =
     (belongs (accept_backoff (bo_default ops)) (ac_backoff s) \<and>
      time_bound T k (ac_now s) (length (ac_arrivals s)) \<and> inputs_by T s \<and> logs_by (ac_now s) s \<and>
      ac_shutdown s = z \<and> (ac_stopped s \<longrightarrow> (\<exists>y. z = Some y \<and> y \<le> ac_now s)))"

lemma accept_inv_round:
  assumes "accept_inv T k z s" "accept_round ops s s'"
  shows "accept_inv T k z s'"
proof -
  have b: "belongs (accept_backoff (bo_default ops)) (ac_backoff s)"
    and tb: "time_bound T k (ac_now s) (length (ac_arrivals s))"
    and inb: "inputs_by T s" and lg: "logs_by (ac_now s) s" and z: "ac_shutdown s = z"
    using assms(1) by (simp_all add: accept_inv_def)
  have tr: "time_bound T k (ready_from s t) (length (ac_arrivals s))" if "t \<le> T" for t
    unfolding ready_from_def by (rule time_bound_ready [OF tb that])
  have lr: "logs_by (ready_from s t + d) s" for t d
    by (rule logs_by_mono [OF lg]) (simp add: ready_from_def)
  from assms(2) show ?thesis
  proof cases
    case (accepted a as t b' d spawned)
    have d: "d \<le> secs HANDSHAKE_TIMEOUT" "belongs (accept_backoff (bo_default ops)) b'"
      by (rule accept_body_bound [OF b, of t a], use accepted(6) in simp)+
    have "ar_time a \<le> T" using inb accepted(3) by (simp add: inputs_by_def)
    from tr [OF this] have "time_bound T k (t + d) (length as)"
      using accepted(3,4) d(1) by (simp add: time_bound_body)
    moreover have "inputs_by T s'" using inb accepted(1,3) by (simp add: inputs_by_def)
    moreover have "logs_by (t + d) s'" using lr [of "ar_time a" d] accepted(1,4) by (simp add: logs_by_def)
    ultimately show ?thesis using d(2) accepted(1,2) z by (simp add: accept_inv_def)
  next
    case (too_many a as t)
    show ?thesis by (rule accept_body_bound [OF b, of t a]) (use too_many(6) in simp)
  next
    case (shutdown y t)
    have "y \<le> T" "y \<le> t" using inb shutdown(3,4) by (simp_all add: inputs_by_def ready_from_def)
    moreover have "inputs_by T s'" "logs_by t s'"
      using inb lr [of y 0] shutdown(1,4) by (simp_all add: inputs_by_def logs_by_def)
    moreover have "\<exists>y'. z = Some y' \<and> y' \<le> t" using shutdown(3) z \<open>y \<le> t\<close> by simp
    ultimately show ?thesis using tr [of y] b z shutdown(1,4) by (simp add: accept_inv_def)
  next
    case (update u us t)
    have "fst u \<le> T" using inb update(3) by (simp add: inputs_by_def)
    moreover have "inputs_by T s'" "logs_by t s'"
      using inb lr [of "fst u" 0] update(1,3,4) by (simp_all add: inputs_by_def logs_by_def)
    ultimately show ?thesis using tr [of "fst u"] b z update(1,2,4) by (simp add: accept_inv_def)
  qed
qed

lemma accept_inv_start:
  assumes "now \<le> T" "\<forall>a \<in> set as. ar_time a \<le> T" "\<forall>u \<in> set us. fst u \<le> T" "\<forall>y. z = Some y \<longrightarrow> y \<le> T"
  shows "accept_inv T (length as) z (accept_start ops now as us z)"
  using assms by (simp add: accept_inv_def accept_start_def make_belongs time_bound_def inputs_by_def logs_by_def)

lemma accept_inv_reach:
  assumes "accept_inv T k z s" "(accept_round ops ^^ n) s s'"
  shows "accept_inv T k z s'"
  using assms(2) by (induction n arbitrary: s') (auto intro: accept_inv_round assms(1))

end

section \<open>Progress\<close>

text \<open>Every round takes one thing off what is left, and a loop that has something left goes on.\<close>

definition rounds_left :: "'b accept_clock \<Rightarrow> nat" where
  "rounds_left s = length (ac_arrivals s) + length (ac_updates s) + (if ac_stopped s then 0 else 1)"

lemma stopped_no_round: "ac_stopped s \<Longrightarrow> \<not> accept_round ops s s'"
  by (auto elim: accept_round.cases)

lemma rounds_bound: "(accept_round ops ^^ n) s s' \<Longrightarrow> n + rounds_left s' \<le> rounds_left s"
proof (induction n arbitrary: s')
  case (Suc n)
  then obtain v where v: "(accept_round ops ^^ n) s v" "accept_round ops v s'" by auto
  have "rounds_left s' < rounds_left v"
    using v(2) by (rule accept_round.cases) (auto simp: rounds_left_def)
  with Suc.IH [OF v(1)] show ?case by simp
qed simp

lemma first_ready:
  assumes "ac_arrivals s \<noteq> [] \<or> ac_updates s \<noteq> [] \<or> ac_shutdown s \<noteq> None"
  obtains (conn) a as where "ac_arrivals s = a # as" "none_before s (ready_from s (ar_time a))"
  | (upd) u us where "ac_updates s = u # us" "none_before s (ready_from s (fst u))"
  | (down) y where "ac_shutdown s = Some y" "none_before s (ready_from s y)"
proof -
  define A where "A = (case ac_arrivals s of [] \<Rightarrow> {} | a # as \<Rightarrow> {ready_from s (ar_time a)})"
  define U where "U = (case ac_updates s of [] \<Rightarrow> {} | u # us \<Rightarrow> {ready_from s (fst u)})"
  define D where "D = (case ac_shutdown s of None \<Rightarrow> {} | Some y \<Rightarrow> {ready_from s y})"
  define m where "m = Min (A \<union> U \<union> D)"
  have fin: "finite (A \<union> U \<union> D)" by (simp add: A_def U_def D_def split: list.split option.split)
  have "A \<union> U \<union> D \<noteq> {}" using assms by (auto simp: A_def U_def D_def neq_Nil_conv)
  then have "m \<in> A \<union> U \<union> D" unfolding m_def using fin by (rule Min_in [rotated])
  have le: "m \<le> x" if "x \<in> A \<union> U \<union> D" for x unfolding m_def by (rule Min_le [OF fin that])
  have n: "none_before s m" unfolding none_before_def
    using le by (auto simp: A_def U_def D_def split: list.split option.split)
  from \<open>m \<in> _\<close> consider "m \<in> A" | "m \<in> U" | "m \<in> D" by auto
  then show thesis
  proof cases
    case 1
    then obtain a as where "ac_arrivals s = a # as" "m = ready_from s (ar_time a)"
      by (auto simp: A_def split: list.splits)
    with n conn show thesis by blast
  next
    case 2
    then obtain u us where "ac_updates s = u # us" "m = ready_from s (fst u)"
      by (auto simp: U_def split: list.splits)
    with n upd show thesis by blast
  next
    case 3
    then obtain y where "ac_shutdown s = Some y" "m = ready_from s y"
      by (auto simp: D_def split: option.splits)
    with n down show thesis by blast
  qed
qed

lemma round_exists:
  assumes "\<not> ac_stopped s" "ac_arrivals s \<noteq> [] \<or> ac_updates s \<noteq> [] \<or> ac_shutdown s \<noteq> None"
  shows "\<exists>s'. accept_round ops s s'"
proof (rule first_ready [OF assms(2)])
  fix a as
  assume a: "ac_arrivals s = a # as" "none_before s (ready_from s (ar_time a))"
  show ?thesis
  proof (cases "accept_body ops (ready_from s (ar_time a)) a (ac_backoff s)")
    case None
    from accept_round.too_many [OF assms(1) a(1) refl a(2) None] show ?thesis by blast
  next
    case (Some x)
    then obtain b d sp where "accept_body ops (ready_from s (ar_time a)) a (ac_backoff s) = Some (b, d, sp)" by (cases x) auto
    from accept_round.accepted [OF assms(1) a(1) refl a(2) this] show ?thesis by blast
  qed
next
  fix u us
  assume "ac_updates s = u # us" "none_before s (ready_from s (fst u))"
  from accept_round.update [OF assms(1) this(1) refl this(2)] show ?thesis by blast
next
  fix y
  assume "ac_shutdown s = Some y" "none_before s (ready_from s y)"
  from accept_round.shutdown [OF assms(1) this(1) refl this(2)] show ?thesis by blast
qed


section \<open>Silent peers\<close>

text \<open>A peer that connects and never starts the handshake of the transport.\<close>

definition silent_peer :: "nat \<Rightarrow> arrival" where
  "silent_peer p = \<lparr>ar_time = 0, ar_peer = p, ar_result = Accepted Hs_Stuck, ar_random = 0\<rparr>"

definition visitor_of :: "nat \<Rightarrow> nat \<Rightarrow> arrival" where
  "visitor_of p n = \<lparr>ar_time = 0, ar_peer = p, ar_result = Accepted (Hs_Done n), ar_random = 0\<rparr>"

definition queue :: "nat \<Rightarrow> nat \<Rightarrow> nat \<Rightarrow> arrival list" where
  "queue k p n = replicate k (silent_peer 0) @ [visitor_of p n]"

lemma queue_Suc [simp]: "queue (Suc k) p n = silent_peer 0 # queue k p n"
  by (simp add: queue_def)

lemma queue_0 [simp]: "queue 0 p n = [visitor_of p n]"
  by (simp add: queue_def)

lemma silent_body: "accept_body ops t (silent_peer q) b = Some (bo_reset ops t b, secs 5, False)"
  by (simp add: silent_peer_def accept_body_def timed_handshake_def HANDSHAKE_TIMEOUT_def)

lemma visitor_body: "n \<le> secs 5 \<Longrightarrow> accept_body ops t (visitor_of p n) b = Some (bo_reset ops t b, n, True)"
  by (simp add: visitor_of_def accept_body_def timed_handshake_def HANDSHAKE_TIMEOUT_def)

lemma queue_times [simp]: "ar_time (silent_peer q) = 0" "ar_time (visitor_of p n) = 0" "ar_peer (visitor_of p n) = p"
  by (simp_all add: silent_peer_def visitor_of_def)

text \<open>How the queue is worked off when nothing else happens.\<close>

definition queue_inv :: "nat \<Rightarrow> nat \<Rightarrow> nat \<Rightarrow> 'b accept_clock \<Rightarrow> bool" where
  "queue_inv k p n s =
     (ac_updates s = [] \<and> ac_shutdown s = None \<and>
      ((\<exists>i \<le> k. ac_arrivals s = queue i p n \<and> ac_spawned s = [] \<and> ac_now s = secs (5 * (k - i))) \<or>
       (ac_arrivals s = [] \<and> ac_spawned s = [(p, secs (5 * k) + n)])))"

lemma queue_inv_round:
  assumes "queue_inv k p n s" "accept_round ops s s'" "n \<le> secs 5"
  shows "queue_inv k p n s'"
  using assms(2)
proof cases
  case (accepted a as t b d spawned)
  then obtain i where i: "i \<le> k" "ac_arrivals s = queue i p n" "ac_spawned s = []" "ac_now s = secs (5 * (k - i))"
      "ac_updates s = []" "ac_shutdown s = None"
    using assms(1) by (auto simp: queue_inv_def)
  show ?thesis
  proof (cases i)
    case 0
    with i accepted assms(3) show ?thesis by (auto simp: queue_inv_def visitor_body ready_from_def)
  next
    case (Suc j)
    then have "secs (5 * (k - i)) + secs 5 = secs (5 * (k - j))" using i(1) by (simp add: diff_mult_distrib2 Suc_diff_Suc)
    with Suc i accepted show ?thesis
      by (auto simp: queue_inv_def silent_body ready_from_def intro!: exI [of _ j])
  qed
next
  case (too_many a as t)
  then obtain i where "ac_arrivals s = queue i p n" using assms(1) by (auto simp: queue_inv_def)
  with too_many assms(3) show ?thesis by (cases i) (auto simp: silent_body visitor_body)
next
  case (shutdown y t)
  then show ?thesis using assms(1) by (simp add: queue_inv_def)
next
  case (update u us t)
  then show ?thesis using assms(1) by (simp add: queue_inv_def)
qed

lemma queue_inv_reach:
  assumes "queue_inv k p n s" "n \<le> secs 5" "(accept_round ops ^^ m) s s'"
  shows "queue_inv k p n s'"
  using assms(3)
proof (induction m arbitrary: s')
  case (Suc m)
  then obtain v where v: "(accept_round ops ^^ m) s v" "accept_round ops v s'" by auto
  show ?case by (rule queue_inv_round [OF Suc.IH [OF v(1)] v(2) assms(2)])
qed (use assms(1) in simp)

text \<open>The silent peers taken one after the other, a pending shutdown signal or not.\<close>

lemma silent_rounds:
  assumes "\<not> ac_stopped s" "ac_arrivals s = queue k p n" "ac_updates s = []" "ac_shutdown s \<in> {None, Some 0}"
  shows "\<exists>b. (accept_round ops ^^ k) s
    (s\<lparr>ac_now := ac_now s + secs (5 * k), ac_arrivals := queue 0 p n, ac_backoff := b\<rparr>)"
  using assms
proof (induction k arbitrary: s)
  case 0
  then show ?case by (intro exI [of _ "ac_backoff s"]) simp
next
  case (Suc k)
  let ?s = "s\<lparr>ac_now := ac_now s + secs 5, ac_arrivals := queue k p n, ac_backoff := bo_reset ops (ac_now s) (ac_backoff s)\<rparr>"
  have r: "ready_from s 0 = ac_now s" by (simp add: ready_from_def)
  have "none_before s (ac_now s)" using Suc.prems(2-4) by (auto simp: none_before_def r)
  then have "accept_round ops s ?s"
    using accept_round.accepted [of s "silent_peer 0" "queue k p n" "ac_now s"] Suc.prems r by (simp add: silent_body)
  moreover obtain b where "(accept_round ops ^^ k) ?s
      (?s\<lparr>ac_now := ac_now ?s + secs (5 * k), ac_arrivals := queue 0 p n, ac_backoff := b\<rparr>)"
    using Suc.IH [of ?s] Suc.prems by auto
  ultimately show ?case
    by (intro exI [of _ b] relpowp_Suc_I2 [of _ s ?s]) (simp_all add: algebra_simps)
qed

text \<open>
  Peers that connect to the server and stay silent hold up everybody else: a client behind \<open>k\<close> of
  them is served exactly five seconds later for each, and a shutdown signal that is there from the
  beginning may be noticed as late.
\<close>

theorem silent_peers_hold_the_server:
  assumes "n \<le> secs 5"
  shows "(\<forall>m s. (accept_round ops ^^ m) (accept_start ops 0 (queue k p n) [] None) s \<longrightarrow> ac_arrivals s = [] \<longrightarrow>
      ac_spawned s = [(p, secs (5 * k) + n)]) \<and>
    (\<exists>s. (accept_round ops ^^ (k + 1)) (accept_start ops 0 (queue k p n) [] None) s \<and> ac_arrivals s = []) \<and>
    (\<exists>s. (accept_round ops ^^ (k + 1)) (accept_start ops 0 (queue k p n) [] (Some 0)) s \<and>
      ac_stopped s \<and> ac_now s = secs (5 * k))"
proof (intro conjI allI impI)
  fix m s
  assume r: "(accept_round ops ^^ m) (accept_start ops 0 (queue k p n) [] None) s" and e: "ac_arrivals s = []"
  have "queue_inv k p n (accept_start ops 0 (queue k p n) [] None)"
    by (auto simp: queue_inv_def accept_start_def)
  from queue_inv_reach [OF this assms r] e show "ac_spawned s = [(p, secs (5 * k) + n)]"
    by (auto simp: queue_inv_def queue_def)
next
  let ?s0 = "accept_start ops 0 (queue k p n) [] None"
  obtain b where b: "(accept_round ops ^^ k) ?s0 (?s0\<lparr>ac_now := ac_now ?s0 + secs (5 * k), ac_arrivals := queue 0 p n, ac_backoff := b\<rparr>)"
    using silent_rounds [of ?s0 k p n ops] by (auto simp: accept_start_def)
  let ?s1 = "?s0\<lparr>ac_now := ac_now ?s0 + secs (5 * k), ac_arrivals := queue 0 p n, ac_backoff := b\<rparr>"
  note b
  moreover have "\<exists>s. accept_round ops ?s1 s \<and> ac_arrivals s = []"
    by (rule exI, rule conjI, rule accept_round.accepted [OF _ _ _ _ visitor_body [OF assms], where as = "[]" and t = "ac_now ?s1"])
      (simp_all add: accept_start_def ready_from_def none_before_def)
  ultimately show "\<exists>s. (accept_round ops ^^ (k + 1)) ?s0 s \<and> ac_arrivals s = []" by auto
next
  let ?s0 = "accept_start ops 0 (queue k p n) [] (Some 0)"
  obtain b where b: "(accept_round ops ^^ k) ?s0 (?s0\<lparr>ac_now := ac_now ?s0 + secs (5 * k), ac_arrivals := queue 0 p n, ac_backoff := b\<rparr>)"
    using silent_rounds [of ?s0 k p n ops] by (auto simp: accept_start_def)
  let ?s1 = "?s0\<lparr>ac_now := ac_now ?s0 + secs (5 * k), ac_arrivals := queue 0 p n, ac_backoff := b\<rparr>"
  note b
  moreover have "accept_round ops ?s1 (?s1\<lparr>ac_now := ac_now ?s1, ac_stopped := True\<rparr>)"
    by (rule accept_round.shutdown [of _ 0]) (simp_all add: accept_start_def ready_from_def none_before_def)
  ultimately show "\<exists>s. (accept_round ops ^^ (k + 1)) ?s0 s \<and> ac_stopped s \<and> ac_now s = secs (5 * k)"
    by (intro exI [of _ "?s1\<lparr>ac_now := ac_now ?s1, ac_stopped := True\<rparr>"]) (auto simp: accept_start_def)
qed

theorem silent_peers_hold_the_server_witness:
  "\<exists>s. (accept_round expo_ops ^^ 13) (accept_start expo_ops 0 (queue 12 1 (millis 30)) [] None) s \<and>
    ac_spawned s = [(1, secs 60 + millis 30)]"
proof -
  have "millis 30 \<le> secs 5" by simp
  note t = silent_peers_hold_the_server [OF this, of expo_ops 12 1]
  then obtain s where s: "(accept_round expo_ops ^^ (12 + 1)) (accept_start expo_ops 0 (queue 12 1 (millis 30)) [] None) s"
      "ac_arrivals s = []" by blast
  with t have "ac_spawned s = [(1, secs (5 * 12) + millis 30)]" by blast
  with s(1) show ?thesis by (intro exI [of _ s]) simp
qed


end
