(* ===== verification/Control_Link.thy ===== *)
theory Control_Link
  imports Accept_Loop
begin

text \<open>
  The two ends of a control channel on a connection with bounded buffers: \<open>ControlChannel::run\<close> of
  \<open>src/rathole/src/client.rs\<close>, which writes a health report every ten seconds in the body of a branch, and
  that of \<open>src/rathole/src/server.rs\<close>, which writes commands and never reads. Bytes that the peer does not
  read stay in the buffers of the connection; a write waits while they are full.
\<close>

section \<open>The system\<close>

text \<open>A report is written in parts; what is written so far, and the rest.\<close>

datatype link_client = Cl_Loop | Cl_Reporting bytes bytes | Cl_Ended
datatype link_server = Sv_Loop | Sv_Sending control_channel_cmd | Sv_Ended

text \<open>
  Commands, of the same length each, are counted as one; the signals are sent by the handles of the two
  channels, and requests for data channels come over the unbounded queue of the server.
\<close>

record link_sys =
  lk_client :: link_client
  lk_server :: link_server
  lk_up :: bytes
  lk_down :: "control_channel_cmd list"
  lk_reports :: nat
  lk_handled :: "control_channel_cmd list"
  lk_requests :: nat
  lk_stop_client :: bool
  lk_stop_server :: bool

record capacity =
  cap_up :: nat
  cap_down :: nat

datatype link_event =
    Report_Due bytes
  | Client_Writes nat
  | Client_Reads
  | Client_Times_Out
  | Client_Notices
  | Stop_Client
  | Request
  | Server_Takes
  | Heartbeat_Due
  | Server_Writes
  | Server_Notices
  | Stop_Server

text \<open>
  The client: a branch of its \<open>select!\<close> is taken only in the loop. A write to a server that is gone fails,
  which leaves the loop, and so does the end of the stream.
\<close>

definition link_client_step :: "capacity \<Rightarrow> link_event \<Rightarrow> link_sys \<Rightarrow> link_sys" where
  "link_client_step cap ev s =
     (case lk_client s of
        Cl_Ended \<Rightarrow> s
      | Cl_Reporting w r \<Rightarrow>
          (case ev of
             Client_Writes n \<Rightarrow>
               if lk_server s = Sv_Ended then s\<lparr>lk_client := Cl_Ended\<rparr>
               else let m = min n (cap_up cap - length (lk_up s));
                        s1 = s\<lparr>lk_up := lk_up s @ take m r\<rparr>
                    in if drop m r = [] then s1\<lparr>lk_client := Cl_Loop, lk_reports := lk_reports s + 1\<rparr>
                       else s1\<lparr>lk_client := Cl_Reporting (w @ take m r) (drop m r)\<rparr>
           | _ \<Rightarrow> s)
      | Cl_Loop \<Rightarrow>
          (case ev of
             Report_Due r \<Rightarrow> s\<lparr>lk_client := Cl_Reporting [] r\<rparr>
           | Client_Reads \<Rightarrow>
               (case lk_down s of
                  c # cs \<Rightarrow> s\<lparr>lk_down := cs, lk_handled := lk_handled s @ [c]\<rparr>
                | [] \<Rightarrow> if lk_server s = Sv_Ended then s\<lparr>lk_client := Cl_Ended\<rparr> else s)
           | Client_Times_Out \<Rightarrow> s\<lparr>lk_client := Cl_Ended\<rparr>
           | Client_Notices \<Rightarrow> (if lk_stop_client s then s\<lparr>lk_client := Cl_Ended\<rparr> else s)
           | _ \<Rightarrow> s))"

definition link_server_step :: "capacity \<Rightarrow> link_event \<Rightarrow> link_sys \<Rightarrow> link_sys" where
  "link_server_step cap ev s =
     (case lk_server s of
        Sv_Ended \<Rightarrow> s
      | Sv_Sending c \<Rightarrow>
          (case ev of
             Server_Writes \<Rightarrow>
               if lk_client s = Cl_Ended then s\<lparr>lk_server := Sv_Ended\<rparr>
               else if length (lk_down s) < cap_down cap then s\<lparr>lk_down := lk_down s @ [c], lk_server := Sv_Loop\<rparr>
               else s
           | _ \<Rightarrow> s)
      | Sv_Loop \<Rightarrow>
          (case ev of
             Server_Takes \<Rightarrow>
               (if 0 < lk_requests s then s\<lparr>lk_requests := lk_requests s - 1, lk_server := Sv_Sending CreateDataChannel\<rparr> else s)
           | Heartbeat_Due \<Rightarrow> s\<lparr>lk_server := Sv_Sending HeartBeat\<rparr>
           | Server_Notices \<Rightarrow> (if lk_stop_server s then s\<lparr>lk_server := Sv_Ended\<rparr> else s)
           | _ \<Rightarrow> s))"

definition link_step :: "capacity \<Rightarrow> link_event \<Rightarrow> link_sys \<Rightarrow> link_sys" where
  "link_step cap ev s =
     (case ev of
        Stop_Client \<Rightarrow> s\<lparr>lk_stop_client := True\<rparr>
      | Stop_Server \<Rightarrow> s\<lparr>lk_stop_server := True\<rparr>
      | Request \<Rightarrow> s\<lparr>lk_requests := lk_requests s + 1\<rparr>
      | Report_Due r \<Rightarrow> link_client_step cap ev s
      | Client_Writes n \<Rightarrow> link_client_step cap ev s
      | Client_Reads \<Rightarrow> link_client_step cap ev s
      | Client_Times_Out \<Rightarrow> link_client_step cap ev s
      | Client_Notices \<Rightarrow> link_client_step cap ev s
      | _ \<Rightarrow> link_server_step cap ev s)"

fun run_link :: "capacity \<Rightarrow> link_event list \<Rightarrow> link_sys \<Rightarrow> link_sys" where
  "run_link cap [] s = s"
| "run_link cap (ev # evs) s = run_link cap evs (link_step cap ev s)"

definition link_start :: link_sys where
  "link_start =
     \<lparr>lk_client = Cl_Loop, lk_server = Sv_Loop, lk_up = [], lk_down = [], lk_reports = 0, lk_handled = [],
      lk_requests = 0, lk_stop_client = False, lk_stop_server = False\<rparr>"

section \<open>What a step can change\<close>

text \<open>What the client has done so far, and which events belong to it.\<close>

definition client_side :: "link_sys \<Rightarrow> link_client \<times> bytes \<times> nat \<times> control_channel_cmd list" where
  "client_side s = (lk_client s, lk_up s, lk_reports s, lk_handled s)"

definition server_side :: "link_sys \<Rightarrow> link_server \<times> bool" where
  "server_side s = (lk_server s, lk_stop_server s)"

lemma server_step_client_side: "client_side (link_server_step cap ev s) = client_side s"
  by (simp add: client_side_def link_server_step_def split: link_server.split link_event.split)

lemma client_step_server_side: "server_side (link_client_step cap ev s) = server_side s"
  by (simp add: server_side_def link_client_step_def Let_def split: link_client.split link_event.split list.split)

lemma link_step_cases:
  obtains (client) "link_step cap ev s = link_client_step cap ev s"
  | (server) "link_step cap ev s = link_server_step cap ev s"
  | (env) "client_side (link_step cap ev s) = client_side s" "lk_server (link_step cap ev s) = lk_server s"
      "lk_down (link_step cap ev s) = lk_down s" "ev \<noteq> Stop_Server \<longrightarrow> lk_stop_server (link_step cap ev s) = lk_stop_server s"
  by (cases ev) (simp_all add: link_step_def client_side_def)

section \<open>Reports stay in the buffers\<close>

fun report_bytes :: "nat \<Rightarrow> link_client \<times> bytes \<times> nat \<times> control_channel_cmd list \<Rightarrow> bool" where
  "report_bytes l (Cl_Reporting w r, up, n, h) = (n * l + length w \<le> length up \<and> l \<le> length w + length r)"
| "report_bytes l (c, up, n, h) = (n * l \<le> length up)"

definition reports_inv :: "capacity \<Rightarrow> nat \<Rightarrow> link_sys \<Rightarrow> bool" where
  "reports_inv cap l s = (length (lk_up s) \<le> cap_up cap \<and> report_bytes l (client_side s))"

definition long_reports :: "nat \<Rightarrow> link_event list \<Rightarrow> bool" where
  "long_reports l evs = list_all (\<lambda>ev. case ev of Report_Due r \<Rightarrow> l \<le> length r | _ \<Rightarrow> True) evs"

lemma reports_inv_side: "client_side s' = client_side s \<Longrightarrow> reports_inv cap l s' = reports_inv cap l s"
  by (simp add: reports_inv_def client_side_def)

lemma report_bytes_weaken: "report_bytes l (c, up, n, h) \<Longrightarrow> n * l \<le> length up"
  by (cases c) auto

lemma reports_inv_write:
  assumes "reports_inv cap l s" "lk_client s = Cl_Reporting w r"
  shows "reports_inv cap l (link_client_step cap (Client_Writes n) s)"
proof (cases "lk_server s = Sv_Ended")
  case True
  then show ?thesis using assms by (simp add: reports_inv_def client_side_def link_client_step_def)
next
  case False
  define m where "m = min n (cap_up cap - length (lk_up s))"
  have b: "lk_reports s * l + length w \<le> length (lk_up s)" "l \<le> length w + length r" "length (lk_up s) \<le> cap_up cap"
    using assms by (simp_all add: reports_inv_def client_side_def)
  have up: "length (lk_up s @ take m r) \<le> cap_up cap" using b(3) by (auto simp: m_def min_def)
  show ?thesis
  proof (cases "drop m r = []")
    case True
    then show ?thesis using False assms(2) up b
      by (simp add: reports_inv_def client_side_def link_client_step_def m_def [symmetric])
  next
    case nz: False
    then show ?thesis using False assms(2) up b
      by (simp add: reports_inv_def client_side_def link_client_step_def m_def [symmetric])
  qed
qed

lemma reports_inv_client:
  assumes "reports_inv cap l s" "long_reports l [ev]"
  shows "reports_inv cap l (link_client_step cap ev s)"
proof (cases "lk_client s")
  case Cl_Ended
  then show ?thesis using assms(1) by (simp add: link_client_step_def)
next
  case (Cl_Reporting w r)
  show ?thesis
  proof (cases "\<exists>n. ev = Client_Writes n")
    case True
    then show ?thesis using reports_inv_write [OF assms(1) Cl_Reporting] by blast
  next
    case False
    then have "link_client_step cap ev s = s" using Cl_Reporting by (simp add: link_client_step_def split: link_event.split)
    with assms(1) show ?thesis by simp
  qed
next
  case Cl_Loop
  then show ?thesis using assms
    by (cases ev) (simp_all add: reports_inv_def client_side_def link_client_step_def long_reports_def split: list.split)
qed

lemma reports_inv_step:
  assumes "reports_inv cap l s" "long_reports l [ev]"
  shows "reports_inv cap l (link_step cap ev s)"
  by (rule link_step_cases [of cap ev s])
    (simp_all add: reports_inv_client assms reports_inv_side [OF server_step_client_side] reports_inv_side [of "link_step cap ev s" s])

lemma reports_inv_run: "reports_inv cap l s \<Longrightarrow> long_reports l evs \<Longrightarrow> reports_inv cap l (run_link cap evs s)"
proof (induction evs arbitrary: s)
  case (Cons ev evs)
  then have "reports_inv cap l (link_step cap ev s)" by (intro reports_inv_step) (simp_all add: long_reports_def)
  with Cons show ?case by (simp add: long_reports_def)
qed simp

section \<open>The stalled link\<close>

definition client_stalled :: "capacity \<Rightarrow> link_sys \<Rightarrow> bool" where
  "client_stalled cap s =
     (case lk_client s of Cl_Reporting w r \<Rightarrow> r \<noteq> [] \<and> cap_up cap \<le> length (lk_up s) | _ \<Rightarrow> False)"

definition server_lives :: "link_sys \<Rightarrow> bool" where
  "server_lives s = (lk_server s \<noteq> Sv_Ended \<and> \<not> lk_stop_server s)"

definition server_stalled :: "capacity \<Rightarrow> link_sys \<Rightarrow> bool" where
  "server_stalled cap s = (case lk_server s of Sv_Sending c \<Rightarrow> cap_down cap \<le> length (lk_down s) | _ \<Rightarrow> False)"

lemma client_stalled_side: "client_side s' = client_side s \<Longrightarrow> client_stalled cap s' = client_stalled cap s"
  by (auto simp: client_side_def client_stalled_def split: link_client.split)

lemma stalled_client_step:
  assumes "client_stalled cap s" "lk_server s \<noteq> Sv_Ended"
  shows "link_client_step cap ev s = s"
proof -
  obtain w r where "lk_client s = Cl_Reporting w r" "r \<noteq> []" "cap_up cap - length (lk_up s) = 0"
    using assms(1) by (auto simp: client_stalled_def split: link_client.splits)
  then show ?thesis using assms(2) by (simp add: link_client_step_def split: link_event.split)
qed

lemma stalled_server_step:
  assumes "client_stalled cap s" "server_lives s"
  shows "server_lives (link_server_step cap ev s)"
proof -
  have "lk_client s \<noteq> Cl_Ended" using assms(1) by (auto simp: client_stalled_def)
  with assms(2) show ?thesis
    by (simp add: server_lives_def link_server_step_def split: link_server.split link_event.split)
qed

lemma link_stalled_step:
  assumes "client_stalled cap s" "server_lives s" "ev \<noteq> Stop_Server"
  shows "client_side (link_step cap ev s) = client_side s \<and> server_lives (link_step cap ev s)"
proof (rule link_step_cases [of cap ev s])
  have "link_client_step cap ev s = s" using assms(1,2) by (simp add: stalled_client_step server_lives_def)
  moreover assume "link_step cap ev s = link_client_step cap ev s"
  ultimately show ?thesis using assms(2) by simp
next
  assume "link_step cap ev s = link_server_step cap ev s"
  then show ?thesis using stalled_server_step [OF assms(1,2)] by (simp add: server_step_client_side)
next
  assume "client_side (link_step cap ev s) = client_side s" "lk_server (link_step cap ev s) = lk_server s"
    "ev \<noteq> Stop_Server \<longrightarrow> lk_stop_server (link_step cap ev s) = lk_stop_server s"
  with assms(2,3) show ?thesis by (simp add: server_lives_def)
qed

lemma link_stalled_run:
  "client_stalled cap s \<Longrightarrow> server_lives s \<Longrightarrow> Stop_Server \<notin> set evs \<Longrightarrow>
    client_side (run_link cap evs s) = client_side s"
proof (induction evs arbitrary: s)
  case (Cons ev evs)
  then have "client_side (link_step cap ev s) = client_side s \<and> server_lives (link_step cap ev s)"
    by (intro link_stalled_step) auto
  with Cons client_stalled_side [of "link_step cap ev s" s cap] show ?case by simp
qed simp

lemma deadlock_step:
  assumes "client_stalled cap s" "server_stalled cap s"
  shows "client_side (link_step cap ev s) = client_side s \<and> lk_server (link_step cap ev s) = lk_server s \<and>
    lk_down (link_step cap ev s) = lk_down s"
proof -
  obtain c where c: "lk_server s = Sv_Sending c" "cap_down cap \<le> length (lk_down s)"
    using assms(2) by (auto simp: server_stalled_def split: link_server.splits)
  have "lk_client s \<noteq> Cl_Ended" using assms(1) by (auto simp: client_stalled_def)
  with c have "link_server_step cap ev s = s" by (simp add: link_server_step_def split: link_event.split)
  moreover have "link_client_step cap ev s = s" using c(1) assms(1) by (intro stalled_client_step) simp_all
  ultimately show ?thesis by (rule_tac link_step_cases [of cap ev s]) simp_all
qed

lemma deadlock_run:
  "client_stalled cap s \<Longrightarrow> server_stalled cap s \<Longrightarrow>
    client_side (run_link cap evs s) = client_side s \<and> lk_server (run_link cap evs s) = lk_server s"
proof (induction evs arbitrary: s)
  case (Cons ev evs)
  note d = deadlock_step [OF Cons.prems, of ev]
  have "server_stalled cap (link_step cap ev s)"
    using d Cons.prems(2) by (auto simp: server_stalled_def split: link_server.splits)
  moreover have "client_stalled cap (link_step cap ev s)"
    using client_stalled_side [of "link_step cap ev s" s cap] d Cons.prems(1) by simp
  ultimately show ?case using Cons.IH [of "link_step cap ev s"] d by simp
qed simp

section \<open>How it comes about\<close>

lemma run_link_append: "run_link cap (xs @ ys) s = run_link cap ys (run_link cap xs s)"
  by (induction xs arbitrary: s) simp_all

text \<open>A report whose bytes are written as soon as there is room, and a visitor for whom a data channel is requested.\<close>

definition report :: "bytes \<Rightarrow> link_event list" where
  "report r = [Report_Due r, Client_Writes (length r)]"

definition visitor :: "link_event list" where
  "visitor = [Request, Server_Takes, Server_Writes]"

fun repeated :: "nat \<Rightarrow> link_event list \<Rightarrow> link_event list" where
  "repeated 0 evs = []"
| "repeated (Suc n) evs = repeated n evs @ evs"

lemma report_fits:
  assumes "lk_client s = Cl_Loop" "lk_server s \<noteq> Sv_Ended" "length (lk_up s) + length r \<le> cap_up cap"
  shows "run_link cap (report r) s = s\<lparr>lk_up := lk_up s @ r, lk_reports := lk_reports s + 1\<rparr>"
  using assms by (simp add: report_def link_step_def link_client_step_def)

lemma report_stalls:
  assumes "lk_client s = Cl_Loop" "lk_server s \<noteq> Sv_Ended" "cap_up cap < length (lk_up s) + length r"
    "length (lk_up s) \<le> cap_up cap"
  defines "m \<equiv> cap_up cap - length (lk_up s)"
  shows "run_link cap (report r) s = s\<lparr>lk_up := lk_up s @ take m r, lk_client := Cl_Reporting (take m r) (drop m r)\<rparr>"
    and "client_stalled cap (s\<lparr>lk_up := lk_up s @ take m r, lk_client := Cl_Reporting (take m r) (drop m r)\<rparr>)"
proof -
  have m: "m < length r" "length (lk_up s) + m = cap_up cap" using assms(3,4) by (simp_all add: m_def)
  then show "run_link cap (report r) s = s\<lparr>lk_up := lk_up s @ take m r, lk_client := Cl_Reporting (take m r) (drop m r)\<rparr>"
    using assms(1,2) by (simp add: report_def link_step_def link_client_step_def m_def [symmetric] min_def)
  show "client_stalled cap (s\<lparr>lk_up := lk_up s @ take m r, lk_client := Cl_Reporting (take m r) (drop m r)\<rparr>)"
    using m by (simp add: client_stalled_def)
qed

lemma reports_fit:
  assumes "n * length r \<le> cap_up cap"
  shows "\<exists>up. length up = n * length r \<and>
    run_link cap (repeated n (report r)) link_start = link_start\<lparr>lk_up := up, lk_reports := n\<rparr>"
  using assms
proof (induction n)
  case 0
  then show ?case by (simp add: link_start_def)
next
  case (Suc n)
  then obtain up where up: "length up = n * length r"
      "run_link cap (repeated n (report r)) link_start = link_start\<lparr>lk_up := up, lk_reports := n\<rparr>" by auto
  with Suc.prems report_fits [of "link_start\<lparr>lk_up := up, lk_reports := n\<rparr>" r cap] show ?case
    by (intro exI [of _ "up @ r"]) (simp add: run_link_append link_start_def)
qed

lemma reports_stall:
  fixes cap :: capacity
  assumes "r \<noteq> []"
  defines "s' \<equiv> run_link cap (repeated (cap_up cap div length r + 1) (report r)) link_start"
  shows "lk_reports s' = cap_up cap div length r \<and> client_stalled cap s'"
proof -
  let ?n = "cap_up cap div length r"
  have n: "?n * length r \<le> cap_up cap" "cap_up cap < ?n * length r + length r"
    using assms dividend_less_div_times [of "length r" "cap_up cap"]
    by (simp_all add: div_times_less_eq_dividend add.commute)
  obtain up where up: "length up = ?n * length r"
      "run_link cap (repeated ?n (report r)) link_start = link_start\<lparr>lk_up := up, lk_reports := ?n\<rparr>"
    using reports_fit [OF n(1)] by blast
  let ?s = "link_start\<lparr>lk_up := up, lk_reports := ?n\<rparr>"
  have s: "lk_client ?s = Cl_Loop" "lk_server ?s \<noteq> Sv_Ended" "cap_up cap < length (lk_up ?s) + length r"
      "length (lk_up ?s) \<le> cap_up cap"
    using n up(1) by (simp_all add: link_start_def)
  have "s' = run_link cap (report r) ?s"
    using up(2) by (simp add: s'_def run_link_append)
  with report_stalls [OF s] show ?thesis by simp
qed

lemma visitor_fits:
  "lk_server s = Sv_Loop \<Longrightarrow> lk_client s \<noteq> Cl_Ended \<Longrightarrow> length (lk_down s) < cap_down cap \<Longrightarrow>
    run_link cap visitor s = s\<lparr>lk_down := lk_down s @ [CreateDataChannel]\<rparr>"
  by (simp add: visitor_def link_step_def link_server_step_def)

lemma visitors_fit:
  assumes "lk_server s = Sv_Loop" "lk_client s \<noteq> Cl_Ended" "length (lk_down s) + n \<le> cap_down cap"
  shows "\<exists>cs. length cs = length (lk_down s) + n \<and> run_link cap (repeated n visitor) s = s\<lparr>lk_down := cs\<rparr>"
  using assms(3)
proof (induction n)
  case 0
  then show ?case by (intro exI [of _ "lk_down s"]) simp
next
  case (Suc n)
  then obtain cs where "length cs = length (lk_down s) + n" "run_link cap (repeated n visitor) s = s\<lparr>lk_down := cs\<rparr>" by auto
  with Suc.prems visitor_fits [of "s\<lparr>lk_down := cs\<rparr>" cap] assms(1,2) show ?case
    by (intro exI [of _ "cs @ [CreateDataChannel]"]) (simp add: run_link_append)
qed

lemma visitors_stall:
  assumes "lk_server s = Sv_Loop" "lk_client s \<noteq> Cl_Ended" "lk_down s = []"
  shows "server_stalled cap (run_link cap (repeated (cap_down cap + 1) visitor) s) \<and>
    client_side (run_link cap (repeated (cap_down cap + 1) visitor) s) = client_side s"
proof -
  obtain cs where cs: "length cs = cap_down cap" "run_link cap (repeated (cap_down cap) visitor) s = s\<lparr>lk_down := cs\<rparr>"
    using visitors_fit [OF assms(1,2), of "cap_down cap" cap] assms(3) by auto
  have "run_link cap (repeated (cap_down cap + 1) visitor) s = run_link cap visitor (s\<lparr>lk_down := cs\<rparr>)"
    using cs(2) by (simp add: run_link_append)
  with cs(1) assms(1,2) show ?thesis
    by (simp add: visitor_def link_step_def link_server_step_def server_stalled_def client_side_def)
qed

section \<open>Properties\<close>

text \<open>
  C26. The server never reads its end of a control channel, so all reports stay in the buffers of the
  connection: however the two ends, visitors and signals interleave, a client writes no more reports than
  fit there. The next one, ten seconds later, leaves it waiting in the write.
\<close>

theorem reports_fill_the_connection:
  assumes "r \<noteq> []" and "long_reports (length r) evs"
  shows "lk_reports (run_link cap evs link_start) \<le> cap_up cap div length r \<and>
    (let s = run_link cap (repeated (cap_up cap div length r + 1) (report r)) link_start
     in lk_reports s = cap_up cap div length r \<and> client_stalled cap s)"
proof -
  have "reports_inv cap (length r) link_start" by (simp add: reports_inv_def link_start_def client_side_def)
  from reports_inv_run [OF this assms(2)]
  have inv: "reports_inv cap (length r) (run_link cap evs link_start)" .
  then have "lk_reports (run_link cap evs link_start) * length r \<le> cap_up cap"
    using report_bytes_weaken unfolding reports_inv_def client_side_def by (meson order_trans)
  then have "lk_reports (run_link cap evs link_start) \<le> cap_up cap div length r"
    using assms(1) by (simp add: less_eq_div_iff_mult_less_eq)
  moreover from reports_stall [OF assms(1), of cap] have
    "let s = run_link cap (repeated (cap_up cap div length r + 1) (report r)) link_start
     in lk_reports s = cap_up cap div length r \<and> client_stalled cap s" by (simp add: Let_def)
  ultimately show ?thesis by blast
qed

text \<open>
  A client that waits in the write of a report takes no command any more: as long as the server's task
  is there, no visitor gets a data channel, and neither a heartbeat timeout nor the shutdown signal ends
  the client. When the commands have filled the other direction the server's task waits as well, for ever,
  whatever happens on either side.
\<close>

theorem stalled_link_is_dead:
  assumes "client_stalled cap s" "server_lives s" "Stop_Server \<notin> set evs"
  shows "client_side (run_link cap evs s) = client_side s \<and>
    (lk_server s = Sv_Loop \<longrightarrow> lk_down s = [] \<longrightarrow>
      (let s' = run_link cap (repeated (cap_down cap + 1) visitor) s
       in \<forall>evs. client_side (run_link cap evs s') = client_side s \<and> lk_server (run_link cap evs s') \<noteq> Sv_Ended))"
proof (intro conjI impI)
  show "client_side (run_link cap evs s) = client_side s" by (rule link_stalled_run [OF assms])
next
  assume l: "lk_server s = Sv_Loop" "lk_down s = []"
  have ne: "lk_client s \<noteq> Cl_Ended" using assms(1) by (auto simp: client_stalled_def)
  note v = visitors_stall [OF l(1) ne l(2), of cap]
  let ?s = "run_link cap (repeated (cap_down cap + 1) visitor) s"
  have c: "client_stalled cap ?s" using client_stalled_side [of ?s s cap] v assms(1) by simp
  have "lk_server ?s \<noteq> Sv_Ended" using v by (auto simp: server_stalled_def)
  with deadlock_run [OF c, of evs for evs] v
  show "let s' = ?s in \<forall>evs. client_side (run_link cap evs s') = client_side s \<and> lk_server (run_link cap evs s') \<noteq> Sv_Ended"
    unfolding Let_def by metis
qed

definition small_cap :: capacity where
  "small_cap = \<lparr>cap_up = 10, cap_down = 2\<rparr>"

definition small_report :: bytes where
  "small_report = [1, 2, 3, 4]"

theorem reports_fill_the_connection_witness:
  "lk_reports (run_link small_cap (report small_report @ visitor @ [Client_Reads]) link_start) \<le> 10 div 4 \<and>
   (let s = run_link small_cap (repeated 3 (report small_report)) link_start in lk_reports s = 2 \<and> client_stalled small_cap s)"
  using reports_fill_the_connection [of small_report "report small_report @ visitor @ [Client_Reads]" small_cap]
  by (simp add: small_cap_def small_report_def long_reports_def report_def visitor_def)

definition small_stalled :: link_sys where
  "small_stalled = run_link small_cap (repeated 3 (report small_report)) link_start"

theorem stalled_link_is_dead_witness:
  "client_side (run_link small_cap (visitor @ [Stop_Client, Client_Notices, Client_Reads]) small_stalled) = client_side small_stalled \<and>
   (let s' = run_link small_cap (repeated 3 visitor) small_stalled
    in \<forall>evs. client_side (run_link small_cap evs s') = client_side small_stalled \<and>
      lk_server (run_link small_cap evs s') \<noteq> Sv_Ended)"
proof -
  have s: "client_stalled small_cap small_stalled" "server_lives small_stalled" "lk_server small_stalled = Sv_Loop"
    "lk_down small_stalled = []" by code_simp+
  have n: "Stop_Server \<notin> set (visitor @ [Stop_Client, Client_Notices, Client_Reads])" by (simp add: visitor_def)
  have c: "cap_down small_cap + 1 = 3" by (simp add: small_cap_def)
  from stalled_link_is_dead [OF s(1,2) n] s(3,4) show ?thesis unfolding c by blast
qed

end
