(* ===== verification/Watch_Files.thy ===== *)
theory Watch_Files
  imports Config_Watcher Conn
begin

text \<open>
  The watcher of \<open>src/rathole/src/config_watcher.rs\<close> among the files: the path it watches, which
  notifications count, and the interleaving of writes to the file, notifications and reads.
\<close>

section \<open>Paths\<close>

text \<open>A path by its components, as \<open>std::path\<close> sees it.\<close>

datatype component = Normal string | Parent_Dir

record path =
  pa_absolute :: bool
  pa_parts :: "component list"

definition file_name :: "path \<Rightarrow> string option" where
  "file_name p = (case rev (pa_parts p) of Normal n # _ \<Rightarrow> Some n | _ \<Rightarrow> None)"

definition parent :: "path \<Rightarrow> path option" where
  "parent p = (if pa_parts p = [] then None else Some (p\<lparr>pa_parts := butlast (pa_parts p)\<rparr>))"

definition join :: "path \<Rightarrow> path \<Rightarrow> path" where
  "join base p = (if pa_absolute p then p else base\<lparr>pa_parts := pa_parts base @ pa_parts p\<rparr>)"

section \<open>The start of the task\<close>

datatype event_kind = Modify_Kind | Create_Kind | Remove_Kind | Other_Kind

record file_event =
  fe_kind :: event_kind
  fe_paths :: "path list"

text \<open>The path that is read and the directory that is watched, without what is below it.\<close>

definition watched_path :: "err + path \<Rightarrow> path \<Rightarrow> fault + (err + path \<times> path)" where
  "watched_path current_dir p =
     (case (if pa_absolute p then Inr p else rbind current_dir (\<lambda>d. Inr (join d p))) of
        Inl e \<Rightarrow> Inr (Inl e)
      | Inr q \<Rightarrow>
          (case parent q of
             None \<Rightarrow> Inl (Panic ''config file should have a parent dir'')
           | Some d \<Rightarrow> Inr (Inr (q, d))))"

text \<open>The closure given to the notifier: a modification in the directory of something with the name of the file.\<close>

definition counts :: "path \<Rightarrow> err + file_event \<Rightarrow> bool" where
  "counts p res =
     (case res of
        Inl e \<Rightarrow> False
      | Inr e \<Rightarrow> fe_kind e = Modify_Kind \<and> list_ex (\<lambda>x. file_name x = file_name p) (fe_paths e))"

section \<open>The running watcher\<close>

text \<open>
  What is in the file, the signals the closure has sent and the loop has not taken, the last valid
  configuration and the events sent. The flag says whether the file was written since a notification
  that counts.
\<close>

record watch_sys =
  wt_path :: path
  wt_file :: "config_err + config"
  wt_written :: bool
  wt_signals :: nat
  wt_old :: config
  wt_sent :: "config_change list"
  wt_receiver :: bool
  wt_running :: bool

datatype watch_event =
    Write "config_err + config"
  | Notify "err + file_event"
  | Rescan
  | Receiver_Gone
  | Stop_Watch

definition rescan :: "watch_sys \<Rightarrow> watch_sys" where
  "rescan w =
     (if wt_signals w = 0 then w
      else let w1 = w\<lparr>wt_signals := wt_signals w - 1\<rparr>
           in case wt_file w of
                Inl e \<Rightarrow> w1
              | Inr new \<Rightarrow>
                  let es = (case calculate_events (wt_old w) new of None \<Rightarrow> [] | Some es \<Rightarrow> es)
                  in if es \<noteq> [] \<and> \<not> wt_receiver w then w1\<lparr>wt_running := False\<rparr>
                     else w1\<lparr>wt_sent := wt_sent w @ es, wt_old := new\<rparr>)"

definition watch_step :: "watch_event \<Rightarrow> watch_sys \<Rightarrow> watch_sys" where
  "watch_step ev w =
     (case ev of
        Write c \<Rightarrow> w\<lparr>wt_file := c, wt_written := True\<rparr>
      | Receiver_Gone \<Rightarrow> w\<lparr>wt_receiver := False\<rparr>
      | Notify res \<Rightarrow>
          (if wt_running w \<and> counts (wt_path w) res then w\<lparr>wt_signals := wt_signals w + 1, wt_written := False\<rparr> else w)
      | Rescan \<Rightarrow> (if wt_running w then rescan w else w)
      | Stop_Watch \<Rightarrow> w\<lparr>wt_running := False\<rparr>)"

fun run_watch :: "watch_event list \<Rightarrow> watch_sys \<Rightarrow> watch_sys" where
  "run_watch [] w = w"
| "run_watch (ev # evs) w = run_watch evs (watch_step ev w)"

text \<open>\<open>ConfigWatcherHandle::new\<close>: the file is read and its configuration sent, then the task starts.\<close>

definition start_watch :: "path \<Rightarrow> config \<Rightarrow> watch_sys" where
  "start_watch p origin =
     \<lparr>wt_path = p, wt_file = Inr origin, wt_written = False, wt_signals = 0, wt_old = origin,
      wt_sent = [General origin], wt_receiver = True, wt_running = True\<rparr>"

text \<open>\<open>ConfigWatcherHandle::shutdown\<close> sends the signal the task ends on; that nobody listens is ignored.\<close>

definition shutdown_watcher :: "watch_sys \<Rightarrow> watch_sys" where
  "shutdown_watcher w = watch_step Stop_Watch w"

text \<open>Without the feature \<open>notify\<close> the task only waits for the shutdown: a step that never reads.\<close>

definition fake_watch_step :: "watch_event \<Rightarrow> watch_sys \<Rightarrow> watch_sys" where
  "fake_watch_step ev w = (case ev of Stop_Watch \<Rightarrow> w\<lparr>wt_running := False\<rparr> | _ \<Rightarrow> w)"

section \<open>Convergence\<close>

definition file_ok :: "config_err + config \<Rightarrow> bool" where
  "file_ok f = (case f of Inl e \<Rightarrow> True | Inr c \<Rightarrow> config_wf c)"

definition files_ok :: "watch_event list \<Rightarrow> bool" where
  "files_ok evs = list_all (\<lambda>ev. case ev of Write f \<Rightarrow> file_ok f | _ \<Rightarrow> True) evs"

definition watch_inv :: "watch_sys \<Rightarrow> bool" where
  "watch_inv w =
     (file_ok (wt_file w) \<and> config_wf (wt_old w) \<and>
      fold apply_server_event (wt_sent w) Map.empty = server_view (wt_old w) \<and>
      fold apply_client_event (wt_sent w) Map.empty = client_view (wt_old w) \<and>
      (wt_running w \<longrightarrow> wt_written w \<or> 0 < wt_signals w \<or> (\<exists>e. wt_file w = Inl e) \<or> wt_file w = Inr (wt_old w)))"

lemma watch_inv_start: "config_wf origin \<Longrightarrow> watch_inv (start_watch p origin)"
  by (simp add: watch_inv_def start_watch_def file_ok_def server_view_def client_view_def)

lemma watch_inv_rescan:
  assumes "watch_inv w" "wt_running w"
  shows "watch_inv (rescan w)"
proof (cases "wt_signals w = 0")
  case True
  with assms show ?thesis by (simp add: rescan_def)
next
  case False
  show ?thesis
  proof (cases "wt_file w")
    case (Inl e)
    with False assms show ?thesis by (simp add: rescan_def watch_inv_def)
  next
    case (Inr new)
    define es where "es = (case calculate_events (wt_old w) new of None \<Rightarrow> [] | Some es \<Rightarrow> es)"
    have wf: "config_wf (wt_old w)" "config_wf new" using assms(1) Inr by (simp_all add: watch_inv_def file_ok_def)
    from calculate_events_views [OF wf] have v: "fold apply_server_event es (server_view (wt_old w)) = server_view new"
        "fold apply_client_event es (client_view (wt_old w)) = client_view new"
      by (simp_all add: es_def)
    show ?thesis
    proof (cases "es \<noteq> [] \<and> \<not> wt_receiver w")
      case True
      then show ?thesis using False Inr assms by (simp add: rescan_def watch_inv_def es_def [symmetric])
    next
      case go: False
      have "rescan w = w\<lparr>wt_signals := wt_signals w - 1, wt_sent := wt_sent w @ es, wt_old := new\<rparr>"
        using False Inr go by (auto simp: rescan_def es_def [symmetric] Let_def)
      then show ?thesis using assms(1) Inr v wf by (simp add: watch_inv_def)
    qed
  qed
qed

lemma watch_inv_step:
  assumes "watch_inv w" "files_ok [ev]"
  shows "watch_inv (watch_step ev w)"
proof (cases ev)
  case Rescan
  with assms watch_inv_rescan [of w] show ?thesis by (simp add: watch_step_def)
qed (use assms in \<open>simp_all add: watch_step_def watch_inv_def files_ok_def\<close>)

lemma watch_inv_run: "watch_inv w \<Longrightarrow> files_ok evs \<Longrightarrow> watch_inv (run_watch evs w)"
proof (induction evs arbitrary: w)
  case (Cons ev evs)
  then have "watch_inv (watch_step ev w)" by (intro watch_inv_step) (simp_all add: files_ok_def)
  with Cons show ?case by (simp add: files_ok_def)
qed simp


definition example_path :: path where
  "example_path = \<lparr>pa_absolute = True, pa_parts = [Normal ''etc'', Normal ''rathole.toml'']\<rparr>"

definition saved :: "watch_event list" where
  "saved = [Write (Inl (Bad_Config [])), Notify (Inr \<lparr>fe_kind = Modify_Kind, fe_paths = [example_path]\<rparr>), Rescan,
     Write (Inr config_b), Notify (Inr \<lparr>fe_kind = Modify_Kind, fe_paths = [example_path]\<rparr>), Rescan]"


text \<open>
  A file that is replaced by creating it anew is not noticed, nor is a write through a symbolic link
  to another name; and a configuration given as the root or the empty path ends the program.
\<close>

lemma other_events_do_not_count:
  "fe_kind e \<noteq> Modify_Kind \<Longrightarrow> \<not> counts p (Inr e)"
  "fe_paths e = [q] \<Longrightarrow> file_name q \<noteq> file_name p \<Longrightarrow> \<not> counts p (Inr e)"
  by (simp_all add: counts_def)

lemma watched_path_panics:
  "(\<exists>f. watched_path (Inr d) q = Inl f) \<longleftrightarrow> pa_parts q = [] \<and> (pa_absolute q \<or> pa_parts d = [])"
  by (auto simp: watched_path_def parent_def join_def)

end
