(* ===== verification/Transport.thy ===== *)
theory Transport
  imports Config Protocol
begin

text \<open>
  Connections of \<open>src/rathole/src/helper.rs\<close> and \<open>src/rathole/src/transport/\<close>: socket options, the
  addresses to dial, the way through a proxy, and UDP sockets. Name lookups, sockets and the dialects
  of the proxies belong to the system and to libraries: the results of lookups and connection attempts
  are inputs, and the outcome is what is dialled.
\<close>

section \<open>Socket options\<close>

record socket_opts =
  so_nodelay :: "bool option"
  so_keepalive :: "(u64 \<times> u64) option"

record tcp_stream =
  ts_nodelay :: bool
  ts_keepalive :: "(u64 \<times> u64) option"

definition no_opts :: socket_opts where
  "no_opts = \<lparr>so_nodelay = None, so_keepalive = None\<rparr>"

definition for_control_channel :: socket_opts where
  "for_control_channel = no_opts\<lparr>so_nodelay := Some True\<rparr>"

definition from_cfg :: "tcp_config \<Rightarrow> socket_opts" where
  "from_cfg cfg =
     \<lparr>so_nodelay = Some (tcp_nodelay cfg), so_keepalive = Some (tcp_keepalive_secs cfg, tcp_keepalive_interval cfg)\<rparr>"

definition from_client_cfg :: "client_service \<Rightarrow> socket_opts" where
  "from_client_cfg cfg = no_opts\<lparr>so_nodelay := cs_nodelay cfg\<rparr>"

definition from_server_cfg :: "server_service \<Rightarrow> socket_opts" where
  "from_server_cfg cfg = no_opts\<lparr>so_nodelay := ss_nodelay cfg\<rparr>"

definition try_set_tcp_keepalive :: "bool \<Rightarrow> tcp_stream \<Rightarrow> u64 \<Rightarrow> u64 \<Rightarrow> (err + unit) \<times> tcp_stream" where
  "try_set_tcp_keepalive ok s duration interval =
     (if ok then (Inr (), s\<lparr>ts_keepalive := Some (duration, interval)\<rparr>) else (Inl (Io ''setsockopt''), s))"

text \<open>A failure to set an option is only logged: the flags say which calls succeed.\<close>

definition apply_opts :: "bool \<Rightarrow> bool \<Rightarrow> socket_opts \<Rightarrow> tcp_stream \<Rightarrow> tcp_stream" where
  "apply_opts keepalive_ok nodelay_ok o' s =
     (let s1 = (case so_keepalive o' of
                  None \<Rightarrow> s
                | Some (duration, interval) \<Rightarrow> snd (try_set_tcp_keepalive keepalive_ok s duration interval))
      in case so_nodelay o' of
           None \<Rightarrow> s1
         | Some v \<Rightarrow> if nodelay_ok then s1\<lparr>ts_nodelay := v\<rparr> else s1)"

section \<open>Addresses\<close>

text \<open>\<open>u16::from_str\<close>: an optional plus sign, then decimal digits, within the range.\<close>

definition digit :: "char \<Rightarrow> nat option" where
  "digit c = (let n = of_char c in if 48 \<le> n \<and> n \<le> 57 then Some (n - 48) else None)"

fun parse_digits :: "nat \<Rightarrow> string \<Rightarrow> nat option" where
  "parse_digits acc [] = Some acc"
| "parse_digits acc (c # cs) =
     (case digit c of
        None \<Rightarrow> None
      | Some d \<Rightarrow> if 65536 \<le> 10 * acc + d then None else parse_digits (10 * acc + d) cs)"

definition parse_u16 :: "string \<Rightarrow> u16 option" where
  "parse_u16 s =
     (let ds = (case s of [] \<Rightarrow> [] | c # r \<Rightarrow> if c = CHR ''+'' then r else s)
      in if ds = [] then None else map_option of_nat (parse_digits 0 ds))"

text \<open>\<open>str::rfind\<close> of a colon, as the two parts around it.\<close>

fun rsplit_colon :: "string \<Rightarrow> (string \<times> string) option" where
  "rsplit_colon [] = None"
| "rsplit_colon (c # cs) =
     (case rsplit_colon cs of
        Some (h, p) \<Rightarrow> Some (c # h, p)
      | None \<Rightarrow> if c = CHR '':'' then Some ([], cs) else None)"

definition host_port_pair :: "string \<Rightarrow> fault + (err + string \<times> u16)" where
  "host_port_pair s =
     (case rsplit_colon s of
        None \<Rightarrow> Inl (Panic ''missing semicolon'')
      | Some (h, p) \<Rightarrow>
          Inr (case parse_u16 p of None \<Rightarrow> Inl (Msg ''invalid port'') | Some n \<Rightarrow> Inr (h, n)))"

text \<open>Decimal notation of a port, as \<open>Display\<close> writes it.\<close>

fun show_nat :: "nat \<Rightarrow> string" where
  "show_nat n = (if n < 10 then [char_of (48 + n)] else show_nat (n div 10) @ [char_of (48 + n mod 10)])"

declare show_nat.simps [simp del]

lemma digit_char: "d < 10 \<Longrightarrow> digit (char_of (48 + d)) = Some d"
  by (simp add: digit_def Let_def of_char_of)

lemma parse_digits_append:
  "parse_digits acc (s @ [c]) =
     (case parse_digits acc s of
        None \<Rightarrow> None
      | Some m \<Rightarrow> (case digit c of None \<Rightarrow> None | Some d \<Rightarrow> if 65536 \<le> 10 * m + d then None else Some (10 * m + d)))"
  by (induction acc s rule: parse_digits.induct) (auto split: option.split)

lemma parse_show: "n < 65536 \<Longrightarrow> parse_digits 0 (show_nat n) = Some n"
proof (induction n rule: show_nat.induct)
  case (1 n)
  show ?case
  proof (cases "n < 10")
    case True
    then show ?thesis by (simp add: show_nat.simps [of n] digit_char)
  next
    case False
    with 1 have "parse_digits 0 (show_nat (n div 10)) = Some (n div 10)" by simp
    with False 1(2) show ?thesis
      by (simp add: show_nat.simps [of n] parse_digits_append digit_char)
  qed
qed

lemma show_nat_chars: "c \<in> set (show_nat n) \<Longrightarrow> \<exists>d < 10. c = char_of (48 + d :: nat)"
proof (induction n rule: show_nat.induct)
  case (1 n)
  show ?case
  proof (cases "n < 10 \<or> c \<notin> set (show_nat (n div 10))")
    case True
    with 1(2) have "c = char_of (48 + n mod 10)" by (auto simp: show_nat.simps [of n] split: if_splits)
    then show ?thesis by (intro exI [of _ "n mod 10"]) simp
  qed (use 1 in simp)
qed

lemma show_nat_not: "CHR '':'' \<notin> set (show_nat n)" "CHR ''+'' \<notin> set (show_nat n)"
proof -
  have "digit c \<noteq> None" if "c \<in> set (show_nat n)" for c
    using show_nat_chars [OF that] digit_char by auto
  moreover have "digit (CHR '':'') = None" "digit (CHR ''+'') = None" by (simp_all add: digit_def)
  ultimately show "CHR '':'' \<notin> set (show_nat n)" "CHR ''+'' \<notin> set (show_nat n)" by metis+
qed

lemma show_nat_ne: "show_nat n \<noteq> []"
  by (simp add: show_nat.simps [of n])

lemma parse_u16_show: "parse_u16 (show_nat (unat p)) = Some p"
proof -
  have "unat p < 2 ^ LENGTH(16)" by (rule unsigned_less)
  then have u: "unat p < 65536" by simp
  have "(case show_nat (unat p) of [] \<Rightarrow> [] | c # r \<Rightarrow> if c = CHR ''+'' then r else show_nat (unat p)) = show_nat (unat p)"
    using show_nat_not(2) [of "unat p"] by (auto split: list.split)
  then show ?thesis
    using parse_show [of "unat p"] u by (simp add: parse_u16_def Let_def show_nat_ne)
qed

lemma rsplit_none: "CHR '':'' \<notin> set p \<Longrightarrow> rsplit_colon p = None"
  by (induction p) auto

lemma rsplit_colon_last: "CHR '':'' \<notin> set p \<Longrightarrow> rsplit_colon (h @ CHR '':'' # p) = Some (h, p)"
  by (induction h) (auto simp: rsplit_none)

lemma rsplit_colon_None: "rsplit_colon s = None \<longleftrightarrow> CHR '':'' \<notin> set s"
  by (induction s) (auto split: option.splits)

lemma host_port_faults: "(\<exists>e. host_port_pair s = Inl e) = (CHR '':'' \<notin> set s)"
  using rsplit_colon_None [of s] by (auto simp: host_port_pair_def split: option.splits)

text \<open>
  An address is split at its last colon: host and port of \<open>host:port\<close> come back for every port and
  every host, one with colons like an IPv6 address included; the only panic is an address without colon.
\<close>

theorem host_port_roundtrip:
  "host_port_pair (host @ '':'' @ show_nat (unat port)) = Inr (Inr (host, port))
   \<and> ((\<exists>e. host_port_pair s = Inl e) = (CHR '':'' \<notin> set s))"
  using rsplit_colon_last [OF show_nat_not(1), of host "unat port"] host_port_faults [of s]
  by (auto simp: host_port_pair_def parse_u16_show split: option.splits)

section \<open>Dialling\<close>

record addr_maybe_cached =
  am_addr :: string
  am_socket_addr :: "socket_addr option"

definition addr_new :: "string \<Rightarrow> addr_maybe_cached" where
  "addr_new a = \<lparr>am_addr = a, am_socket_addr = None\<rparr>"

text \<open>\<open>to_socket_addr\<close> on the result of a lookup.\<close>

definition to_socket_addr :: "err + socket_addr list \<Rightarrow> err + socket_addr" where
  "to_socket_addr found =
     (case found of
        Inl e \<Rightarrow> Inl e
      | Inr [] \<Rightarrow> Inl (Msg ''Failed to lookup the host'')
      | Inr (a # as) \<Rightarrow> Inr a)"

definition resolve :: "err + socket_addr list \<Rightarrow> addr_maybe_cached \<Rightarrow> (err + unit) \<times> addr_maybe_cached" where
  "resolve found a =
     (case to_socket_addr found of
        Inr s \<Rightarrow> (Inr (), a\<lparr>am_socket_addr := Some s\<rparr>)
      | Inl e \<Rightarrow> (Inl e, a))"

datatype dial =
    Dial_Cached socket_addr
  | Dial_Name string
  | Via_Socks5 string u16 "(string \<times> string) option" string u16
  | Via_Http string u16 "(string \<times> string) option" string u16

definition proxy_auth :: "url \<Rightarrow> (string \<times> string) option" where
  "proxy_auth u =
     (if url_username u \<noteq> [] \<or> url_password u \<noteq> None
      then Some (url_username u, case url_password u of None \<Rightarrow> [] | Some p \<Rightarrow> p)
      else None)"

text \<open>\<open>proxy\<close> is the result of connecting to the proxy itself.\<close>

definition tcp_connect_with_proxy :: "addr_maybe_cached \<Rightarrow> url option \<Rightarrow> err + unit \<Rightarrow> fault + (err + dial)" where
  "tcp_connect_with_proxy addr proxy up =
     (case proxy of
        None \<Rightarrow>
          Inr (Inr (case am_socket_addr addr of Some s \<Rightarrow> Dial_Cached s | None \<Rightarrow> Dial_Name (am_addr addr)))
      | Some u \<Rightarrow>
          (case url_host_str u of
             None \<Rightarrow> Inl (Panic ''proxy url should have host field'')
           | Some h \<Rightarrow>
               (case url_port u of
                  None \<Rightarrow> Inl (Panic ''proxy url should have port field'')
                | Some p \<Rightarrow>
                    (case up of
                       Inl e \<Rightarrow> Inr (Inl e)
                     | Inr _ \<Rightarrow>
                         if url_scheme u = ''socks5''
                         then rbind (host_port_pair (am_addr addr)) (\<lambda>r. Inr (case r of
                                Inl e \<Rightarrow> Inl e
                              | Inr (th, tp) \<Rightarrow> Inr (Via_Socks5 h p (proxy_auth u) th tp)))
                         else if url_scheme u = ''http''
                         then rbind (host_port_pair (am_addr addr)) (\<lambda>r. Inr (case r of
                                Inl e \<Rightarrow> Inl e
                              | Inr (th, tp) \<Rightarrow> Inr (Via_Http h p (proxy_auth u) th tp)))
                         else Inl (Panic ''unknown proxy scheme'')))))"

text \<open>
  Connecting with a validated configuration panics exactly when the URL of the proxy has no host or
  no explicit port (a default port counts as none), or the remote address has no colon once the proxy
  has answered: validation has excluded the unknown scheme, but not these.
\<close>

theorem validated_connect_panics_iff:
  assumes "validate_transport_config cfg is_server = Inr ()"
  shows "(\<exists>f. tcp_connect_with_proxy addr (tcp_proxy (tcp cfg)) up = Inl f) \<longleftrightarrow>
    (case tcp_proxy (tcp cfg) of
       None \<Rightarrow> False
     | Some u \<Rightarrow> url_host_str u = None \<or> url_port u = None \<or> (up = Inr () \<and> CHR '':'' \<notin> set (am_addr addr)))"
proof (cases "tcp_proxy (tcp cfg)")
  case (Some u)
  then have sch: "url_scheme u = ''socks5'' \<or> url_scheme u = ''http''"
    using assms by (auto simp: validate_transport_config_def result_simps split: if_splits)
  note p = host_port_faults [of "am_addr addr"]
  show ?thesis
    using sch p unfolding tcp_connect_with_proxy_def Some
    by (cases "host_port_pair (am_addr addr)") (auto split: option.split sum.split)
qed (simp add: tcp_connect_with_proxy_def)

definition proxied :: transport_config where
  "proxied = default_transport_config\<lparr>tcp := default_tcp_config\<lparr>tcp_proxy :=
     Some \<lparr>url_scheme = ''http'', url_host_str = Some ''p'', url_port = None, url_username = [], url_password = None\<rparr>\<rparr>\<rparr>"

theorem validated_connect_panics_iff_witness:
  "\<exists>f. tcp_connect_with_proxy (addr_new ''h:1'') (tcp_proxy (tcp proxied)) (Inr ()) = Inl f"
proof -
  have "validate_transport_config proxied False = Inr ()"
    by (simp add: validate_transport_config_def proxied_def default_transport_config_def)
  from validated_connect_panics_iff [OF this, of "addr_new ''h:1''" "Inr ()"] show ?thesis
    by (simp add: proxied_def)
qed

section \<open>The TCP transport\<close>

record tcp_transport =
  tt_socket_opts :: socket_opts
  tt_cfg :: tcp_config

definition tcp_new :: "transport_config \<Rightarrow> tcp_transport" where
  "tcp_new cfg = \<lparr>tt_socket_opts = from_cfg (tcp cfg), tt_cfg = tcp cfg\<rparr>"

definition tcp_hint :: "bool \<Rightarrow> bool \<Rightarrow> socket_opts \<Rightarrow> tcp_stream \<Rightarrow> tcp_stream" where
  "tcp_hint keepalive_ok nodelay_ok opt conn = apply_opts keepalive_ok nodelay_ok opt conn"

definition tcp_accept :: "bool \<Rightarrow> bool \<Rightarrow> tcp_transport \<Rightarrow> err + tcp_stream \<times> socket_addr \<Rightarrow> err + tcp_stream \<times> socket_addr" where
  "tcp_accept keepalive_ok nodelay_ok t accepted =
     (case accepted of
        Inl e \<Rightarrow> Inl e
      | Inr (s, addr) \<Rightarrow> Inr (apply_opts keepalive_ok nodelay_ok (tt_socket_opts t) s, addr))"

text \<open>\<open>dialled\<close> is the outcome of a connection; \<open>up\<close> of the one to the proxy.\<close>

definition tcp_connect ::
  "bool \<Rightarrow> bool \<Rightarrow> tcp_transport \<Rightarrow> addr_maybe_cached \<Rightarrow> err + unit \<Rightarrow> (dial \<Rightarrow> err + tcp_stream) \<Rightarrow> fault + (err + tcp_stream)" where
  "tcp_connect keepalive_ok nodelay_ok t addr up dialled =
     rbind (tcp_connect_with_proxy addr (tcp_proxy (tt_cfg t)) up) (\<lambda>r. Inr (
       rbind r (\<lambda>d. rbind (dialled d) (\<lambda>s. Inr (apply_opts keepalive_ok nodelay_ok (tt_socket_opts t) s)))))"

text \<open>
  The options of a connection that the transport accepted or made and that is then hinted, when the
  calls succeed: a control channel sends at once whatever the configuration says, a data channel follows
  its service and without a setting there the transport, and no hint touches the keepalive.
\<close>

definition hinted :: "tcp_config \<Rightarrow> socket_opts \<Rightarrow> tcp_stream" where
  "hinted cfg opt = \<lparr>ts_nodelay = (case so_nodelay opt of Some v \<Rightarrow> v | None \<Rightarrow> tcp_nodelay cfg),
     ts_keepalive = Some (tcp_keepalive_secs cfg, tcp_keepalive_interval cfg)\<rparr>"

lemma apply_hint:
  "so_keepalive opt = None \<Longrightarrow> apply_opts True True opt (apply_opts True True (from_cfg cfg) s) = hinted cfg opt"
  by (simp add: apply_opts_def try_set_tcp_keepalive_def from_cfg_def hinted_def Let_def split: option.split)

lemma hint_keepalive [simp]:
  "so_keepalive for_control_channel = None" "so_keepalive (from_client_cfg cs) = None" "so_keepalive (from_server_cfg ss) = None"
  by (simp_all add: for_control_channel_def from_client_cfg_def from_server_cfg_def no_opts_def)

theorem connection_options:
  assumes "opt \<in> {for_control_channel, from_client_cfg cs, from_server_cfg ss}"
    and "tcp_accept True True (tcp_new cfg) accepted = Inr (s, a) \<or> tcp_connect True True (tcp_new cfg) addr up dialled = Inr (Inr s)"
  shows "tcp_hint True True opt s = hinted (tcp cfg) opt"
proof -
  have "\<exists>s0. s = apply_opts True True (from_cfg (tcp cfg)) s0"
    using assms(2) by (auto simp: tcp_accept_def tcp_connect_def tcp_new_def rbind_eq_Inr split: sum.splits prod.splits)
  then obtain s0 where "s = apply_opts True True (from_cfg (tcp cfg)) s0" by blast
  moreover have "so_keepalive opt = None" using assms(1) by auto
  ultimately show ?thesis by (simp add: tcp_hint_def apply_hint)
qed

section \<open>UDP sockets\<close>

fun is_ipv6 :: "socket_addr \<Rightarrow> bool" where
  "is_ipv6 (V4 ip p) = False"
| "is_ipv6 (V6 ip p flow sc) = True"

text \<open>The address a UDP socket is connected to, and the one it is bound to.\<close>

definition udp_connect :: "err + socket_addr list \<Rightarrow> bool \<Rightarrow> err + socket_addr \<times> string" where
  "udp_connect found prefer_ipv6 =
     (if \<not> prefer_ipv6
      then rbind (to_socket_addr found) (\<lambda>a. Inr (a, if is_ipv6 a then '':::0'' else ''0.0.0.0:0''))
      else rbind found (\<lambda>as.
        case find is_ipv6 as of
          Some a \<Rightarrow> Inr (a, '':::0'')
        | None \<Rightarrow>
            (case find (\<lambda>a. \<not> is_ipv6 a) as of
               None \<Rightarrow> Inl (Msg ''Failed to lookup the host'')
             | Some a \<Rightarrow> Inr (a, ''0.0.0.0:0''))))"

text \<open>
  A UDP socket gets an address of the lookup, is bound in the family of that address, and with a
  preference for IPv6 an IPv6 address whenever the lookup has one; it fails exactly when the lookup
  fails or finds nothing.
\<close>

theorem udp_connect_address:
  "case udp_connect found prefer_ipv6 of
     Inl e \<Rightarrow> found = Inl e \<or> found = Inr []
   | Inr (a, bind) \<Rightarrow> (case found of Inl e \<Rightarrow> False
       | Inr as \<Rightarrow> a \<in> set as \<and> bind = (if is_ipv6 a then '':::0'' else ''0.0.0.0:0'')
           \<and> is_ipv6 a = (if prefer_ipv6 then list_ex is_ipv6 as else is_ipv6 (hd as)))"
proof (cases found)
  case (Inr as)
  show ?thesis
    unfolding Inr
    by (cases as) (auto simp: udp_connect_def to_socket_addr_def find_None_iff find_Some_iff list_ex_iff
        split: option.splits)
qed (simp add: udp_connect_def to_socket_addr_def)

end
