(* ===== verification/Secure_Transport.thy ===== *)
theory Secure_Transport
  imports Transport
begin

text \<open>
  The transports over the TCP one: \<open>transport/native_tls.rs\<close> (the TLS of the default build),
  \<open>transport/noise.rs\<close> and the set-up of \<open>transport/websocket.rs\<close>. Certificates, keys, patterns and the
  handshakes of the libraries are parameters; what is modelled is when they are called, with what, and
  which missing parts are errors or panics. Streams enter by the outcome of their handshake.
\<close>

section \<open>What the libraries and the files give\<close>

record transport_env =
  te_root :: "string \<Rightarrow> err + string"
  te_certificate :: "string \<Rightarrow> err + unit"
  te_connector :: "err + unit"
  te_file :: "string \<Rightarrow> err + bytes"
  te_identity :: "bytes \<Rightarrow> string \<Rightarrow> err + unit"
  te_acceptor_ok :: bool
  te_pattern :: "string \<Rightarrow> err + unit"
  te_base64 :: "string \<Rightarrow> err + bytes"
  te_keypair :: "string \<Rightarrow> err + bytes"
  te_url_ok :: "string \<Rightarrow> bool"

definition context_err :: "string \<Rightarrow> err + 'a \<Rightarrow> err + 'a" where
  "context_err msg r = (case r of Inl e \<Rightarrow> Inl (Context msg e) | Inr x \<Rightarrow> Inr x)"

text \<open>The \<open>?\<close> operator in a function that can also panic.\<close>

definition try_bind :: "fault + (err + 'a) \<Rightarrow> ('a \<Rightarrow> fault + (err + 'b)) \<Rightarrow> fault + (err + 'b)" where
  "try_bind p f = (case p of Inl e \<Rightarrow> Inl e | Inr (Inl e) \<Rightarrow> Inr (Inl e) | Inr (Inr x) \<Rightarrow> f x)"

definition unwrap_none :: fault where
  "unwrap_none = Panic ''called `Option::unwrap()` on a `None` value''"

section \<open>TLS\<close>

record tls_transport =
  tl_tcp :: tcp_transport
  tl_config :: tls_config
  tl_connector :: bool
  tl_acceptor :: bool

text \<open>The connector, with a trusted root of the configuration or the system's.\<close>

definition tls_new_connector :: "transport_env \<Rightarrow> tls_config \<Rightarrow> err + unit" where
  "tls_new_connector env c =
     (case tls_trusted_root c of
        Some path \<Rightarrow>
          rbind (context_err ''Failed to read the `tls.trusted_root`'' (te_root env path)) (\<lambda>s.
          rbind (context_err ''Failed to read certificate from `tls.trusted_root`'' (te_certificate env s)) (\<lambda>_.
          te_connector env))
      | None \<Rightarrow> te_connector env)"

definition tls_new_acceptor :: "transport_env \<Rightarrow> tls_config \<Rightarrow> fault + (err + bool)" where
  "tls_new_acceptor env c =
     (case tls_pkcs12 c of
        None \<Rightarrow> Inr (Inr False)
      | Some path \<Rightarrow>
          try_bind (Inr (te_file env path)) (\<lambda>buf.
          (case tls_pkcs12_password c of
             None \<Rightarrow> Inl unwrap_none
           | Some pass \<Rightarrow>
               try_bind (Inr (context_err ''Failed to create identitiy'' (te_identity env buf pass))) (\<lambda>_.
               if te_acceptor_ok env then Inr (Inr True)
               else Inl (Panic ''called `Result::unwrap()` on an `Err` value'')))))"

definition tls_new :: "transport_env \<Rightarrow> transport_config \<Rightarrow> fault + (err + tls_transport)" where
  "tls_new env cfg =
     (case tls cfg of
        None \<Rightarrow> Inr (Inl (Msg ''Missing tls config''))
      | Some c \<Rightarrow>
          try_bind (Inr (tls_new_connector env c)) (\<lambda>_.
          try_bind (tls_new_acceptor env c) (\<lambda>acc.
          Inr (Inr \<lparr>tl_tcp = tcp_new cfg, tl_config = c, tl_connector = True, tl_acceptor = acc\<rparr>))))"

definition tls_handshake :: "tls_transport \<Rightarrow> err + unit \<Rightarrow> fault + (err + unit)" where
  "tls_handshake t accepted = (if tl_acceptor t then Inr accepted else Inl unwrap_none)"

text \<open>
  The name that the certificate of the server must have. \<open>unwrap_or\<close> evaluates its argument, so that the
  address is split even with a name in the configuration.
\<close>

definition tls_host_name :: "tls_transport \<Rightarrow> addr_maybe_cached \<Rightarrow> fault + (err + string)" where
  "tls_host_name t addr =
     (if \<not> tl_connector t then Inl unwrap_none
      else try_bind (host_port_pair (am_addr addr)) (\<lambda>hp.
        Inr (Inr (case tls_hostname (tl_config t) of Some h \<Rightarrow> h | None \<Rightarrow> fst hp))))"

definition tls_connect ::
  "tls_transport \<Rightarrow> addr_maybe_cached \<Rightarrow> fault + (err + unit) \<Rightarrow> (string \<Rightarrow> err + unit) \<Rightarrow> fault + (err + unit)" where
  "tls_connect t addr tcp_connected handshake =
     try_bind tcp_connected (\<lambda>_. try_bind (tls_host_name t addr) (\<lambda>h. Inr (handshake h)))"

section \<open>Noise\<close>

record noise_transport =
  no_tcp :: tcp_transport
  no_config :: noise_config
  no_local_private_key :: bytes
  no_remote_public_key :: "bytes option"

definition noise_new :: "transport_env \<Rightarrow> transport_config \<Rightarrow> err + noise_transport" where
  "noise_new env cfg =
     (case noise cfg of
        None \<Rightarrow> Inl (Msg ''Missing noise config'')
      | Some c \<Rightarrow>
          rbind (te_pattern env (noise_pattern c)) (\<lambda>_.
          rbind (case noise_remote_public_key c of
                   None \<Rightarrow> Inr None
                 | Some x \<Rightarrow> rbind (context_err ''Failed to decode remote_public_key'' (te_base64 env x)) (\<lambda>k. Inr (Some k))) (\<lambda>remote.
          rbind (case noise_local_private_key c of
                   Some x \<Rightarrow> context_err ''Failed to decode local_private_key'' (te_base64 env x)
                 | None \<Rightarrow> te_keypair env (noise_pattern c)) (\<lambda>local_key.
          Inr \<lparr>no_tcp = tcp_new cfg, no_config = c, no_local_private_key = local_key, no_remote_public_key = remote\<rparr>))))"

text \<open>The keys of a handshake, of either side; \<open>shake\<close> is the handshake of the library.\<close>

definition noise_builder :: "noise_transport \<Rightarrow> string \<times> bytes \<times> bytes option" where
  "noise_builder t = (noise_pattern (no_config t), no_local_private_key t, no_remote_public_key t)"

definition noise_handshake :: "noise_transport \<Rightarrow> (string \<times> bytes \<times> bytes option \<Rightarrow> err + unit) \<Rightarrow> err + unit" where
  "noise_handshake t shake = context_err ''Failed to do noise handshake'' (shake (noise_builder t))"

definition noise_connect ::
  "noise_transport \<Rightarrow> fault + (err + unit) \<Rightarrow> (string \<times> bytes \<times> bytes option \<Rightarrow> err + unit) \<Rightarrow> fault + (err + unit)" where
  "noise_connect t tcp_connected shake =
     (case tcp_connected of
        Inl f \<Rightarrow> Inl f
      | Inr r \<Rightarrow> Inr (rbind (context_err ''Failed to connect TCP socket'' r) (\<lambda>_. noise_handshake t shake)))"

section \<open>Websocket\<close>

datatype sub_transport = Sub_Secure tls_transport | Sub_Insecure tcp_transport

definition websocket_new :: "transport_env \<Rightarrow> transport_config \<Rightarrow> fault + (err + sub_transport)" where
  "websocket_new env cfg =
     (case websocket cfg of
        None \<Rightarrow> Inr (Inl (Msg ''Missing websocket config''))
      | Some c \<Rightarrow>
          if ws_tls c then try_bind (tls_new env cfg) (\<lambda>t. Inr (Inr (Sub_Secure t)))
          else Inr (Inr (Sub_Insecure (tcp_new cfg))))"

definition websocket_handshake :: "sub_transport \<Rightarrow> err + unit \<Rightarrow> err + unit \<Rightarrow> fault + (err + unit)" where
  "websocket_handshake sub accepted upgraded =
     try_bind (case sub of Sub_Insecure t \<Rightarrow> Inr (Inr ()) | Sub_Secure t \<Rightarrow> tls_handshake t accepted) (\<lambda>_. Inr upgraded)"

definition websocket_connect ::
  "transport_env \<Rightarrow> sub_transport \<Rightarrow> addr_maybe_cached \<Rightarrow> fault + (err + unit) \<Rightarrow> (string \<Rightarrow> err + unit) \<Rightarrow> bool \<Rightarrow> fault + (err + unit)" where
  "websocket_connect env sub addr tcp_connected handshake upgraded =
     (if \<not> te_url_ok env (''ws://'' @ am_addr addr) then Inl (Panic ''called `Result::unwrap()` on an `Err` value'')
      else try_bind (case sub of Sub_Insecure t \<Rightarrow> tcp_connected | Sub_Secure t \<Rightarrow> tls_connect t addr tcp_connected handshake)
        (\<lambda>_. if upgraded then Inr (Inr ()) else Inl (Panic ''not yet implemented'')))"

section \<open>The transport of a configuration\<close>

datatype transport = Tcp_T tcp_transport | Tls_T tls_transport | Noise_T noise_transport | Websocket_T sub_transport

definition transport_new :: "transport_env \<Rightarrow> transport_config \<Rightarrow> fault + (err + transport)" where
  "transport_new env cfg =
     (case transport_type cfg of
        Transport_Tcp \<Rightarrow> Inr (Inr (Tcp_T (tcp_new cfg)))
      | Transport_Tls \<Rightarrow> try_bind (tls_new env cfg) (\<lambda>t. Inr (Inr (Tls_T t)))
      | Transport_Noise \<Rightarrow> Inr (rbind (noise_new env cfg) (\<lambda>t. Inr (Noise_T t)))
      | Transport_Websocket \<Rightarrow> try_bind (websocket_new env cfg) (\<lambda>t. Inr (Inr (Websocket_T t))))"

text \<open>The handshake of the server with an accepted connection.\<close>

definition transport_handshake ::
  "transport \<Rightarrow> err + unit \<Rightarrow> (string \<times> bytes \<times> bytes option \<Rightarrow> err + unit) \<Rightarrow> err + unit \<Rightarrow> fault + (err + unit)" where
  "transport_handshake t accepted shake upgraded =
     (case t of
        Tcp_T t' \<Rightarrow> Inr (Inr ())
      | Tls_T t' \<Rightarrow> tls_handshake t' accepted
      | Noise_T t' \<Rightarrow> Inr (noise_handshake t' shake)
      | Websocket_T sub \<Rightarrow> websocket_handshake sub accepted upgraded)"

lemma try_bind_Inr:
  "try_bind p f = Inr (Inr y) \<longleftrightarrow> (\<exists>x. p = Inr (Inr x) \<and> f x = Inr (Inr y))"
  by (auto simp: try_bind_def split: sum.splits)

lemma try_bind_Inl: "try_bind p f = Inl e \<longleftrightarrow> p = Inl e \<or> (\<exists>x. p = Inr (Inr x) \<and> f x = Inl e)"
  by (auto simp: try_bind_def split: sum.splits)

lemma tls_new_fields:
  "tls_new env cfg = Inr (Inr t) \<Longrightarrow>
    \<exists>c. tls cfg = Some c \<and> tl_config t = c \<and> tl_connector t \<and> tl_acceptor t = (tls_pkcs12 c \<noteq> None)"
  by (auto simp: tls_new_def tls_new_acceptor_def try_bind_Inr split: option.splits if_splits)


definition plain_env :: transport_env where
  "plain_env = \<lparr>te_root = Inr, te_certificate = (\<lambda>_. Inr ()), te_connector = Inr (), te_file = (\<lambda>_. Inr []),
     te_identity = (\<lambda>_ _. Inr ()), te_acceptor_ok = True, te_pattern = (\<lambda>_. Inr ()), te_base64 = (\<lambda>_. Inr []),
     te_keypair = (\<lambda>_. Inr []), te_url_ok = (\<lambda>_. True)\<rparr>"

definition wss_without_identity :: transport_config where
  "wss_without_identity = default_transport_config\<lparr>transport_type := Transport_Websocket,
     tls := Some \<lparr>tls_hostname = None, tls_trusted_root = None, tls_pkcs12 = None, tls_pkcs12_password = None\<rparr>,
     websocket := Some \<lparr>ws_tls = True\<rparr>\<rparr>"


text \<open>
  A transport is built with a panic exactly for an identity without a password whose file is there, or
  one that the library refuses after it has parsed it; TCP and noise never panic.
\<close>

theorem transport_new_panics:
  assumes "transport_new env cfg = Inl f"
  shows "\<exists>c path. tls cfg = Some c \<and> tls_pkcs12 c = Some path \<and> (tls_pkcs12_password c = None \<or> \<not> te_acceptor_ok env)
    \<and> (transport_type cfg = Transport_Tls \<or> transport_type cfg = Transport_Websocket)"
  using assms
  by (cases "transport_type cfg")
    (auto simp: transport_new_def websocket_new_def tls_new_def tls_new_acceptor_def try_bind_Inl split: option.splits if_splits)

end
