(* ===== verification/Websocket.thy ===== *)
theory Websocket
  imports Conn
begin

text \<open>
  The websocket transport of \<open>src/rathole/src/transport/websocket.rs\<close>: a byte stream over frames.
  \<open>Binary\<close> frames carry the bytes, any other frame is an error of the reader. Reading goes through a
  \<open>StreamReader\<close>, which by its documentation hands out the chunks of the stream one after the other.
  The last section proves that it is the byte stream that the protocol assumes.
\<close>

section \<open>Frames\<close>

datatype frame = Binary bytes | Text_Frame string | Control_Frame

datatype ws_item = Frame frame | Ws_Error string

text \<open>\<open>StreamWrapper::poll_next\<close>: the next item, \<open>None\<close> at the end of the stream.\<close>

fun poll_next :: "ws_item list \<Rightarrow> (string + bytes) option \<times> ws_item list" where
  "poll_next [] = (None, [])"
| "poll_next (Ws_Error e # xs) = (Some (Inl e), xs)"
| "poll_next (Frame (Binary b) # xs) = (Some (Inr b), xs)"
| "poll_next (Frame f # xs) = (Some (Inl ''unexpected frame''), xs)"

section \<open>Reading\<close>

record ws_tunnel =
  ws_chunk :: bytes
  ws_items :: "ws_item list"

text \<open>\<open>poll_fill_buf\<close>: a chunk with bytes in it, nothing at the end of the stream.\<close>

fun fill_buf :: "ws_item list \<Rightarrow> (string + bytes) \<times> ws_item list" where
  "fill_buf [] = (Inr [], [])"
| "fill_buf (x # xs) =
     (case fst (poll_next (x # xs)) of
        Some (Inr []) \<Rightarrow> fill_buf xs
      | Some r \<Rightarrow> (r, xs)
      | None \<Rightarrow> (Inr [], xs))"

text \<open>\<open>poll_read\<close> into a buffer of \<open>n\<close> bytes.\<close>

definition ws_read :: "nat \<Rightarrow> ws_tunnel \<Rightarrow> (string + bytes) \<times> ws_tunnel" where
  "ws_read n t =
     (case (if ws_chunk t = [] then fill_buf (ws_items t) else (Inr (ws_chunk t), ws_items t)) of
        (Inl e, xs) \<Rightarrow> (Inl e, \<lparr>ws_chunk = [], ws_items = xs\<rparr>)
      | (Inr b, xs) \<Rightarrow> (Inr (take n b), \<lparr>ws_chunk = drop n b, ws_items = xs\<rparr>))"

text \<open>\<open>read_exact\<close> reads until it has all bytes; a read of nothing is the end of the stream.\<close>

function ws_read_exact :: "nat \<Rightarrow> ws_tunnel \<Rightarrow> (err + bytes) \<times> ws_tunnel" where
  "ws_read_exact n t =
     (if n = 0 then (Inr [], t)
      else case ws_read n t of
             (Inl e, t') \<Rightarrow> (Inl (Io e), t')
           | (Inr [], t') \<Rightarrow> (Inl (Io ''early eof''), t')
           | (Inr (b # bs), t') \<Rightarrow>
               (case ws_read_exact (n - length (b # bs)) t' of
                  (Inl e, t'') \<Rightarrow> (Inl e, t'')
                | (Inr cs, t'') \<Rightarrow> (Inr ((b # bs) @ cs), t'')))"
  by pat_completeness auto

termination by (relation "measure (\<lambda>(n, t). n)") auto

declare ws_read_exact.simps [simp del]

section \<open>Writing\<close>

text \<open>\<open>poll_write\<close> makes one frame of the whole buffer; \<open>None\<close> stands for an error of the sink.\<close>

definition ws_write :: "bool \<Rightarrow> bytes \<Rightarrow> frame list \<Rightarrow> (nat \<times> frame list) option" where
  "ws_write ok buf out = (if ok then Some (length buf, out @ [Binary buf]) else None)"

text \<open>\<open>write_all\<close>: nothing to do for no bytes.\<close>

definition ws_write_all :: "bool \<Rightarrow> bytes \<Rightarrow> frame list \<Rightarrow> (err + unit) \<times> frame list" where
  "ws_write_all ok buf out =
     (if buf = [] then (Inr (), out)
      else case ws_write ok buf out of None \<Rightarrow> (Inl (Io ''websocket''), out) | Some (n, out') \<Rightarrow> (Inr (), out'))"

definition send_text :: "bool \<Rightarrow> string \<Rightarrow> frame list \<Rightarrow> (err + unit) \<times> frame list" where
  "send_text ok s out = (if ok then (Inr (), out @ [Text_Frame s]) else (Inl (Io ''websocket''), out))"

text \<open>
  \<open>poll_flush\<close> sends nothing of its own, since every write has sent its frame; \<open>poll_shutdown\<close> closes
  the websocket, which sends the peer a close frame.
\<close>

definition ws_flush :: "bool \<Rightarrow> frame list \<Rightarrow> (err + unit) \<times> frame list" where
  "ws_flush ok out = (if ok then Inr () else Inl (Io ''websocket''), out)"

definition ws_shutdown :: "bool \<Rightarrow> frame list \<Rightarrow> (err + unit) \<times> frame list" where
  "ws_shutdown ok out = (if ok then (Inr (), out @ [Control_Frame]) else (Inl (Io ''websocket''), out))"

fun ws_writes :: "bytes list \<Rightarrow> frame list \<Rightarrow> frame list" where
  "ws_writes [] out = out"
| "ws_writes (b # bs) out = ws_writes bs (snd (ws_write_all True b out))"

section \<open>The byte stream behind the frames\<close>

text \<open>The bytes up to the first item that is not binary, and whether there is one.\<close>

fun payload :: "ws_item list \<Rightarrow> bytes" where
  "payload (Frame (Binary b) # xs) = b @ payload xs"
| "payload xs = []"

definition ws_bytes :: "ws_tunnel \<Rightarrow> bytes" where
  "ws_bytes t = ws_chunk t @ payload (ws_items t)"

fun first_error :: "ws_item list \<Rightarrow> string option" where
  "first_error [] = None"
| "first_error (Ws_Error e # xs) = Some e"
| "first_error (Frame (Binary b) # xs) = first_error xs"
| "first_error (Frame f # xs) = Some ''unexpected frame''"

text \<open>What a reader of \<open>n\<close> bytes gets, from the bytes and the error alone.\<close>

lemma fill_buf_spec:
  "case fill_buf xs of
     (Inl e, ys) \<Rightarrow> payload xs = [] \<and> first_error xs = Some e
   | (Inr b, ys) \<Rightarrow> payload xs = b @ payload ys \<and> first_error xs = first_error ys
       \<and> (b = [] \<longrightarrow> payload xs = [] \<and> first_error xs = None)"
proof (induction xs rule: fill_buf.induct)
  case (2 x xs)
  show ?case
  proof (cases x)
    case (Frame f)
    show ?thesis
    proof (cases f)
      case (Binary b)
      show ?thesis
      proof (cases b)
        case Nil
        obtain q ys where q: "fill_buf xs = (q, ys)" by (cases "fill_buf xs")
        have e: "fill_buf (x # xs) = (q, ys)" "payload (x # xs) = payload xs" "first_error (x # xs) = first_error xs"
          using Frame Binary Nil q by simp_all
        have "fst (poll_next (x # xs)) = Some (Inr [])" using Frame Binary Nil by simp
        from 2 [OF this refl refl] show ?thesis unfolding e using q by simp
      next
        case (Cons c cs)
        with Frame Binary show ?thesis by simp
      qed
    qed (simp_all add: Frame)
  qed simp
qed simp

lemma ws_read_spec:
  assumes "0 < n"
  shows "case ws_read n t of
     (Inl e, t') \<Rightarrow> ws_bytes t = [] \<and> first_error (ws_items t) = Some e
   | (Inr b, t') \<Rightarrow> ws_bytes t = b @ ws_bytes t' \<and> first_error (ws_items t') = first_error (ws_items t) \<and> length b \<le> n
       \<and> (b = [] \<longrightarrow> ws_bytes t = [] \<and> first_error (ws_items t) = None)"
  using assms fill_buf_spec [of "ws_items t"]
  by (auto simp: ws_read_def ws_bytes_def split: prod.splits sum.splits if_splits)

lemma ws_read_exact_spec:
  "case ws_read_exact n t of
     (Inl e, t') \<Rightarrow> length (ws_bytes t) < n
       \<and> e = Io (case first_error (ws_items t) of None \<Rightarrow> ''early eof'' | Some s \<Rightarrow> s)
   | (Inr bs, t') \<Rightarrow> length bs = n \<and> ws_bytes t = bs @ ws_bytes t' \<and> first_error (ws_items t') = first_error (ws_items t)"
proof (induction n t rule: ws_read_exact.induct)
  case (1 n t)
  show ?case
  proof (cases "n = 0")
    case False
    then have n: "0 < n" by simp
    obtain r t' where r: "ws_read n t = (r, t')" by (cases "ws_read n t")
    show ?thesis
    proof (cases r)
      case (Inl e)
      with ws_read_spec [OF n, where t = t] n r show ?thesis by (simp add: ws_read_exact.simps [of n t])
    next
      case (Inr bs)
      show ?thesis
      proof (cases bs)
        case Nil
        have "ws_bytes t = []" "first_error (ws_items t) = None"
          using ws_read_spec [OF n, where t = t] r Inr Nil by (auto dest: sym)
        with n r Inr Nil show ?thesis by (simp add: ws_read_exact.simps [of n t])
      next
        case (Cons b bs')
        obtain q t'' where q: "ws_read_exact (n - length (b # bs')) t' = (q, t'')"
          by (cases "ws_read_exact (n - length (b # bs')) t'")
        have s: "ws_bytes t = (b # bs') @ ws_bytes t'" "first_error (ws_items t') = first_error (ws_items t)"
          "length (b # bs') \<le> n"
          using ws_read_spec [OF n, where t = t] r Inr Cons by auto
        from 1 [OF _ r [symmetric, unfolded Inr Cons] refl refl] n q
        have "case q of
            Inl e \<Rightarrow> length (ws_bytes t') < n - length (b # bs')
              \<and> e = Io (case first_error (ws_items t') of None \<Rightarrow> ''early eof'' | Some s \<Rightarrow> s)
          | Inr cs \<Rightarrow> length cs = n - length (b # bs') \<and> ws_bytes t' = cs @ ws_bytes t''
              \<and> first_error (ws_items t'') = first_error (ws_items t')"
          by (cases q) auto
        with n r q Inr Cons s show ?thesis
          by (cases q) (auto simp: ws_read_exact.simps [of n t])
      qed
    qed
  next
    case True
    then show ?thesis by (simp add: ws_read_exact.simps [of 0 t])
  qed
qed

text \<open>
  Reading over a websocket is reading the bytes of its binary frames: \<open>read_exact\<close> with its loop
  over chunks gives, on every sequence of frames and for every length, what one \<open>read_exact\<close> on the
  concatenated payload gives, whatever the boundaries of the frames, empty frames included.
\<close>

theorem websocket_read_equals_stream_read:
  assumes "first_error (ws_items t) = None" "inp c = ws_bytes t"
  shows "fst (ws_read_exact n t) = fst (read_exact n c)
    \<and> (\<forall>bs. fst (ws_read_exact n t) = Inr bs \<longrightarrow>
        ws_bytes (snd (ws_read_exact n t)) = inp (snd (read_exact n c)) \<and> first_error (ws_items (snd (ws_read_exact n t))) = None)"
proof -
  obtain r t' where r: "ws_read_exact n t = (r, t')" by (cases "ws_read_exact n t")
  show ?thesis
    using ws_read_exact_spec [where n = n and t = t] assms r by (cases r) (auto simp: read_exact_def)
qed

theorem websocket_read_equals_stream_read_witness:
  "fst (ws_read_exact 3 \<lparr>ws_chunk = [], ws_items = [Frame (Binary [1, 2]), Frame (Binary []), Frame (Binary [3, 4])]\<rparr>) = Inr [1, 2, 3]"
  using websocket_read_equals_stream_read [of "\<lparr>ws_chunk = [], ws_items = [Frame (Binary [1, 2]), Frame (Binary []), Frame (Binary [3, 4])]\<rparr>"
      "fresh_conn [1, 2, 3, 4]" 3]
  by (simp add: ws_bytes_def fresh_conn_def read_exact_def)

section \<open>Both ends\<close>

lemma ws_write_all_ok: "snd (ws_write_all True b out) = out @ (if b = [] then [] else [Binary b])"
  by (simp add: ws_write_all_def ws_write_def)

lemma ws_writes_frames: "ws_writes bss out = out @ map Binary (filter (\<lambda>b. b \<noteq> []) bss)"
  by (induction bss arbitrary: out) (simp_all add: ws_write_all_ok)

lemma payload_binary: "payload (map (Frame \<circ> Binary) bss @ xs) = concat bss @ payload xs"
  by (induction bss) simp_all

lemma first_error_binary: "first_error (map (Frame \<circ> Binary) bss @ xs) = first_error xs"
  by (induction bss) simp_all

lemma concat_nonempty: "concat (filter (\<lambda>b. b \<noteq> []) bss) = concat bss"
  by (induction bss) simp_all

lemma written_stream:
  "ws_bytes \<lparr>ws_chunk = [], ws_items = map Frame (ws_writes bss []) @ xs\<rparr> = concat bss @ payload xs
    \<and> first_error (map Frame (ws_writes bss []) @ xs) = first_error xs"
  using payload_binary [of "filter (\<lambda>b. b \<noteq> []) bss" xs] first_error_binary [of "filter (\<lambda>b. b \<noteq> []) bss" xs]
  by (simp add: ws_bytes_def ws_writes_frames concat_nonempty)

fun ws_reads :: "nat list \<Rightarrow> ws_tunnel \<Rightarrow> (err + bytes) list" where
  "ws_reads [] t = []"
| "ws_reads (n # ns) t =
     (case ws_read_exact n t of (Inl e, t') \<Rightarrow> [Inl e] | (Inr bs, t') \<Rightarrow> Inr bs # ws_reads ns t')"

fun conn_reads :: "nat list \<Rightarrow> conn \<Rightarrow> (err + bytes) list" where
  "conn_reads [] c = []"
| "conn_reads (n # ns) c =
     (case read_exact n c of (Inl e, c') \<Rightarrow> [Inl e] | (Inr bs, c') \<Rightarrow> Inr bs # conn_reads ns c')"

lemma ws_reads_conn:
  "first_error (ws_items t) = None \<Longrightarrow> inp c = ws_bytes t \<Longrightarrow> ws_reads ns t = conn_reads ns c"
proof (induction ns arbitrary: t c)
  case (Cons n ns)
  obtain r t' where r: "ws_read_exact n t = (r, t')" by (cases "ws_read_exact n t")
  obtain r' c' where r': "read_exact n c = (r', c')" by (cases "read_exact n c")
  have "fst (ws_read_exact n t) = fst (read_exact n c)" and
    "\<And>bs. fst (ws_read_exact n t) = Inr bs \<Longrightarrow>
        ws_bytes (snd (ws_read_exact n t)) = inp (snd (read_exact n c)) \<and> first_error (ws_items (snd (ws_read_exact n t))) = None"
    using ws_read_exact_spec [where n = n and t = t] Cons.prems r r' by (cases r; auto simp: read_exact_def)+
  with r r' Cons.IH [of t' c'] show ?case by (cases r) auto
qed simp


lemma text_frame_breaks:
  assumes "ws_read_exact n \<lparr>ws_chunk = [], ws_items = map Frame (snd (send_text True s (ws_writes bss [])) @ rest)\<rparr> = (r, t)"
  shows "r = (if n \<le> length (concat bss) then Inr (take n (concat bss)) else Inl (Io ''unexpected frame''))"
proof -
  let ?t = "\<lparr>ws_chunk = [], ws_items = map Frame (snd (send_text True s (ws_writes bss [])) @ rest)\<rparr>"
  have b: "ws_bytes ?t = concat bss" "first_error (ws_items ?t) = Some ''unexpected frame''"
    using written_stream [of bss "Frame (Text_Frame s) # map Frame rest"]
    by (simp_all add: send_text_def)
  have "case r of
     Inl e \<Rightarrow> length (concat bss) < n \<and> e = Io ''unexpected frame''
   | Inr bs \<Rightarrow> length bs = n \<and> concat bss = bs @ ws_bytes t"
    using ws_read_exact_spec [where n = n and t = ?t] unfolding assms b by (cases r) simp_all
  then show ?thesis
  proof (cases r)
    case (Inr bs)
    with \<open>case r of Inl e \<Rightarrow> _ e | Inr bs \<Rightarrow> _ bs\<close> have *: "length bs = n" "concat bss = bs @ ws_bytes t" by simp_all
    then have "n \<le> length (concat bss)" "take n (concat bss) = bs" by simp_all
    then show ?thesis by (simp add: Inr)
  qed simp
qed

text \<open>
  A frame that is not binary ends the stream: a control message, which this transport sends as text,
  or a ping lets the reader have the bytes written before it, and the read that needs more fails, however
  many bytes come after.
\<close>

theorem text_frame_ends_stream:
  assumes "ws_read_exact n \<lparr>ws_chunk = [], ws_items = map Frame (snd (send_text True s (ws_writes bss [])) @ map Binary rest)\<rparr> = (r, t)"
  shows "r = (if n \<le> length (concat bss) then Inr (take n (concat bss)) else Inl (Io ''unexpected frame''))"
  by (rule text_frame_breaks [OF assms])

theorem text_frame_ends_stream_witness:
  "fst (ws_read_exact 2 \<lparr>ws_chunk = [], ws_items = map Frame (snd (send_text True ''{}'' (ws_writes [[1]] [])) @ map Binary [[2]])\<rparr>)
    = Inl (Io ''unexpected frame'')"
proof -
  obtain r t where "ws_read_exact 2 \<lparr>ws_chunk = [], ws_items = map Frame (snd (send_text True ''{}'' (ws_writes [[1]] [])) @ map Binary [[2]])\<rparr> = (r, t)"
    by (metis surj_pair)
  with text_frame_ends_stream [OF this] show ?thesis by simp
qed

text \<open>
  A websocket that is shut down in good order does not end its byte stream: the peer reads all bytes
  that were written, and then an error, as the close frame is not binary; over a plain connection, and
  when the websocket is gone without the frame, it reads the end of the stream.
\<close>

theorem closed_websocket_is_an_error:
  "(\<exists>t. ws_read_exact (length (concat bss)) \<lparr>ws_chunk = [], ws_items = map Frame (snd (ws_shutdown True (ws_writes bss [])))\<rparr>
      = (Inr (concat bss), t) \<and> fst (ws_read (Suc n) t) = Inl ''unexpected frame'') \<and>
   (\<exists>t. ws_read_exact (length (concat bss)) \<lparr>ws_chunk = [], ws_items = map Frame (ws_writes bss [])\<rparr>
      = (Inr (concat bss), t) \<and> fst (ws_read (Suc n) t) = Inr [])"
proof -
  have all: "\<exists>t. ws_read_exact (length (concat bss)) \<lparr>ws_chunk = [], ws_items = map Frame (ws_writes bss []) @ xs\<rparr>
      = (Inr (concat bss), t) \<and> ws_bytes t = [] \<and> first_error (ws_items t) = first_error xs"
    if "payload xs = []" for xs
  proof -
    let ?t = "\<lparr>ws_chunk = [], ws_items = map Frame (ws_writes bss []) @ xs\<rparr>"
    have b: "ws_bytes ?t = concat bss" "first_error (ws_items ?t) = first_error xs"
      using written_stream [of bss xs] that by simp_all
    obtain r t where r: "ws_read_exact (length (concat bss)) ?t = (r, t)"
      by (cases "ws_read_exact (length (concat bss)) ?t")
    show ?thesis
      using ws_read_exact_spec [where n = "length (concat bss)" and t = ?t] unfolding r b by (cases r) auto
  qed
  have e: "fst (ws_read (Suc n) t) = (case first_error (ws_items t) of None \<Rightarrow> Inr [] | Some e \<Rightarrow> Inl e)"
    if "ws_bytes t = []" for t
    using ws_read_spec [of "Suc n" t] that by (auto split: prod.splits sum.splits)
  with all [of "[Frame Control_Frame]"] have "\<exists>t. ws_read_exact (length (concat bss))
      \<lparr>ws_chunk = [], ws_items = map Frame (snd (ws_shutdown True (ws_writes bss [])))\<rparr>
      = (Inr (concat bss), t) \<and> fst (ws_read (Suc n) t) = Inl ''unexpected frame''"
    by (fastforce simp: ws_shutdown_def)
  moreover from e all [of "[]"] have "\<exists>t. ws_read_exact (length (concat bss))
      \<lparr>ws_chunk = [], ws_items = map Frame (ws_writes bss [])\<rparr> = (Inr (concat bss), t) \<and> fst (ws_read (Suc n) t) = Inr []"
    by fastforce
  ultimately show ?thesis by blast
qed

end
