(* ===== verification/Transport_Stack.thy ===== *)
theory Transport_Stack
  imports Secure_Transport Websocket Routing
begin

text \<open>
  What the transports of \<open>src/rathole/src/transport/\<close> share: listening, accepting, socket options and
  control messages, each by way of the transport underneath; and the TLS transport of
  \<open>transport/rustls.rs\<close>, the alternative to the one of the default build.
\<close>

section \<open>What is compiled in\<close>

text \<open>
  The features of the crate that decide which branches of the \<open>match\<close> over the transport in \<open>run_server\<close>
  and \<open>run_client\<close> exist; for the others the program panics. The features \<open>rustls\<close> and \<open>websocket-rustls\<close>
  are not among them, as a build with them does not compile (see the last section).
\<close>

record features =
  ft_native_tls :: bool
  ft_noise :: bool
  ft_websocket_native_tls :: bool

definition feature_not_compile :: "string \<Rightarrow> fault" where
  "feature_not_compile f =
     Panic (''The feature '' @ f @ '' is not compiled in this binary. Please re-compile rathole'')"

definition feature_neither_compile :: "string \<Rightarrow> string \<Rightarrow> fault" where
  "feature_neither_compile f g =
     Panic (''Neither of the feature '' @ f @ '' or '' @ g @ '' is compiled in this binary. Please re-compile rathole'')"

definition compiled_transport :: "features \<Rightarrow> transport_env \<Rightarrow> transport_config \<Rightarrow> fault + (err + transport)" where
  "compiled_transport ft env cfg =
     (case transport_type cfg of
        Transport_Tcp \<Rightarrow> transport_new env cfg
      | Transport_Tls \<Rightarrow>
          if ft_native_tls ft then transport_new env cfg
          else Inl (feature_neither_compile ''native-tls'' ''rustls'')
      | Transport_Noise \<Rightarrow>
          if ft_noise ft then transport_new env cfg else Inl (feature_not_compile ''noise'')
      | Transport_Websocket \<Rightarrow>
          if ft_websocket_native_tls ft then transport_new env cfg
          else Inl (feature_neither_compile ''websocket-native-tls'' ''websocket-rustls''))"

definition default_features :: features where
  "default_features = \<lparr>ft_native_tls = True, ft_noise = True, ft_websocket_native_tls = True\<rparr>"

lemma default_features_compile: "compiled_transport default_features env cfg = transport_new env cfg"
  by (simp add: compiled_transport_def default_features_def split: transport_type.split)

section \<open>Listening and accepting\<close>

text \<open>The trait's \<open>bind\<close>, from the result of the system's.\<close>

definition transport_bind :: "transport \<Rightarrow> err + unit \<Rightarrow> err + unit" where
  "transport_bind t bound =
     (case t of
        Tls_T t' \<Rightarrow> context_err ''Failed to create tcp listener'' bound
      | _ \<Rightarrow> bound)"

text \<open>\<open>accept\<close> of a transport, from the connection or the error the listener gives.\<close>

definition tls_accept ::
  "bool \<Rightarrow> bool \<Rightarrow> tls_transport \<Rightarrow> err + tcp_stream \<times> socket_addr \<Rightarrow> err + tcp_stream \<times> socket_addr" where
  "tls_accept keepalive_ok nodelay_ok t accepted =
     context_err ''Failed to accept TCP connection'' (tcp_accept keepalive_ok nodelay_ok (tl_tcp t) accepted)"

definition noise_accept ::
  "bool \<Rightarrow> bool \<Rightarrow> noise_transport \<Rightarrow> err + tcp_stream \<times> socket_addr \<Rightarrow> err + tcp_stream \<times> socket_addr" where
  "noise_accept keepalive_ok nodelay_ok t accepted =
     context_err ''Failed to accept TCP connection'' (tcp_accept keepalive_ok nodelay_ok (no_tcp t) accepted)"

definition websocket_accept ::
  "bool \<Rightarrow> bool \<Rightarrow> sub_transport \<Rightarrow> err + tcp_stream \<times> socket_addr \<Rightarrow> err + tcp_stream \<times> socket_addr" where
  "websocket_accept keepalive_ok nodelay_ok sub accepted =
     (case sub of
        Sub_Insecure t \<Rightarrow> tcp_accept keepalive_ok nodelay_ok t accepted
      | Sub_Secure t \<Rightarrow> tls_accept keepalive_ok nodelay_ok t accepted)"

definition transport_accept ::
  "bool \<Rightarrow> bool \<Rightarrow> transport \<Rightarrow> err + tcp_stream \<times> socket_addr \<Rightarrow> err + tcp_stream \<times> socket_addr" where
  "transport_accept keepalive_ok nodelay_ok t accepted =
     (case t of
        Tcp_T t' \<Rightarrow> tcp_accept keepalive_ok nodelay_ok t' accepted
      | Tls_T t' \<Rightarrow> tls_accept keepalive_ok nodelay_ok t' accepted
      | Noise_T t' \<Rightarrow> noise_accept keepalive_ok nodelay_ok t' accepted
      | Websocket_T sub \<Rightarrow> websocket_accept keepalive_ok nodelay_ok sub accepted)"

section \<open>Streams\<close>

text \<open>
  The streams by what is under them; the TLS and noise layers keep the TCP stream inside. \<open>hint\<close> goes
  through all layers to that stream.
\<close>

datatype 'tls ws_inner = Insecure_Stream tcp_stream | Secure_Stream 'tls

datatype ('tls, 'noise) stream =
    Tcp_Stream tcp_stream
  | Tls_Stream 'tls
  | Noise_Stream 'noise
  | Websocket_Stream "'tls ws_inner"

record ('tls, 'noise) layers =
  ly_tls :: "(tcp_stream \<Rightarrow> tcp_stream) \<Rightarrow> 'tls \<Rightarrow> 'tls"
  ly_tls_tcp :: "'tls \<Rightarrow> tcp_stream"
  ly_noise :: "(tcp_stream \<Rightarrow> tcp_stream) \<Rightarrow> 'noise \<Rightarrow> 'noise"
  ly_noise_tcp :: "'noise \<Rightarrow> tcp_stream"

definition get_tcpstream :: "('tls, 'noise) layers \<Rightarrow> 'tls ws_inner \<Rightarrow> tcp_stream" where
  "get_tcpstream L s = (case s of Insecure_Stream t \<Rightarrow> t | Secure_Stream t \<Rightarrow> ly_tls_tcp L t)"

text \<open>Reads, writes, flushes and shutdowns of the inner stream of a websocket go to the one it is.\<close>

definition ws_inner_do :: "(tcp_stream \<Rightarrow> 'r \<times> tcp_stream) \<Rightarrow> ('tls \<Rightarrow> 'r \<times> 'tls) \<Rightarrow> 'tls ws_inner \<Rightarrow> 'r \<times> 'tls ws_inner" where
  "ws_inner_do on_tcp on_tls s =
     (case s of
        Insecure_Stream t \<Rightarrow> (case on_tcp t of (r, t') \<Rightarrow> (r, Insecure_Stream t'))
      | Secure_Stream t \<Rightarrow> (case on_tls t of (r, t') \<Rightarrow> (r, Secure_Stream t')))"

definition stream_tcp :: "('tls, 'noise) layers \<Rightarrow> ('tls, 'noise) stream \<Rightarrow> tcp_stream" where
  "stream_tcp L s =
     (case s of
        Tcp_Stream t \<Rightarrow> t
      | Tls_Stream t \<Rightarrow> ly_tls_tcp L t
      | Noise_Stream t \<Rightarrow> ly_noise_tcp L t
      | Websocket_Stream t \<Rightarrow> get_tcpstream L t)"

definition transport_hint ::
  "('tls, 'noise) layers \<Rightarrow> bool \<Rightarrow> bool \<Rightarrow> socket_opts \<Rightarrow> ('tls, 'noise) stream \<Rightarrow> ('tls, 'noise) stream" where
  "transport_hint L keepalive_ok nodelay_ok opt s =
     (let hint = tcp_hint keepalive_ok nodelay_ok opt
      in case s of
           Tcp_Stream t \<Rightarrow> Tcp_Stream (hint t)
         | Tls_Stream t \<Rightarrow> Tls_Stream (ly_tls L hint t)
         | Noise_Stream t \<Rightarrow> Noise_Stream (ly_noise L hint t)
         | Websocket_Stream (Insecure_Stream t) \<Rightarrow> Websocket_Stream (Insecure_Stream (hint t))
         | Websocket_Stream (Secure_Stream t) \<Rightarrow> Websocket_Stream (Secure_Stream (ly_tls L hint t)))"

text \<open>What the layers of the libraries promise: the TCP stream inside is the one they were put on.\<close>

locale stream_layers =
  fixes L :: "('tls, 'noise) layers"
  assumes tls_inside: "ly_tls_tcp L (ly_tls L f t) = f (ly_tls_tcp L t)"
    and noise_inside: "ly_noise_tcp L (ly_noise L f u) = f (ly_noise_tcp L u)"
begin

lemma hint_reaches_tcp: "stream_tcp L (transport_hint L k n opt s) = tcp_hint k n opt (stream_tcp L s)"
  by (simp add: stream_tcp_def transport_hint_def get_tcpstream_def Let_def tls_inside noise_inside
      split: stream.split ws_inner.split)

end

text \<open>Layers that add nothing, as an instance.\<close>

definition thin_layers :: "(tcp_stream, tcp_stream) layers" where
  "thin_layers = \<lparr>ly_tls = \<lambda>f. f, ly_tls_tcp = \<lambda>t. t, ly_noise = \<lambda>f. f, ly_noise_tcp = \<lambda>t. t\<rparr>"

interpretation thin: stream_layers thin_layers
  by unfold_locales (simp_all add: thin_layers_def)

text \<open>The TCP configuration below each transport is that of its configuration.\<close>

lemma accept_options:
  assumes "transport_new env cfg = Inr (Inr t)" "transport_accept k n t accepted = Inr (s, a)"
  shows "tcp_accept k n (tcp_new cfg) accepted = Inr (s, a)"
proof -
  have tls: "tl_tcp t' = tcp_new cfg" if "tls_new env cfg = Inr (Inr t')" for t'
    using that by (auto simp: tls_new_def try_bind_Inr split: option.splits)
  have noise: "no_tcp t' = tcp_new cfg" if "noise_new env cfg = Inr t'" for t'
    using that by (auto simp: noise_new_def rbind_eq_Inr split: option.splits)
  show ?thesis
    using assms
    by (cases "transport_type cfg")
      (auto simp: transport_new_def transport_accept_def websocket_new_def websocket_accept_def tls_accept_def noise_accept_def
        context_err_def try_bind_Inr rbind_eq_Inr tls noise split: sum.splits option.splits if_splits)
qed

text \<open>
  Whatever the transport, a connection that the server accepts and then hints has exactly the socket
  options of the configuration: keepalive of the transport, no delay for a control channel, and the
  setting of the service, or else of the transport, for a data channel.
\<close>

theorem accepted_connection_options:
  assumes "stream_layers L" and "transport_new env cfg = Inr (Inr t)"
    and "transport_accept True True t accepted = Inr (stream_tcp L st, a)"
    and "opt \<in> {for_control_channel, from_client_cfg cs, from_server_cfg ss}"
  shows "stream_tcp L (transport_hint L True True opt st) = hinted (tcp cfg) opt"
  using connection_options [OF assms(4), of cfg accepted "stream_tcp L st" a] accept_options [OF assms(2,3)]
    stream_layers.hint_reaches_tcp [OF assms(1)] by simp

definition noisy_cfg :: transport_config where
  "noisy_cfg = default_transport_config\<lparr>transport_type := Transport_Noise,
     noise := Some \<lparr>noise_pattern = ''Noise_NK_25519_ChaChaPoly_BLAKE2s'', noise_local_private_key = None,
       noise_remote_public_key = None\<rparr>\<rparr>"

definition raw_tcp :: tcp_stream where
  "raw_tcp = \<lparr>ts_nodelay = False, ts_keepalive = None\<rparr>"

theorem accepted_connection_options_witness:
  "stream_tcp thin_layers (transport_hint thin_layers True True for_control_channel
     (Noise_Stream (apply_opts True True (from_cfg (tcp noisy_cfg)) raw_tcp))) = hinted (tcp noisy_cfg) for_control_channel"
proof -
  obtain t where t: "transport_new plain_env noisy_cfg = Inr (Inr (Noise_T t))" "no_tcp t = tcp_new noisy_cfg"
    by (simp add: transport_new_def noise_new_def noisy_cfg_def plain_env_def try_bind_def default_transport_config_def)
  have "transport_accept True True (Noise_T t) (Inr (raw_tcp, V4 0 0)) =
      Inr (stream_tcp thin_layers (Noise_Stream (apply_opts True True (from_cfg (tcp noisy_cfg)) raw_tcp)), V4 0 0)"
    using t(2) by (simp add: transport_accept_def noise_accept_def tcp_accept_def context_err_def stream_tcp_def thin_layers_def
        tcp_new_def)
  from accepted_connection_options [OF thin.stream_layers_axioms t(1) this] show ?thesis by simp
qed

section \<open>Control messages\<close>

text \<open>
  \<open>send_control_message\<close>: the JSON text, as bytes without a length over TCP, TLS and noise, and as a text
  frame over a websocket. A message that cannot be encoded is an error and sends nothing.
\<close>

definition send_control_message :: "(control_message \<Rightarrow> string option) \<Rightarrow> control_message \<Rightarrow> (conn, unit) act" where
  "send_control_message json m =
     (case json m of
        None \<Rightarrow> act_fail (Msg ''json'')
      | Some s \<Rightarrow> write_all (as_bytes s))"

definition ws_send_control_message ::
  "(control_message \<Rightarrow> string option) \<Rightarrow> bool \<Rightarrow> control_message \<Rightarrow> frame list \<Rightarrow> (err + unit) \<times> frame list" where
  "ws_send_control_message json ok m out =
     (case json m of
        None \<Rightarrow> (Inl (Msg ''json''), out)
      | Some s \<Rightarrow> send_text ok s out)"

text \<open>
  The two kinds of transport do not agree on what the peer sees: after the bytes of a stream come those
  of the report, but over a websocket the stream is broken there.
\<close>

lemma control_message_on_stream:
  "json m = Some s \<Longrightarrow> room c = None \<Longrightarrow>
    send_control_message json m c = (Inr (), c\<lparr>sent := sent c @ as_bytes s\<rparr>)"
  by (simp add: send_control_message_def)

lemma control_message_on_websocket:
  assumes "json m = Some s"
    and "ws_read_exact n \<lparr>ws_chunk = [], ws_items = map Frame (snd (ws_send_control_message json True m (ws_writes bss [])))\<rparr> = (r, t)"
  shows "r = (if n \<le> length (concat bss) then Inr (take n (concat bss)) else Inl (Io ''unexpected frame''))"
  using text_frame_breaks [of n s bss "[]" r t] assms by (simp add: ws_send_control_message_def)

section \<open>TLS by rustls\<close>

text \<open>
  Files, the parsers of PEM and PKCS12, the certificates of the system and the checks of the library. A
  PEM file gives its certificates one after the other, each parsed or not.
\<close>

record rustls_env =
  ru_read :: "string \<Rightarrow> err + bytes"
  ru_pfx :: "bytes \<Rightarrow> err + unit"
  ru_cert_bags :: "bytes \<Rightarrow> string \<Rightarrow> err + bytes list"
  ru_key_bags :: "bytes \<Rightarrow> string \<Rightarrow> err + bytes list"
  ru_single_cert :: "bytes list \<Rightarrow> bytes \<Rightarrow> err + unit"
  ru_open :: "string \<Rightarrow> err + (err + bytes) list"
  ru_native_certs :: "err + bytes list"
  ru_add_root :: "bytes \<Rightarrow> bool"
  ru_server_name :: "string \<Rightarrow> err + unit"

definition unwrap_err :: fault where
  "unwrap_err = Panic ''called `Result::unwrap()` on an `Err` value''"

text \<open>The identity of a server: chain and key.\<close>

definition load_server_config :: "rustls_env \<Rightarrow> tls_config \<Rightarrow> fault + (err + (bytes list \<times> bytes) option)" where
  "load_server_config env c =
     (case tls_pkcs12 c of
        None \<Rightarrow> Inr (Inr None)
      | Some path \<Rightarrow>
          try_bind (Inr (ru_read env path)) (\<lambda>buf.
          try_bind (Inr (ru_pfx env buf)) (\<lambda>_.
          case tls_pkcs12_password c of
            None \<Rightarrow> Inl unwrap_none
          | Some pass \<Rightarrow>
              try_bind (Inr (ru_cert_bags env buf pass)) (\<lambda>certs.
              try_bind (Inr (ru_key_bags env buf pass)) (\<lambda>keys.
              case keys of
                [] \<Rightarrow> Inl unwrap_none
              | key # _ \<Rightarrow> Inr (rbind (ru_single_cert env certs key) (\<lambda>_. Inr (Some (certs, key)))))))))"

text \<open>The certificate a client trusts: the first of the file, or the first of the system.\<close>

definition load_client_config :: "rustls_env \<Rightarrow> tls_config \<Rightarrow> fault + (err + bytes option)" where
  "load_client_config env c =
     (let trust = (\<lambda>cert. if ru_add_root env cert then Inr (Inr (Some cert)) else Inl unwrap_err)
      in case tls_trusted_root c of
           Some path \<Rightarrow>
             (case ru_open env path of
                Inl e \<Rightarrow> Inl unwrap_err
              | Inr [] \<Rightarrow> Inr (Inl (Msg ''Failed to read certificate''))
              | Inr (Inl e # _) \<Rightarrow> Inl unwrap_err
              | Inr (Inr cert # _) \<Rightarrow> trust cert)
         | None \<Rightarrow>
             (case ru_native_certs env of
                Inl e \<Rightarrow> Inr (Inr None)
              | Inr [] \<Rightarrow> Inl unwrap_none
              | Inr (cert # _) \<Rightarrow> trust cert))"

record rustls_transport =
  rt_tcp :: tcp_transport
  rt_config :: tls_config
  rt_connector :: "bytes option"
  rt_acceptor :: "(bytes list \<times> bytes) option"

text \<open>\<open>unwrap\<close> of a result.\<close>

definition unwrap :: "fault + (err + 'a) \<Rightarrow> fault + (err + 'a)" where
  "unwrap r = (case r of Inr (Inl e) \<Rightarrow> Inl unwrap_err | _ \<Rightarrow> r)"

definition rustls_new :: "rustls_env \<Rightarrow> transport_config \<Rightarrow> fault + (err + rustls_transport)" where
  "rustls_new env cfg =
     (case tls cfg of
        None \<Rightarrow> Inr (Inl (Msg ''Missing tls config''))
      | Some c \<Rightarrow>
          try_bind (unwrap (load_client_config env c)) (\<lambda>connector.
          try_bind (unwrap (load_server_config env c)) (\<lambda>acceptor.
          Inr (Inr \<lparr>rt_tcp = tcp_new cfg, rt_config = c, rt_connector = connector, rt_acceptor = acceptor\<rparr>))))"

definition rustls_accept ::
  "bool \<Rightarrow> bool \<Rightarrow> rustls_transport \<Rightarrow> err + tcp_stream \<times> socket_addr \<Rightarrow> err + tcp_stream \<times> socket_addr" where
  "rustls_accept keepalive_ok nodelay_ok t accepted =
     context_err ''Failed to accept TCP connection'' (tcp_accept keepalive_ok nodelay_ok (rt_tcp t) accepted)"

definition rustls_handshake :: "rustls_transport \<Rightarrow> (bytes list \<times> bytes \<Rightarrow> err + unit) \<Rightarrow> fault + (err + unit)" where
  "rustls_handshake t shake = (case rt_acceptor t of None \<Rightarrow> Inl unwrap_none | Some idt \<Rightarrow> Inr (shake idt))"

definition rustls_connect ::
  "rustls_env \<Rightarrow> rustls_transport \<Rightarrow> addr_maybe_cached \<Rightarrow> fault + (err + unit) \<Rightarrow> (bytes \<Rightarrow> string \<Rightarrow> err + unit) \<Rightarrow>
    fault + (err + unit)" where
  "rustls_connect env t addr tcp_connected shake =
     try_bind tcp_connected (\<lambda>_.
     case rt_connector t of
       None \<Rightarrow> Inl unwrap_none
     | Some anchor \<Rightarrow>
         try_bind (host_port_pair (am_addr addr)) (\<lambda>hp.
         let h = (case tls_hostname (rt_config t) of Some n \<Rightarrow> n | None \<Rightarrow> fst hp)
         in try_bind (Inr (ru_server_name env h)) (\<lambda>_. Inr (shake anchor h))))"

text \<open>The one certificate a client built by rustls trusts, if any.\<close>

definition first_anchor :: "rustls_env \<Rightarrow> tls_config \<Rightarrow> bytes option" where
  "first_anchor env c =
     (case tls_trusted_root c of
        Some path \<Rightarrow> (case ru_open env path of Inr (Inr cert # _) \<Rightarrow> Some cert | _ \<Rightarrow> None)
      | None \<Rightarrow> (case ru_native_certs env of Inr (cert # _) \<Rightarrow> Some cert | _ \<Rightarrow> None))"

lemma load_client_anchor:
  "load_client_config env c = Inr (Inr anchor) \<Longrightarrow> anchor = first_anchor env c"
  by (auto simp: load_client_config_def first_anchor_def Let_def split: option.splits sum.splits list.splits if_splits)

lemma load_client_faults: "load_client_config env c = Inl f \<Longrightarrow> f \<in> {unwrap_err, unwrap_none}"
  by (auto simp: load_client_config_def Let_def split: option.splits sum.splits list.splits if_splits)

lemma load_server_faults: "load_server_config env c = Inl f \<Longrightarrow> f = unwrap_none"
  by (auto simp: load_server_config_def try_bind_Inl split: option.splits list.splits) (metis neq_Nil_conv)

lemma unwrap_Inl: "unwrap r = Inl f \<longleftrightarrow> r = Inl f \<or> (\<exists>e. r = Inr (Inl e)) \<and> f = unwrap_err"
  by (auto simp: unwrap_def split: sum.splits)

lemma unwrap_Inr: "unwrap r = Inr x \<longleftrightarrow> r = Inr x \<and> (\<exists>y. x = Inr y)"
  by (auto simp: unwrap_def split: sum.splits)

text \<open>
  With rustls nothing that goes wrong with the files, passwords and certificates of a TLS section is an
  error: it is a panic. A client trusts one certificate, the first of its file or of the system, and
  connecting panics exactly when the system's could not be loaded or the address has no colon.
\<close>

theorem rustls_errors_are_panics:
  assumes "tls cfg = Some c"
  shows "case rustls_new env cfg of
      Inl f \<Rightarrow> f \<in> {unwrap_err, unwrap_none}
    | Inr (Inl e) \<Rightarrow> False
    | Inr (Inr t) \<Rightarrow> rt_connector t = first_anchor env c \<and> ((rt_acceptor t = None) = (tls_pkcs12 c = None)) \<and>
        ((\<exists>f. rustls_connect env t addr (Inr (Inr ())) shake = Inl f) =
          (first_anchor env c = None \<or> CHR '':'' \<notin> set (am_addr addr)))"
proof (cases "rustls_new env cfg")
  case (Inl f)
  then have "f \<in> {unwrap_err, unwrap_none}"
    using assms load_client_faults [of env c f] load_server_faults [of env c f]
    by (auto simp: rustls_new_def try_bind_Inl unwrap_Inl)
  with Inl show ?thesis by simp
next
  case (Inr r)
  obtain t where t: "r = Inr t"
    using Inr assms by (cases r) (auto simp: rustls_new_def try_bind_def unwrap_def split: sum.splits)
  have l: "load_client_config env c = Inr (Inr (rt_connector t))" "load_server_config env c = Inr (Inr (rt_acceptor t))"
    using Inr t assms by (auto simp: rustls_new_def try_bind_Inr unwrap_Inr)
  have a: "rt_connector t = first_anchor env c" by (rule load_client_anchor [OF l(1)])
  have "(rt_acceptor t = None) = (tls_pkcs12 c = None)"
    using l(2) by (auto simp: load_server_config_def try_bind_Inr rbind_eq_Inr split: option.splits list.splits)
      (metis neq_Nil_conv not_Some_eq)
  moreover have "(\<exists>f. rustls_connect env t addr (Inr (Inr ())) shake = Inl f) =
      (first_anchor env c = None \<or> CHR '':'' \<notin> set (am_addr addr))"
    using host_port_faults [of "am_addr addr"]
    by (cases "host_port_pair (am_addr addr)")
      (auto simp: rustls_connect_def a Let_def try_bind_def split: option.splits sum.splits)
  ultimately show ?thesis using Inr t a by simp
qed

definition rustls_files :: rustls_env where
  "rustls_files = \<lparr>ru_read = (\<lambda>_. Inl (Io ''not found'')), ru_pfx = (\<lambda>_. Inr ()), ru_cert_bags = (\<lambda>_ _. Inr []),
     ru_key_bags = (\<lambda>_ _. Inr []), ru_single_cert = (\<lambda>_ _. Inr ()),
     ru_open = (\<lambda>p. if p = ''ca.pem'' then Inr [Inr [1], Inr [2]] else Inl (Io ''not found'')),
     ru_native_certs = Inl (Io ''none''), ru_add_root = (\<lambda>_. True), ru_server_name = (\<lambda>_. Inr ())\<rparr>"

definition two_roots :: tls_config where
  "two_roots = \<lparr>tls_hostname = None, tls_trusted_root = Some ''ca.pem'', tls_pkcs12 = None, tls_pkcs12_password = None\<rparr>"

theorem rustls_errors_are_panics_witness:
  "\<exists>t. rustls_new rustls_files (default_transport_config\<lparr>tls := Some two_roots\<rparr>) = Inr (Inr t) \<and>
    rt_connector t = Some [1] \<and> (\<exists>f. rustls_connect rustls_files t (addr_new ''localhost'') (Inr (Inr ())) (\<lambda>_ _. Inr ()) = Inl f)"
proof -
  obtain t where t: "rustls_new rustls_files (default_transport_config\<lparr>tls := Some two_roots\<rparr>) = Inr (Inr t)"
    by (simp add: rustls_new_def load_client_config_def load_server_config_def two_roots_def rustls_files_def try_bind_def unwrap_def)
  have "first_anchor rustls_files two_roots = Some [1]"
    by (simp add: first_anchor_def two_roots_def rustls_files_def)
  with rustls_errors_are_panics [of "default_transport_config\<lparr>tls := Some two_roots\<rparr>" two_roots rustls_files
      "addr_new ''localhost''" "\<lambda>_ _. Inr ()"] t
  show ?thesis by (simp add: addr_new_def)
qed

text \<open>
  The transport of the default build returns the error of the same missing file, where rustls panics.
\<close>

lemma missing_root_compared:
  assumes "tls cfg = Some c" "tls_trusted_root c = Some path" "te_root env path = Inl e" "ru_open renv path = Inl e"
  shows "tls_new env cfg = Inr (Inl (Context ''Failed to read the `tls.trusted_root`'' e)) \<and> rustls_new renv cfg = Inl unwrap_err"
  using assms by (simp add: tls_new_def tls_new_connector_def context_err_def rustls_new_def load_client_config_def
      try_bind_def unwrap_def)

end
