(* ===== verification/Fair_Lock.thy ===== *)
theory Fair_Lock
  imports Prelude
begin

text \<open>
  The read-write lock around shared maps, as tokio documents it: readers share it, a writer has it
  alone, and requests are granted in the order in which they were made, so that a waiting writer holds
  back every later reader. Guards of writers live for one statement without a wait, which is why a
  granted write holds nothing; guards of readers can live across waits. The locale \<open>fair_lock\<close> is what
  the application relies on.
\<close>

datatype 'w lock_request = Read nat | Write 'w

record 'w lock =
  lk_readers :: "nat list"
  lk_queue :: "'w lock_request list"

definition new_lock :: "'w lock" where
  "new_lock = \<lparr>lk_readers = [], lk_queue = []\<rparr>"

definition lock_request :: "'w lock_request \<Rightarrow> 'w lock \<Rightarrow> 'w lock" where
  "lock_request x l = l\<lparr>lk_queue := lk_queue l @ [x]\<rparr>"

definition lock_grant :: "'w lock \<Rightarrow> ('w lock_request \<times> 'w lock) option" where
  "lock_grant l =
     (case lk_queue l of
        [] \<Rightarrow> None
      | Read r # xs \<Rightarrow> Some (Read r, l\<lparr>lk_readers := r # lk_readers l, lk_queue := xs\<rparr>)
      | Write w # xs \<Rightarrow> if lk_readers l = [] then Some (Write w, l\<lparr>lk_queue := xs\<rparr>) else None)"

definition lock_release :: "nat \<Rightarrow> 'w lock \<Rightarrow> 'w lock" where
  "lock_release r l = l\<lparr>lk_readers := remove1 r (lk_readers l)\<rparr>"

section \<open>The contract\<close>

locale fair_lock =
  fixes request :: "'w lock_request \<Rightarrow> 'l \<Rightarrow> 'l"
    and grant :: "'l \<Rightarrow> ('w lock_request \<times> 'l) option"
    and release :: "nat \<Rightarrow> 'l \<Rightarrow> 'l"
    and readers :: "'l \<Rightarrow> nat list"
    and queue :: "'l \<Rightarrow> 'w lock_request list"
  assumes request_queue: "queue (request x l) = queue l @ [x]"
    and request_readers: "readers (request x l) = readers l"
    and grant_fifo: "grant l = Some (x, l') \<Longrightarrow> queue l = x # queue l'"
    and grant_read: "grant l = Some (Read r, l') \<Longrightarrow> readers l' = r # readers l"
    and grant_write: "grant l = Some (Write w, l') \<Longrightarrow> readers l = [] \<and> readers l' = []"
    and grant_progress: "queue l \<noteq> [] \<Longrightarrow> readers l = [] \<Longrightarrow> grant l \<noteq> None"
    and release_queue: "queue (release r l) = queue l"
    and release_readers: "readers (release r l) = remove1 r (readers l)"
begin

text \<open>A reader that keeps its guard keeps every writer out.\<close>

lemma reader_excludes_writers: "r \<in> set (readers l) \<Longrightarrow> grant l \<noteq> Some (Write w, l')"
  using grant_write [of l w l'] by auto

text \<open>With a reader inside and a writer first in the queue nothing is granted.\<close>

lemma writer_blocks_queue:
  assumes "r \<in> set (readers l)" "queue l = Write w # xs"
  shows "grant l = None"
proof (rule ccontr)
  assume "grant l \<noteq> None"
  then obtain x l' where g: "grant l = Some (x, l')" by auto
  with grant_fifo [OF g] assms(2) have "x = Write w" by simp
  with g grant_write [of l w l'] assms(1) show False by auto
qed

lemma reader_stays:
  assumes "r \<in> set (readers l)" "grant l = Some (x, l')"
  shows "\<exists>r'. x = Read r' \<and> readers l' = r' # readers l"
  using assms grant_write [of l _ l'] grant_read [of l _ l'] by (cases x) auto

lemma grant_first:
  assumes "queue l = x # xs" "readers l = []"
  obtains l' where "grant l = Some (x, l')" "queue l' = xs"
    "readers l' = (case x of Read r \<Rightarrow> [r] | Write w \<Rightarrow> [])"
proof -
  from grant_progress [of l] assms obtain y l' where g: "grant l = Some (y, l')" by auto
  moreover from grant_fifo [OF g] assms(1) have "y = x" "queue l' = xs" by simp_all
  ultimately show ?thesis
    using that [of l'] assms(2) grant_read [of l _ l'] grant_write [of l _ l'] by (cases x) auto
qed

end

interpretation tokio: fair_lock lock_request lock_grant lock_release lk_readers lk_queue
  by unfold_locales (auto simp: lock_request_def lock_grant_def lock_release_def
      split: list.splits lock_request.splits if_splits)

end
