(* ===== verification/Tunnel_App.thy ===== *)
theory Tunnel_App
  imports Routing Fair_Lock
begin

text \<open>
  The HTTP application of \<open>src/rathole/src/main.rs\<close> and the login of \<open>src/rathole/src/lib.rs\<close>: sockets
  that register tunnels, the requests of \<open>/tunnel\<close>, and the cleanup task. Each event is one stretch of
  one task between two waits. The \<open>tunnels\<close> map is behind a lock whose guards can live across waits;
  the guards of the other maps never do, so their operations are atomic. Requests of the routing
  handler appear as the slots they open and the messages they queue.
\<close>

section \<open>Errors\<close>

datatype app_error =
    InvalidCredentials
  | InvalidToken
  | TunnelNotFound
  | TunnelSendError
  | TunnelResponseError
  | WebSocketError string
  | JsonError string
  | HyperError string
  | ReqwestError string
  | JwtError string
  | IoError string
  | Other string

fun into_response :: "app_error \<Rightarrow> status_code \<times> string" where
  "into_response InvalidCredentials = (401, ''Invalid credentials'')"
| "into_response InvalidToken = (401, ''Invalid token'')"
| "into_response TunnelNotFound = (404, ''Tunnel not found'')"
| "into_response TunnelSendError = (500, ''Failed to send request to tunnel'')"
| "into_response TunnelResponseError = (500, ''Failed to get response from tunnel'')"
| "into_response (WebSocketError e) = (500, ''WebSocket error: '' @ e)"
| "into_response (JsonError e) = (400, ''JSON error: '' @ e)"
| "into_response (HyperError e) = (500, ''Hyper error: '' @ e)"
| "into_response (ReqwestError e) = (500, ''Reqwest error: '' @ e)"
| "into_response (JwtError e) = (401, ''JWT error: '' @ e)"
| "into_response (IoError e) = (500, ''IO error: '' @ e)"
| "into_response (Other e) = (500, ''Other error: '' @ e)"

section \<open>The libraries\<close>

text \<open>
  JSON and JWT. \<open>jwt_decode\<close> is decoding with the default validation at a time in seconds;
  \<open>hdr_append\<close> is the header call of a response builder, which keeps other values of the name.
\<close>

record claims =
  claim_sub :: string
  claim_exp :: nat

record 'h app_lib = "'h http_lib" +
  hdr_append :: "'h \<Rightarrow> string \<Rightarrow> string \<Rightarrow> 'h"
  from_json :: "string \<Rightarrow> control_message option"
  jwt_encode :: "string \<Rightarrow> claims \<Rightarrow> string option"
  jwt_decode :: "string \<Rightarrow> nat \<Rightarrow> string \<Rightarrow> claims option"

definition login :: "('h, 'm) app_lib_scheme \<Rightarrow> string \<Rightarrow> nat \<Rightarrow> string \<Rightarrow> string \<Rightarrow> app_error + status_code \<times> string" where
  "login L secret now username password =
     (if username = ''test'' \<and> password = ''test''
      then (case jwt_encode L secret \<lparr>claim_sub = ''test'', claim_exp = now + 86400\<rparr> of
              None \<Rightarrow> Inl (JwtError ''encode'')
            | Some token \<Rightarrow> Inr (200, token))
      else Inl InvalidCredentials)"

section \<open>State\<close>

text \<open>
  A socket with its path id, the messages buffered in the channel made at its registration, and those
  written to the client. \<open>Registering\<close> waits for the lock; \<open>Crashed\<close> is where a panic was.
\<close>

datatype stage = Await_Register | Registering | Serving | Closing | Ended | Crashed

record socket =
  sk_id :: string
  sk_stage :: stage
  sk_queue :: "string list"
  sk_wire :: "string list"

datatype ws_message = Ws_Text string | Ws_Other
datatype received = Got ws_message | Recv_Error | Recv_End | Recv_Timeout

text \<open>A request of \<open>/tunnel/{id}/{*path}\<close>, and where its handler is.\<close>

record 'h tunnel_call =
  tc_id :: string
  tc_method :: string
  tc_path :: string
  tc_headers :: 'h
  tc_body :: bytes

datatype 'h call_stage =
    Listing
  | Looking
  | Sending nat string
  | Awaiting
  | Returned "app_error + 'h axum_response"
  | Aborted

record 'h tunnel_request =
  tr_call :: "'h tunnel_call"
  tr_rid :: string
  tr_stage :: "'h call_stage"

datatype map_write = Insert_Tunnel nat | Remove_Tunnel string

datatype cleaner = Idle | Removing string | Dead

text \<open>
  \<open>as_app\<close> is the state shared with the routing handler; a tunnel's queue is the number of its socket,
  a response slot the number of the request that waits on it. \<open>as_answers\<close> are the responses delivered.
  The crate is built with \<open>panic = "abort"\<close>: a panic in any task ends the program (\<open>as_aborted\<close>).
\<close>

record 'h app_sys =
  as_app :: app_state
  as_lock :: "map_write lock"
  as_sockets :: "nat \<rightharpoonup> socket"
  as_calls :: "nat \<rightharpoonup> 'h tunnel_request"
  as_cleanup :: "string list"
  as_cleaner :: cleaner
  as_answers :: "(nat \<times> http_response) list"
  as_redis :: "string \<rightharpoonup> string"
  as_aborted :: bool

definition QUEUE_SIZE :: nat where "QUEUE_SIZE = 100"

definition init_app :: "string \<Rightarrow> 'h app_sys" where
  "init_app backend =
     \<lparr>as_app = \<lparr>ap_tunnels = [], ap_responses = [], ap_health = Map.empty, ap_sent = [], ap_cloud_backend = backend\<rparr>,
      as_lock = new_lock, as_sockets = Map.empty, as_calls = Map.empty, as_cleanup = [], as_cleaner = Idle,
      as_answers = [], as_redis = Map.empty, as_aborted = False\<rparr>"

definition panics :: "'h app_sys \<Rightarrow> 'h app_sys" where
  "panics st = st\<lparr>as_aborted := True\<rparr>"

definition set_stage :: "nat \<Rightarrow> stage \<Rightarrow> 'h app_sys \<Rightarrow> 'h app_sys" where
  "set_stage s x st =
     (case as_sockets st s of
        None \<Rightarrow> st
      | Some sk \<Rightarrow> st\<lparr>as_sockets := (as_sockets st)(s \<mapsto> sk\<lparr>sk_stage := x\<rparr>)\<rparr>)"

definition set_call :: "nat \<Rightarrow> 'h call_stage \<Rightarrow> 'h app_sys \<Rightarrow> 'h app_sys" where
  "set_call r x st =
     (case as_calls st r of
        None \<Rightarrow> st
      | Some c \<Rightarrow> st\<lparr>as_calls := (as_calls st)(r \<mapsto> c\<lparr>tr_stage := x\<rparr>)\<rparr>)"

section \<open>Sockets\<close>

definition connect_socket :: "nat \<Rightarrow> string \<Rightarrow> 'h app_sys \<Rightarrow> 'h app_sys" where
  "connect_socket s tid st =
     (if as_sockets st s \<noteq> None then st
      else st\<lparr>as_sockets := (as_sockets st)(s \<mapsto> \<lparr>sk_id = tid, sk_stage = Await_Register, sk_queue = [], sk_wire = []\<rparr>)\<rparr>)"

text \<open>The first message. An unwrapped error of redis is a panic.\<close>

definition socket_first ::
  "('h, 'm) app_lib_scheme \<Rightarrow> string \<Rightarrow> nat \<Rightarrow> nat \<Rightarrow> received \<Rightarrow> bool \<Rightarrow> 'h app_sys \<Rightarrow> 'h app_sys" where
  "socket_first L secret now s m redis_ok st =
     (case as_sockets st s of
        None \<Rightarrow> st
      | Some sk \<Rightarrow>
          if sk_stage sk \<noteq> Await_Register then st
          else case m of
            Got (Ws_Text t) \<Rightarrow>
              (case from_json L t of
                 None \<Rightarrow> set_stage s Ended st
               | Some (Register token target_subdomain) \<Rightarrow>
                   (case jwt_decode L secret now token of
                      None \<Rightarrow> set_stage s Closing st
                    | Some c \<Rightarrow>
                        if \<not> redis_ok then panics (set_stage s Crashed st)
                        else set_stage s Registering (st\<lparr>as_redis := (as_redis st)(sk_id sk \<mapsto> ''online''),
                               as_lock := lock_request (Write (Insert_Tunnel s)) (as_lock st)\<rparr>))
               | Some _ \<Rightarrow> set_stage s Closing st)
          | _ \<Rightarrow> set_stage s Closing st)"

text \<open>One round of the loop that takes a message from the queue.\<close>

definition socket_forward :: "nat \<Rightarrow> bool \<Rightarrow> 'h app_sys \<Rightarrow> 'h app_sys" where
  "socket_forward s send_ok st =
     (case as_sockets st s of
        None \<Rightarrow> st
      | Some sk \<Rightarrow>
          if sk_stage sk \<noteq> Serving then st
          else case sk_queue sk of
            [] \<Rightarrow> st
          | m # ms \<Rightarrow>
              st\<lparr>as_sockets := (as_sockets st)(s \<mapsto>
                (if send_ok then sk\<lparr>sk_queue := ms, sk_wire := sk_wire sk @ [m]\<rparr>
                 else sk\<lparr>sk_queue := ms, sk_stage := Closing\<rparr>))\<rparr>)"

definition set_health :: "instant \<Rightarrow> string \<Rightarrow> health_status \<Rightarrow> health_map \<Rightarrow> health_map" where
  "set_health now tid s m = m(tid \<mapsto> (entry_or_default now tid m)\<lparr>status := s, last_update := now\<rparr>)"

text \<open>Building the answer of a tunnel request: the builder keeps the first error for \<open>body\<close>.\<close>

fun append_headers ::
  "('h, 'm) app_lib_scheme \<Rightarrow> (string \<times> string) list \<Rightarrow> 'h \<Rightarrow> 'h option" where
  "append_headers L [] h = Some h"
| "append_headers L ((k, v) # hs) h =
     (case header_name L k of
        None \<Rightarrow> None
      | Some n \<Rightarrow> if value_ok L v then append_headers L hs (hdr_append L h n v) else None)"

definition tunnel_response :: "('h, 'm) app_lib_scheme \<Rightarrow> http_response \<Rightarrow> app_error + 'h axum_response" where
  "tunnel_response L res =
     (if \<not> status_ok L (rs_status res) then Inl (Other ''invalid status code'')
      else case append_headers L (rs_headers res) (hdr_empty L) of
             None \<Rightarrow> Inl (Other ''invalid header'')
           | Some h \<Rightarrow> Inr \<lparr>ar_status = rs_status res, ar_headers = h, ar_body = rs_body res\<rparr>)"

text \<open>
  The end of a tunnel request: its read guard is dropped.
\<close>

definition end_call :: "nat \<Rightarrow> 'h call_stage \<Rightarrow> 'h app_sys \<Rightarrow> 'h app_sys" where
  "end_call r x st = (set_call r x st)\<lparr>as_lock := lock_release r (as_lock st)\<rparr>"

text \<open>A response takes its slot; the handler behind the slot, if it is one of \<open>/tunnel\<close>, goes on.\<close>

definition deliver :: "('h, 'm) app_lib_scheme \<Rightarrow> string \<Rightarrow> http_response \<Rightarrow> 'h app_sys \<Rightarrow> 'h app_sys" where
  "deliver L rid http st =
     (case map_of (ap_responses (as_app st)) rid of
        None \<Rightarrow> st
      | Some r \<Rightarrow>
          (let st1 = st\<lparr>as_app := remove_slot rid (as_app st), as_answers := (r, http) # as_answers st\<rparr>
           in case as_calls st1 r of
                None \<Rightarrow> st1
              | Some c \<Rightarrow>
                  if tr_stage c = Awaiting then end_call r (Returned (tunnel_response L http)) st1 else st1))"

text \<open>A sender that is dropped unused ends the wait with an error.\<close>

definition drop_slot :: "string \<Rightarrow> 'h app_sys \<Rightarrow> 'h app_sys" where
  "drop_slot rid st =
     (case map_of (ap_responses (as_app st)) rid of
        None \<Rightarrow> st
      | Some r \<Rightarrow>
          (let st1 = st\<lparr>as_app := remove_slot rid (as_app st)\<rparr>
           in case as_calls st1 r of
                None \<Rightarrow> st1
              | Some c \<Rightarrow> if tr_stage c = Awaiting then end_call r (Returned (Inl TunnelResponseError)) st1 else st1))"

definition open_slot :: "string \<Rightarrow> nat \<Rightarrow> 'h app_sys \<Rightarrow> 'h app_sys" where
  "open_slot rid r st =
     (let st1 = drop_slot rid st
      in st1\<lparr>as_app := (as_app st1)\<lparr>ap_responses := hash_insert rid r (ap_responses (as_app st1))\<rparr>\<rparr>)"

text \<open>One round of the loop that takes a message of the client, or a timeout of 30 seconds.\<close>

definition socket_recv ::
  "('h, 'm) app_lib_scheme \<Rightarrow> bool \<Rightarrow> instant \<Rightarrow> nat \<Rightarrow> received \<Rightarrow> 'h app_sys \<Rightarrow> 'h app_sys" where
  "socket_recv L checks now s m st =
     (case as_sockets st s of
        None \<Rightarrow> st
      | Some sk \<Rightarrow>
          if sk_stage sk \<noteq> Serving then st
          else case m of
            Got (Ws_Text t) \<Rightarrow>
              (case from_json L t of
                 None \<Rightarrow> st
               | Some (HealthUpdate hw ts) \<Rightarrow>
                   (case handle_hardware_data checks hw 85 of
                      Inl e \<Rightarrow> panics (set_stage s Crashed st)
                    | Inr x \<Rightarrow> st\<lparr>as_app := (as_app st)\<lparr>ap_health := set_health now (sk_id sk) x (ap_health (as_app st))\<rparr>\<rparr>)
               | Some (Response rid http) \<Rightarrow> deliver L rid http st
               | Some _ \<Rightarrow> st)
          | Got Ws_Other \<Rightarrow> st
          | _ \<Rightarrow> set_stage s Closing st)"

text \<open>After the loop the id goes to the cleanup task.\<close>

definition tell_cleanup :: "nat \<Rightarrow> 'h app_sys \<Rightarrow> 'h app_sys" where
  "tell_cleanup s st =
     (case as_sockets st s of
        None \<Rightarrow> st
      | Some sk \<Rightarrow>
          if sk_stage sk \<noteq> Closing then st
          else if as_cleaner st = Dead then set_stage s Ended st
          else if QUEUE_SIZE \<le> length (as_cleanup st) then st
          else set_stage s Ended (st\<lparr>as_cleanup := as_cleanup st @ [sk_id sk]\<rparr>))"

definition cleanup_take :: "bool \<Rightarrow> 'h app_sys \<Rightarrow> 'h app_sys" where
  "cleanup_take redis_ok st =
     (case as_cleanup st of
        [] \<Rightarrow> st
      | tid # ids \<Rightarrow>
          if as_cleaner st \<noteq> Idle then st
          else if \<not> redis_ok then panics (st\<lparr>as_cleanup := [], as_cleaner := Dead\<rparr>)
          else st\<lparr>as_cleanup := ids, as_cleaner := Removing tid, as_redis := (as_redis st)(tid \<mapsto> ''offline''),
                  as_lock := lock_request (Write (Remove_Tunnel tid)) (as_lock st)\<rparr>)"

section \<open>Requests of /tunnel\<close>

text \<open>
  The handler first prints the registered tunnels, then looks its tunnel up and keeps that guard. The
  number of a request is new.
\<close>

definition tunnel_start :: "nat \<Rightarrow> string \<Rightarrow> 'h tunnel_call \<Rightarrow> 'h app_sys \<Rightarrow> 'h app_sys" where
  "tunnel_start r rid call st =
     (if as_calls st r \<noteq> None \<or> r \<in> snd ` set (ap_responses (as_app st)) \<or> r \<in> fst ` set (as_answers st) then st
      else st\<lparr>as_calls := (as_calls st)(r \<mapsto> \<lparr>tr_call = call, tr_rid = rid, tr_stage = Listing\<rparr>),
              as_lock := lock_request (Read r) (as_lock st)\<rparr>)"

definition call_request :: "('h, 'm) app_lib_scheme \<Rightarrow> 'h tunnel_call \<Rightarrow> http_request" where
  "call_request L call =
     \<lparr>rq_method = tc_method call, rq_path = tc_path call, rq_headers = hdr_iter L (tc_headers call), rq_body = tc_body call\<rparr>"

text \<open>\<open>tx.send\<close>: an error once the socket's task is gone, and a wait while its queue is full.\<close>

definition queue_send :: "nat \<Rightarrow> string \<Rightarrow> 'h app_sys \<Rightarrow> 'h app_sys option" where
  "queue_send s msg st =
     (case as_sockets st s of
        None \<Rightarrow> None
      | Some sk \<Rightarrow>
          if sk_stage sk = Serving
          then Some (st\<lparr>as_sockets := (as_sockets st)(s \<mapsto> sk\<lparr>sk_queue := sk_queue sk @ [msg]\<rparr>)\<rparr>)
          else None)"

definition queue_full :: "nat \<Rightarrow> 'h app_sys \<Rightarrow> bool" where
  "queue_full s st =
     (case as_sockets st s of
        None \<Rightarrow> False
      | Some sk \<Rightarrow> sk_stage sk = Serving \<and> QUEUE_SIZE \<le> length (sk_queue sk))"

text \<open>The wait for the response, which may be there already or will never come.\<close>

definition tunnel_await :: "('h, 'm) app_lib_scheme \<Rightarrow> nat \<Rightarrow> string \<Rightarrow> 'h app_sys \<Rightarrow> 'h app_sys" where
  "tunnel_await L r rid st =
     (if map_of (ap_responses (as_app st)) rid = Some r then set_call r Awaiting st
      else case map_of (as_answers st) r of
             None \<Rightarrow> end_call r (Returned (Inl TunnelResponseError)) st
           | Some http \<Rightarrow> end_call r (Returned (tunnel_response L http)) st)"

definition tunnel_send :: "('h, 'm) app_lib_scheme \<Rightarrow> nat \<Rightarrow> string \<Rightarrow> nat \<Rightarrow> string \<Rightarrow> 'h app_sys \<Rightarrow> 'h app_sys" where
  "tunnel_send L r rid s msg st =
     (if queue_full s st then set_call r (Sending s msg) st
      else case queue_send s msg st of
             None \<Rightarrow> end_call r (Returned (Inl TunnelSendError)) st
           | Some st' \<Rightarrow> tunnel_await L r rid st')"

definition tunnel_look :: "('h, 'm) app_lib_scheme \<Rightarrow> nat \<Rightarrow> 'h tunnel_request \<Rightarrow> 'h app_sys \<Rightarrow> 'h app_sys" where
  "tunnel_look L r c st =
     (case map_of (ap_tunnels (as_app st)) (tc_id (tr_call c)) of
        None \<Rightarrow> end_call r (Returned (Inl TunnelNotFound)) st
      | Some s \<Rightarrow>
          (let st1 = open_slot (tr_rid c) r st;
               req = call_request L (tr_call c)
           in if \<not> list_all (visible L) (map snd (rq_headers req)) then panics (end_call r Aborted st1)
              else case to_json L (Request (tr_rid c) req) of
                     None \<Rightarrow> end_call r (Returned (Inl (JsonError ''serialize''))) st1
                   | Some msg \<Rightarrow> tunnel_send L r (tr_rid c) s msg st1))"

definition tunnel_retry :: "('h, 'm) app_lib_scheme \<Rightarrow> nat \<Rightarrow> 'h app_sys \<Rightarrow> 'h app_sys" where
  "tunnel_retry L r st =
     (case as_calls st r of
        None \<Rightarrow> st
      | Some c \<Rightarrow> (case tr_stage c of Sending s msg \<Rightarrow> tunnel_send L r (tr_rid c) s msg st | _ \<Rightarrow> st))"

section \<open>The lock\<close>

definition read_granted :: "('h, 'm) app_lib_scheme \<Rightarrow> nat \<Rightarrow> 'h app_sys \<Rightarrow> 'h app_sys" where
  "read_granted L r st =
     (case as_calls st r of
        None \<Rightarrow> st\<lparr>as_lock := lock_release r (as_lock st)\<rparr>
      | Some c \<Rightarrow>
          (case tr_stage c of
             Listing \<Rightarrow> set_call r Looking (st\<lparr>as_lock := lock_request (Read r) (lock_release r (as_lock st))\<rparr>)
           | Looking \<Rightarrow> tunnel_look L r c st
           | _ \<Rightarrow> st\<lparr>as_lock := lock_release r (as_lock st)\<rparr>))"

definition write_granted :: "map_write \<Rightarrow> 'h app_sys \<Rightarrow> 'h app_sys" where
  "write_granted w st =
     (case w of
        Insert_Tunnel s \<Rightarrow>
          (case as_sockets st s of
             None \<Rightarrow> st
           | Some sk \<Rightarrow>
               set_stage s Serving (st\<lparr>as_app := (as_app st)\<lparr>ap_tunnels := hash_insert (sk_id sk) s (ap_tunnels (as_app st))\<rparr>\<rparr>))
      | Remove_Tunnel tid \<Rightarrow>
          st\<lparr>as_app := (as_app st)\<lparr>ap_tunnels := hash_remove tid (ap_tunnels (as_app st))\<rparr>, as_cleaner := Idle\<rparr>)"

definition grant_step :: "('h, 'm) app_lib_scheme \<Rightarrow> 'h app_sys \<Rightarrow> 'h app_sys" where
  "grant_step L st =
     (case lock_grant (as_lock st) of
        None \<Rightarrow> st
      | Some (Read r, l) \<Rightarrow> read_granted L r (st\<lparr>as_lock := l\<rparr>)
      | Some (Write w, l) \<Rightarrow> write_granted w (st\<lparr>as_lock := l\<rparr>))"

section \<open>The application\<close>

datatype 'h app_event =
    Connect nat string
  | First nat nat received bool
  | Forward nat bool
  | Recv nat instant received
  | Tell_Cleanup nat
  | Cleanup_Take bool
  | Tunnel_Start nat string "'h tunnel_call"
  | Tunnel_Retry nat
  | Grant
  | Proxy_Slot nat string
  | Proxy_Close string
  | Proxy_Send nat string
  | Proxy_Panic

definition app_act :: "('h, 'm) app_lib_scheme \<Rightarrow> string \<Rightarrow> bool \<Rightarrow> 'h app_event \<Rightarrow> 'h app_sys \<Rightarrow> 'h app_sys" where
  "app_act L secret checks e st =
     (case e of
        Connect s tid \<Rightarrow> connect_socket s tid st
      | First s now m redis_ok \<Rightarrow> socket_first L secret now s m redis_ok st
      | Forward s send_ok \<Rightarrow> socket_forward s send_ok st
      | Recv s now m \<Rightarrow> socket_recv L checks now s m st
      | Tell_Cleanup s \<Rightarrow> tell_cleanup s st
      | Cleanup_Take redis_ok \<Rightarrow> cleanup_take redis_ok st
      | Tunnel_Start r rid call \<Rightarrow> tunnel_start r rid call st
      | Tunnel_Retry r \<Rightarrow> tunnel_retry L r st
      | Grant \<Rightarrow> grant_step L st
      | Proxy_Slot r rid \<Rightarrow>
          (if as_calls st r \<noteq> None then st else open_slot rid r st)
      | Proxy_Close rid \<Rightarrow> drop_slot rid st
      | Proxy_Send s msg \<Rightarrow> (if queue_full s st then st else case queue_send s msg st of None \<Rightarrow> st | Some st' \<Rightarrow> st')
      | Proxy_Panic \<Rightarrow> panics st)"

definition app_step :: "('h, 'm) app_lib_scheme \<Rightarrow> string \<Rightarrow> bool \<Rightarrow> 'h app_event \<Rightarrow> 'h app_sys \<Rightarrow> 'h app_sys" where
  "app_step L secret checks e st = (if as_aborted st then st else app_act L secret checks e st)"

fun run_app :: "('h, 'm) app_lib_scheme \<Rightarrow> string \<Rightarrow> bool \<Rightarrow> 'h app_event list \<Rightarrow> 'h app_sys \<Rightarrow> 'h app_sys" where
  "run_app L secret checks [] st = st"
| "run_app L secret checks (e # es) st = run_app L secret checks es (app_step L secret checks e st)"

end
