(* ===== verification/Tunnel_App_Inv.thy ===== *)
theory Tunnel_App_Inv
  imports Tunnel_App Routing_Props
begin

text \<open>
  Invariants of the HTTP application in every interleaving: who holds and who waits for the lock, which
  slots wait for which requests, and which sockets are registered.
\<close>

section \<open>Effects of the updates\<close>

named_theorems app_simps \<open>fields of the state after the updates of a stage\<close>

lemma set_stage_fields [simp, app_simps]:
  "as_app (set_stage s x st) = as_app st" "as_lock (set_stage s x st) = as_lock st"
  "as_calls (set_stage s x st) = as_calls st" "as_cleanup (set_stage s x st) = as_cleanup st"
  "as_cleaner (set_stage s x st) = as_cleaner st" "as_answers (set_stage s x st) = as_answers st"
  "as_redis (set_stage s x st) = as_redis st" "as_aborted (set_stage s x st) = as_aborted st"
  "as_sockets (set_stage s x st) = (as_sockets st)(s := map_option (\<lambda>sk. sk\<lparr>sk_stage := x\<rparr>) (as_sockets st s))"
  by (auto simp: set_stage_def fun_eq_iff split: option.splits)

lemma set_call_fields [simp, app_simps]:
  "as_app (set_call r x st) = as_app st" "as_lock (set_call r x st) = as_lock st"
  "as_sockets (set_call r x st) = as_sockets st" "as_cleanup (set_call r x st) = as_cleanup st"
  "as_cleaner (set_call r x st) = as_cleaner st" "as_answers (set_call r x st) = as_answers st"
  "as_redis (set_call r x st) = as_redis st" "as_aborted (set_call r x st) = as_aborted st"
  "as_calls (set_call r x st) = (as_calls st)(r := map_option (\<lambda>c. c\<lparr>tr_stage := x\<rparr>) (as_calls st r))"
  by (auto simp: set_call_def fun_eq_iff split: option.splits)

lemma end_call_fields [simp, app_simps]:
  "as_app (end_call r x st) = as_app st" "as_lock (end_call r x st) = lock_release r (as_lock st)"
  "as_sockets (end_call r x st) = as_sockets st" "as_cleanup (end_call r x st) = as_cleanup st"
  "as_cleaner (end_call r x st) = as_cleaner st" "as_answers (end_call r x st) = as_answers st"
  "as_redis (end_call r x st) = as_redis st" "as_aborted (end_call r x st) = as_aborted st"
  "as_calls (end_call r x st) = (as_calls st)(r := map_option (\<lambda>c. c\<lparr>tr_stage := x\<rparr>) (as_calls st r))"
  by (simp_all add: end_call_def)

lemma panics_fields [simp, app_simps]:
  "as_app (panics st) = as_app st" "as_lock (panics st) = as_lock st" "as_sockets (panics st) = as_sockets st"
  "as_calls (panics st) = as_calls st" "as_cleanup (panics st) = as_cleanup st" "as_cleaner (panics st) = as_cleaner st"
  "as_answers (panics st) = as_answers st" "as_redis (panics st) = as_redis st" "as_aborted (panics st)"
  by (simp_all add: panics_def)

lemma lock_fields [simp, app_simps]:
  "lk_readers (lock_request x l) = lk_readers l" "lk_queue (lock_request x l) = lk_queue l @ [x]"
  "lk_readers (lock_release r l) = remove1 r (lk_readers l)" "lk_queue (lock_release r l) = lk_queue l"
  by (simp_all add: lock_request_def lock_release_def)

section \<open>The lock\<close>

fun holding :: "'h call_stage \<Rightarrow> bool" where
  "holding (Sending s m) = True"
| "holding Awaiting = True"
| "holding x = False"

fun asking :: "'h call_stage \<Rightarrow> bool" where
  "asking Listing = True"
| "asking Looking = True"
| "asking x = False"

definition call_in :: "('h call_stage \<Rightarrow> bool) \<Rightarrow> 'h app_sys \<Rightarrow> nat \<Rightarrow> bool" where
  "call_in P st r = (case as_calls st r of None \<Rightarrow> False | Some c \<Rightarrow> P (tr_stage c))"

definition socket_in :: "stage \<Rightarrow> 'h app_sys \<Rightarrow> nat \<Rightarrow> bool" where
  "socket_in x st s = (case as_sockets st s of None \<Rightarrow> False | Some sk \<Rightarrow> sk_stage sk = x)"

lemma call_in_set_call [simp]:
  "call_in P (set_call r x st) r' = (if r' = r then as_calls st r \<noteq> None \<and> P x else call_in P st r')"
  "call_in P (end_call r x st) r' = (if r' = r then as_calls st r \<noteq> None \<and> P x else call_in P st r')"
  by (auto simp: call_in_def split: option.splits)

lemma socket_in_set_stage [simp]:
  "socket_in y (set_stage s x st) s' = (if s' = s then as_sockets st s \<noteq> None \<and> x = y else socket_in y st s')"
  by (auto simp: socket_in_def split: option.splits)

lemma call_in_cong: "as_calls st = as_calls st' \<Longrightarrow> call_in P st = call_in P st'"
  by (simp add: call_in_def fun_eq_iff)

lemma socket_in_cong: "as_sockets st = as_sockets st' \<Longrightarrow> socket_in x st = socket_in x st'"
  by (simp add: socket_in_def fun_eq_iff)

lemma in_panics [simp]: "call_in P (panics st) = call_in P st" "socket_in x (panics st) = socket_in x st"
  by (rule call_in_cong socket_in_cong, simp)+

text \<open>
  Outside of a grant (\<open>X = None\<close>) the readers inside are the handlers that send or wait for an answer,
  and exactly the tasks that ask for the lock are in its queue, each once. During a grant the handler
  \<open>X\<close> is inside, whatever its stage.
\<close>

definition lock_inv :: "nat option \<Rightarrow> 'h app_sys \<Rightarrow> bool" where
  "lock_inv X st =
     (distinct (lk_readers (as_lock st)) \<and> distinct (lk_queue (as_lock st))
      \<and> (\<forall>r. r \<in> set (lk_readers (as_lock st)) \<longleftrightarrow> X = Some r \<or> call_in holding st r)
      \<and> (\<forall>r. Read r \<in> set (lk_queue (as_lock st)) \<longleftrightarrow> X \<noteq> Some r \<and> call_in asking st r)
      \<and> (\<forall>s. Write (Insert_Tunnel s) \<in> set (lk_queue (as_lock st)) \<longleftrightarrow> socket_in Registering st s)
      \<and> (\<forall>tid. Write (Remove_Tunnel tid) \<in> set (lk_queue (as_lock st)) \<longleftrightarrow> as_cleaner st = Removing tid)
      \<and> (\<forall>r. X = Some r \<longrightarrow> call_in (\<lambda>x. x \<noteq> Awaiting) st r))"

lemma lock_inv_cong:
  assumes "as_lock st' = as_lock st" "as_calls st' = as_calls st" "as_sockets st' = as_sockets st"
    and "as_cleaner st' = as_cleaner st"
  shows "lock_inv X st' = lock_inv X st"
  using assms by (simp add: lock_inv_def call_in_def socket_in_def)

lemma lock_inv_panics [simp]: "lock_inv X (panics st) = lock_inv X st"
  by (rule lock_inv_cong) simp_all

text \<open>Only what the invariant looks at of the sockets matters.\<close>

lemma lock_inv_sockets:
  assumes "as_lock st' = as_lock st" "as_calls st' = as_calls st" "as_cleaner st' = as_cleaner st"
    and "\<And>s. socket_in Registering st' s = socket_in Registering st s"
  shows "lock_inv X st' = lock_inv X st"
  using assms by (simp add: lock_inv_def call_in_def)

lemma lock_inv_end:
  assumes "lock_inv X st" "X = Some r \<or> call_in holding st r" "\<not> holding x" "\<not> asking x" "X = None \<or> X = Some r \<or> Y = X"
    and "Y = (if X = Some r then None else X)"
  shows "lock_inv Y (end_call r x st)"
proof -
  have a: "\<not> call_in asking st r" if "X \<noteq> Some r"
    using assms(2) that by (auto simp: call_in_def split: option.splits elim: holding.elims)
  show ?thesis
    using assms a unfolding lock_inv_def
    by (auto simp: socket_in_cong [of "end_call r x st" st])
qed

lemma lock_inv_hold:
  assumes "lock_inv (Some r) st" "holding x"
  shows "lock_inv None (set_call r x st)"
proof -
  have "\<not> asking x" using assms(2) by (cases x) auto
  moreover from assms have "as_calls st r \<noteq> None" by (auto simp: lock_inv_def call_in_def split: option.splits)
  ultimately show ?thesis
    using assms unfolding lock_inv_def
    by (auto simp: socket_in_cong [of "set_call r x st" st])
qed

lemma lock_inv_enter:
  assumes "lock_inv None st" "call_in (\<lambda>x. holding x \<and> x \<noteq> Awaiting) st r"
  shows "lock_inv (Some r) st"
  using assms unfolding lock_inv_def
  by (auto simp: call_in_def split: option.splits elim: holding.elims)

lemma call_in_mono: "call_in P st r \<Longrightarrow> (\<And>x. P x \<Longrightarrow> Q x) \<Longrightarrow> call_in Q st r"
  by (auto simp: call_in_def split: option.splits)

lemma lock_inv_drop_slot:
  assumes "lock_inv X st"
  shows "lock_inv X (drop_slot rid st)"
proof (cases "map_of (ap_responses (as_app st)) rid")
  case None
  with assms show ?thesis by (simp add: drop_slot_def)
next
  case (Some r)
  let ?st1 = "st\<lparr>as_app := remove_slot rid (as_app st)\<rparr>"
  have i: "lock_inv X ?st1" using assms by (simp add: lock_inv_cong [of ?st1 st])
  show ?thesis
  proof (cases "call_in (\<lambda>x. x = Awaiting) st r")
    case True
    then have h: "call_in holding ?st1 r" and n: "X \<noteq> Some r"
      using assms by (auto simp: call_in_def lock_inv_def split: option.splits)
    with lock_inv_end [OF i, of r "Returned (Inl TunnelResponseError)" X] have
      "lock_inv X (end_call r (Returned (Inl TunnelResponseError)) ?st1)" by simp
    with True show ?thesis by (auto simp: drop_slot_def Some call_in_def Let_def split: option.splits)
  next
    case False
    with i show ?thesis by (auto simp: drop_slot_def Some call_in_def Let_def split: option.splits)
  qed
qed

lemma lock_inv_open_slot: "lock_inv X st \<Longrightarrow> lock_inv X (open_slot rid r st)"
  unfolding open_slot_def Let_def
  by (subst lock_inv_cong [where st = "drop_slot rid st"]) (simp_all add: lock_inv_drop_slot)

lemma lock_inv_deliver:
  assumes "lock_inv None st"
  shows "lock_inv None (deliver L rid http st)"
proof (cases "map_of (ap_responses (as_app st)) rid")
  case None
  with assms show ?thesis by (simp add: deliver_def)
next
  case (Some r)
  let ?st1 = "st\<lparr>as_app := remove_slot rid (as_app st), as_answers := (r, http) # as_answers st\<rparr>"
  have i: "lock_inv None ?st1" using assms by (simp add: lock_inv_cong [of ?st1 st])
  show ?thesis
  proof (cases "call_in (\<lambda>x. x = Awaiting) st r")
    case True
    then have h: "call_in holding ?st1 r" by (auto simp: call_in_def split: option.splits)
    with lock_inv_end [OF i, of r "Returned (tunnel_response L http)" None] have
      "lock_inv None (end_call r (Returned (tunnel_response L http)) ?st1)" by simp
    with True show ?thesis by (auto simp: deliver_def Some call_in_def Let_def split: option.splits)
  next
    case False
    with i show ?thesis by (auto simp: deliver_def Some call_in_def Let_def split: option.splits)
  qed
qed

lemma lock_inv_queue_send: "queue_send s msg st = Some st' \<Longrightarrow> lock_inv X st' = lock_inv X st"
  by (rule lock_inv_sockets) (auto simp: queue_send_def socket_in_def split: option.splits if_splits)

lemma queue_send_fields:
  "queue_send s msg st = Some st' \<Longrightarrow> as_app st' = as_app st \<and> as_calls st' = as_calls st
    \<and> as_lock st' = as_lock st \<and> as_answers st' = as_answers st \<and> as_cleaner st' = as_cleaner st"
  by (auto simp: queue_send_def split: option.splits if_splits)

lemma lock_inv_await: "lock_inv (Some r) st \<Longrightarrow> lock_inv None (tunnel_await L r rid st)"
  by (auto simp: tunnel_await_def intro: lock_inv_hold lock_inv_end split: option.split)

lemma lock_inv_send: "lock_inv (Some r) st \<Longrightarrow> lock_inv None (tunnel_send L r rid s msg st)"
  by (auto simp: tunnel_send_def lock_inv_queue_send intro: lock_inv_hold lock_inv_end lock_inv_await
      split: option.split)

lemma lock_inv_look: "lock_inv (Some r) st \<Longrightarrow> lock_inv None (tunnel_look L r c st)"
  by (auto simp: tunnel_look_def Let_def intro: lock_inv_send lock_inv_end lock_inv_open_slot split: option.split)

lemma lock_inv_retry:
  assumes "lock_inv None st"
  shows "lock_inv None (tunnel_retry L r st)"
proof (cases "as_calls st r")
  case (Some c)
  show ?thesis
  proof (cases "tr_stage c")
    case (Sending s m)
    with Some assms have "lock_inv (Some r) st" by (intro lock_inv_enter) (simp_all add: call_in_def)
    with Some Sending show ?thesis by (simp add: tunnel_retry_def lock_inv_send)
  qed (use Some assms in \<open>simp_all add: tunnel_retry_def\<close>)
qed (use assms in \<open>simp add: tunnel_retry_def\<close>)

text \<open>Granting: a reader enters, a writer does its one statement.\<close>

lemma lock_inv_read_granted:
  assumes "lock_inv None st" "lock_grant (as_lock st) = Some (Read r, l)"
  shows "lock_inv None (read_granted L r (st\<lparr>as_lock := l\<rparr>))"
proof -
  let ?st = "st\<lparr>as_lock := l\<rparr>"
  have q: "lk_queue (as_lock st) = Read r # lk_queue l" and h: "lk_readers l = r # lk_readers (as_lock st)"
    using tokio.grant_fifo [OF assms(2)] tokio.grant_read [OF assms(2)] by simp_all
  have ask: "call_in asking st r" using assms(1) q by (auto simp: lock_inv_def)
  then have nh: "\<not> call_in holding st r" by (auto simp: call_in_def split: option.splits elim: asking.elims)
  have "call_in (\<lambda>x. x \<noteq> Awaiting) st r" using ask by (rule call_in_mono) auto
  then have i: "lock_inv (Some r) ?st"
    using assms(1) q h nh unfolding lock_inv_def
    by (auto simp: call_in_cong [of ?st st] socket_in_cong [of ?st st])
  obtain c where c: "as_calls st r = Some c" "asking (tr_stage c)"
    using ask by (auto simp: call_in_def split: option.splits)
  show ?thesis
  proof (cases "tr_stage c")
    case Listing
    let ?st' = "st\<lparr>as_lock := lock_request (Read r) (lock_release r l)\<rparr>"
    have "lock_inv None (set_call r Looking ?st')"
      using i h q unfolding lock_inv_def
      by (auto simp: call_in_cong [of ?st st] call_in_cong [of ?st' st] socket_in_cong [of ?st st]
          socket_in_cong [of "set_call r Looking ?st'" st] c)
    then show ?thesis using c Listing by (simp add: read_granted_def)
  next
    case Looking
    then show ?thesis using c i by (simp add: read_granted_def lock_inv_look)
  qed (use c in auto)
qed

lemma lock_inv_write_granted:
  assumes "lock_inv None st" "lock_grant (as_lock st) = Some (Write w, l)"
  shows "lock_inv None (write_granted w (st\<lparr>as_lock := l\<rparr>))"
proof -
  have q: "lk_queue (as_lock st) = Write w # lk_queue l" and h: "lk_readers (as_lock st) = []" "lk_readers l = []"
    using tokio.grant_fifo [OF assms(2)] tokio.grant_write [OF assms(2)] by simp_all
  show ?thesis
  proof (cases w)
    case (Insert_Tunnel s)
    then have "socket_in Registering st s" using assms(1) q by (auto simp: lock_inv_def)
    then obtain sk where sk: "as_sockets st s = Some sk" by (auto simp: socket_in_def split: option.splits)
    let ?a = "(as_app st)\<lparr>ap_tunnels := hash_insert (sk_id sk) s (ap_tunnels (as_app st))\<rparr>"
    have "lock_inv None (set_stage s Serving (st\<lparr>as_lock := l, as_app := ?a\<rparr>))"
      using assms(1) q h unfolding lock_inv_def Insert_Tunnel
      by (auto simp: call_in_cong [of "set_stage s Serving (st\<lparr>as_lock := l, as_app := ?a\<rparr>)" st]
          socket_in_cong [of "st\<lparr>as_lock := l, as_app := ?a\<rparr>" st] sk)
    then show ?thesis using sk by (simp add: write_granted_def Insert_Tunnel)
  next
    case (Remove_Tunnel tid)
    then have "as_cleaner st = Removing tid" using assms(1) q by (auto simp: lock_inv_def)
    then show ?thesis
      using assms(1) q h unfolding lock_inv_def Remove_Tunnel
      by (auto simp: write_granted_def call_in_def socket_in_def)
  qed
qed

lemma lock_inv_grant: "lock_inv None st \<Longrightarrow> lock_inv None (grant_step L st)"
  by (auto simp: grant_step_def lock_inv_read_granted lock_inv_write_granted
      split: option.split lock_request.split)

section \<open>Every step keeps the lock in order\<close>

lemma lock_inv_set_stage:
  assumes "lock_inv None st" "\<not> socket_in Registering st s" "x \<noteq> Registering"
  shows "lock_inv None (set_stage s x st)"
  using assms(1) by (subst lock_inv_sockets [where st = st]) (use assms in auto)

lemma lock_inv_act:
  assumes "lock_inv None st"
  shows "lock_inv None (app_act L secret checks e st)"
proof (cases e)
  case (Connect s tid)
  have "lock_inv None (connect_socket s tid st)"
    using assms by (subst lock_inv_sockets [where st = st]) (auto simp: connect_socket_def socket_in_def)
  then show ?thesis by (simp add: app_act_def Connect)
next
  case (First s now m ok)
  have "lock_inv None (socket_first L secret now s m ok st)"
  proof (cases "as_sockets st s")
    case (Some sk)
    show ?thesis
    proof (cases "sk_stage sk = Await_Register")
      case True
      with Some have n: "\<not> socket_in Registering st s" by (simp add: socket_in_def)
      have "lock_inv None (set_stage s Registering (st\<lparr>as_redis := rd, as_lock := lock_request (Write (Insert_Tunnel s)) (as_lock st)\<rparr>))" for rd
        using assms n unfolding lock_inv_def
        by (auto simp: call_in_def socket_in_def Some split: option.splits)
      then show ?thesis using Some True n assms
        by (auto simp: socket_first_def lock_inv_set_stage
            split: received.split ws_message.split option.split control_message.split)
    qed (use Some assms in \<open>simp add: socket_first_def\<close>)
  qed (use assms in \<open>simp add: socket_first_def\<close>)
  then show ?thesis by (simp add: app_act_def First)
next
  case (Forward s ok)
  have "lock_inv None (socket_forward s ok st)"
    using assms by (subst lock_inv_sockets [where st = st])
      (auto simp: socket_forward_def socket_in_def split: option.splits list.splits)
  then show ?thesis by (simp add: app_act_def Forward)
next
  case (Recv s now m)
  have "lock_inv None (st\<lparr>as_app := a\<rparr>)" for a
    using assms by (subst lock_inv_cong [where st = st]) simp_all
  then have "lock_inv None (socket_recv L checks now s m st)"
    using assms by (auto simp: socket_recv_def socket_in_def intro!: lock_inv_set_stage lock_inv_deliver
        split: option.split received.split ws_message.split control_message.split sum.split)
  then show ?thesis by (simp add: app_act_def Recv)
next
  case (Tell_Cleanup s)
  have "lock_inv None (st\<lparr>as_cleanup := q\<rparr>)" for q
    using assms by (subst lock_inv_cong [where st = st]) simp_all
  then have "lock_inv None (tell_cleanup s st)"
    using assms by (auto simp: tell_cleanup_def socket_in_def intro!: lock_inv_set_stage split: option.split)
  then show ?thesis by (simp add: app_act_def Tell_Cleanup)
next
  case (Cleanup_Take ok)
  have "lock_inv None (cleanup_take ok st)"
    using assms unfolding lock_inv_def
    by (auto simp: cleanup_take_def call_in_def socket_in_def split: list.split option.splits)
  then show ?thesis by (simp add: app_act_def Cleanup_Take)
next
  case (Tunnel_Start r rid call)
  have "lock_inv None (tunnel_start r rid call st)"
    using assms unfolding lock_inv_def
    by (auto simp: tunnel_start_def call_in_def socket_in_def split: option.splits)
  then show ?thesis by (simp add: app_act_def Tunnel_Start)
next
  case (Proxy_Send s msg)
  then show ?thesis using assms by (auto simp: app_act_def lock_inv_queue_send split: option.split)
qed (use assms in \<open>auto simp: app_act_def lock_inv_retry lock_inv_grant lock_inv_open_slot lock_inv_drop_slot\<close>)

text \<open>A step does what the event says, or nothing after a panic.\<close>

lemma app_step_cases:
  assumes "as_aborted st \<Longrightarrow> P st" "\<not> as_aborted st \<Longrightarrow> P (app_act L secret checks e st)"
  shows "P (app_step L secret checks e st)"
  using assms by (simp add: app_step_def)

lemma lock_inv_step: "lock_inv None st \<Longrightarrow> lock_inv None (app_step L secret checks e st)"
  by (rule app_step_cases) (simp_all add: lock_inv_act)

lemma lock_inv_init: "lock_inv None (init_app backend)"
  by (simp add: lock_inv_def init_app_def new_lock_def call_in_def socket_in_def)

lemma run_app_append: "run_app L secret checks (es @ fs) st = run_app L secret checks fs (run_app L secret checks es st)"
  by (induction es arbitrary: st) simp_all

lemma lock_inv_run: "lock_inv None st \<Longrightarrow> lock_inv None (run_app L secret checks es st)"
  by (induction es arbitrary: st) (simp_all add: lock_inv_step)

lemma lock_inv_reachable: "lock_inv None (run_app L secret checks es (init_app backend))"
  by (simp add: lock_inv_run lock_inv_init)

end
