(* ===== verification/Tunnel_App_Wf.thy ===== *)
theory Tunnel_App_Wf
  imports Tunnel_App_Inv
begin

text \<open>
  The shape of the state of the HTTP application: tables without double keys, entries that name
  sockets which exist and have that id, and bounded queues; every event keeps it.
\<close>

section \<open>The shape\<close>

definition past_registration :: "stage \<Rightarrow> bool" where
  "past_registration x = (x \<noteq> Await_Register \<and> x \<noteq> Registering)"

definition socket_wf :: "socket \<Rightarrow> bool" where
  "socket_wf sk =
     (length (sk_queue sk) \<le> QUEUE_SIZE \<and>
      (past_registration (sk_stage sk) \<or> sk_queue sk = [] \<and> sk_wire sk = []))"

text \<open>The table of tunnels over the sockets.\<close>

definition tunnels_wf :: "(string \<times> nat) list \<Rightarrow> (nat \<rightharpoonup> socket) \<Rightarrow> bool" where
  "tunnels_wf tuns socks =
     (hash_ok tuns \<and>
      (\<forall>tid s. map_of tuns tid = Some s \<longrightarrow>
        (\<exists>sk. socks s = Some sk \<and> sk_id sk = tid \<and> past_registration (sk_stage sk))))"

definition sockets_wf :: "(nat \<rightharpoonup> socket) \<Rightarrow> bool" where
  "sockets_wf socks = (\<forall>s sk. socks s = Some sk \<longrightarrow> socket_wf sk)"

definition calls_wf :: "(nat \<rightharpoonup> 'h tunnel_request) \<Rightarrow> (nat \<rightharpoonup> socket) \<Rightarrow> bool" where
  "calls_wf calls socks =
     (\<forall>r c s msg. calls r = Some c \<longrightarrow> tr_stage c = Sending s msg \<longrightarrow> socks s \<noteq> None)"

definition app_wf :: "'h app_sys \<Rightarrow> bool" where
  "app_wf st =
     (tunnels_wf (ap_tunnels (as_app st)) (as_sockets st) \<and> hash_ok (ap_responses (as_app st)) \<and>
      sockets_wf (as_sockets st) \<and> calls_wf (as_calls st) (as_sockets st) \<and> length (as_cleanup st) \<le> QUEUE_SIZE)"

section \<open>Updates\<close>

lemma wf_fields:
  "tunnels_wf (ap_tunnels (as_app st)) (as_sockets st) \<Longrightarrow> hash_ok (ap_responses (as_app st)) \<Longrightarrow>
    sockets_wf (as_sockets st) \<Longrightarrow> calls_wf (as_calls st) (as_sockets st) \<Longrightarrow> length (as_cleanup st) \<le> QUEUE_SIZE \<Longrightarrow>
    app_wf st"
  by (simp add: app_wf_def)

text \<open>A socket that keeps its id and does not go back behind its registration.\<close>

lemma wf_socket_update:
  assumes "tunnels_wf tuns socks" "sockets_wf socks" "calls_wf calls socks" "socks s = Some sk"
    and "sk_id sk' = sk_id sk" "socket_wf sk'" "past_registration (sk_stage sk) \<longrightarrow> past_registration (sk_stage sk')"
  shows "tunnels_wf tuns (socks(s \<mapsto> sk'))" "sockets_wf (socks(s \<mapsto> sk'))" "calls_wf calls (socks(s \<mapsto> sk'))"
  using assms by (fastforce simp: tunnels_wf_def, simp add: sockets_wf_def, simp add: calls_wf_def)

lemma wf_new_socket:
  assumes "tunnels_wf tuns socks" "sockets_wf socks" "calls_wf calls socks" "socks s = None" "socket_wf sk"
  shows "tunnels_wf tuns (socks(s \<mapsto> sk))" "sockets_wf (socks(s \<mapsto> sk))" "calls_wf calls (socks(s \<mapsto> sk))"
  using assms by (fastforce simp: tunnels_wf_def, simp add: sockets_wf_def, simp add: calls_wf_def)

lemma app_wf_put:
  assumes "app_wf st" "as_sockets st s = Some sk" "sk_id sk' = sk_id sk" "socket_wf sk'"
    "past_registration (sk_stage sk) \<longrightarrow> past_registration (sk_stage sk')"
  shows "app_wf (st\<lparr>as_sockets := (as_sockets st)(s \<mapsto> sk')\<rparr>)"
  using assms wf_socket_update [of "ap_tunnels (as_app st)" "as_sockets st" "as_calls st" s sk sk']
  by (simp add: app_wf_def)

lemma app_wf_socket: "app_wf st \<Longrightarrow> as_sockets st s = Some sk \<Longrightarrow> socket_wf sk"
  by (simp add: app_wf_def sockets_wf_def)

text \<open>Nothing but the stage changes.\<close>

lemma app_wf_set_stage:
  assumes "app_wf st" "x = Await_Register \<Longrightarrow> False"
    "x = Registering \<Longrightarrow> \<forall>sk. as_sockets st s = Some sk \<longrightarrow> \<not> past_registration (sk_stage sk)"
  shows "app_wf (set_stage s x st)"
proof (cases "as_sockets st s")
  case (Some sk)
  have "socket_wf (sk\<lparr>sk_stage := x\<rparr>)"
    using app_wf_socket [OF assms(1) Some] assms(2,3) Some by (auto simp: socket_wf_def past_registration_def)
  moreover have "past_registration (sk_stage sk) \<longrightarrow> past_registration x"
    using assms(2,3) Some by (auto simp: past_registration_def)
  ultimately show ?thesis
    using app_wf_put [OF assms(1) Some, of "sk\<lparr>sk_stage := x\<rparr>"] Some by (simp add: set_stage_def)
qed (simp add: set_stage_def assms(1))

lemma app_wf_set_call:
  assumes "app_wf st" "\<And>s msg. x = Sending s msg \<Longrightarrow> as_sockets st s \<noteq> None"
  shows "app_wf (set_call r x st)"
  using assms by (auto simp: app_wf_def set_call_def calls_wf_def split: option.split)

lemma app_wf_end_call: "app_wf st \<Longrightarrow> (\<And>s msg. x \<noteq> Sending s msg) \<Longrightarrow> app_wf (end_call r x st)"
  using app_wf_set_call [of st x r] by (simp add: end_call_def app_wf_def)

lemma app_wf_slot_removed: "app_wf st \<Longrightarrow> app_wf (st\<lparr>as_app := remove_slot rid (as_app st)\<rparr>)"
  by (simp add: app_wf_def remove_slot_def)

lemma app_wf_answers: "app_wf (st\<lparr>as_answers := a\<rparr>) = app_wf st"
  by (simp add: app_wf_def)

lemma app_wf_lock: "app_wf (st\<lparr>as_lock := l\<rparr>) = app_wf st"
  by (simp add: app_wf_def)

lemma app_wf_redis: "app_wf (st\<lparr>as_redis := d\<rparr>) = app_wf st"
  by (simp add: app_wf_def)

lemma app_wf_panics [simp]: "app_wf (panics st) = app_wf st"
  by (simp add: app_wf_def panics_def)

section \<open>Every step keeps the shape\<close>

lemma app_wf_drop_slot:
  assumes "app_wf st"
  shows "app_wf (drop_slot rid st)"
  using app_wf_slot_removed [OF assms, of rid] assms
  by (auto simp: drop_slot_def Let_def intro!: app_wf_end_call split: option.split)

lemma app_wf_open_slot: "app_wf st \<Longrightarrow> app_wf (open_slot rid r st)"
  using app_wf_drop_slot [of st rid] by (simp add: open_slot_def Let_def app_wf_def)

lemma app_wf_deliver:
  assumes "app_wf st"
  shows "app_wf (deliver L rid http st)"
proof -
  have "app_wf (st\<lparr>as_app := remove_slot rid (as_app st), as_answers := a\<rparr>)" for a
    using app_wf_slot_removed [OF assms, of rid] by (simp add: app_wf_def)
  with assms show ?thesis
    by (auto simp: deliver_def Let_def intro!: app_wf_end_call split: option.split)
qed

lemma app_wf_queue_send:
  assumes "app_wf st" "\<not> queue_full s st" "queue_send s msg st = Some st'"
  shows "app_wf st'"
proof -
  obtain sk where sk: "as_sockets st s = Some sk" "sk_stage sk = Serving"
      "st' = st\<lparr>as_sockets := (as_sockets st)(s \<mapsto> sk\<lparr>sk_queue := sk_queue sk @ [msg]\<rparr>)\<rparr>"
    using assms(3) by (auto simp: queue_send_def split: option.splits if_splits)
  have "socket_wf (sk\<lparr>sk_queue := sk_queue sk @ [msg]\<rparr>)"
    using assms(2) sk(1,2) by (simp add: queue_full_def socket_wf_def past_registration_def)
  with app_wf_put [OF assms(1) sk(1), of "sk\<lparr>sk_queue := sk_queue sk @ [msg]\<rparr>"] show ?thesis by (simp add: sk(3))
qed

lemma app_wf_await: "app_wf st \<Longrightarrow> app_wf (tunnel_await L r rid st)"
  by (auto simp: tunnel_await_def intro!: app_wf_end_call app_wf_set_call split: option.split)

lemma app_wf_send:
  assumes "app_wf st"
  shows "app_wf (tunnel_send L r rid s msg st)"
proof (cases "queue_full s st")
  case True
  then have "as_sockets st s \<noteq> None" by (auto simp: queue_full_def split: option.splits)
  with True assms show ?thesis by (auto simp: tunnel_send_def intro!: app_wf_set_call)
next
  case False
  with assms show ?thesis
    by (auto simp: tunnel_send_def intro!: app_wf_end_call app_wf_await split: option.split dest: app_wf_queue_send)
qed

lemma app_wf_look: "app_wf st \<Longrightarrow> app_wf (tunnel_look L r c st)"
  by (auto simp: tunnel_look_def Let_def app_wf_open_slot intro!: app_wf_end_call app_wf_send split: option.split)

lemma app_wf_read_granted:
  assumes "app_wf st"
  shows "app_wf (read_granted L r st)"
proof -
  have "app_wf (st\<lparr>as_lock := l\<rparr>)" for l using assms by (simp add: app_wf_lock)
  with assms show ?thesis
    by (auto simp: read_granted_def intro!: app_wf_set_call app_wf_look split: option.split call_stage.split)
qed

lemma app_wf_write_granted:
  assumes "app_wf st"
  shows "app_wf (write_granted w st)"
proof (cases w)
  case (Remove_Tunnel tid)
  then show ?thesis using assms by (auto simp: write_granted_def app_wf_def tunnels_wf_def)
next
  case (Insert_Tunnel s)
  show ?thesis
  proof (cases "as_sockets st s")
    case (Some sk)
    have st: "app_wf (set_stage s Serving st)" by (rule app_wf_set_stage [OF assms]) simp_all
    have "write_granted w st = (set_stage s Serving st)\<lparr>as_app := (as_app st)\<lparr>ap_tunnels := hash_insert (sk_id sk) s (ap_tunnels (as_app st))\<rparr>\<rparr>"
      using Some Insert_Tunnel by (simp add: write_granted_def set_stage_def)
    with st Some show ?thesis
      by (auto simp: app_wf_def tunnels_wf_def past_registration_def)
  qed (simp add: write_granted_def Insert_Tunnel assms)
qed

lemma app_wf_grant: "app_wf st \<Longrightarrow> app_wf (grant_step L st)"
  by (auto simp: grant_step_def app_wf_lock intro!: app_wf_read_granted app_wf_write_granted
      split: option.split lock_request.split)

lemma app_wf_first:
  assumes "app_wf st"
  shows "app_wf (socket_first L secret now s m ok st)"
proof (cases "as_sockets st s")
  case (Some sk)
  show ?thesis
  proof (cases "sk_stage sk = Await_Register")
    case True
    have r: "app_wf (set_stage s Registering (st\<lparr>as_redis := d, as_lock := l\<rparr>))" for d l
      by (rule app_wf_set_stage) (use assms Some True in \<open>simp_all add: app_wf_lock app_wf_redis past_registration_def\<close>)
    show ?thesis using Some True assms r
      by (auto simp: socket_first_def intro!: app_wf_set_stage
          split: received.split ws_message.split option.split control_message.split)
  qed (use Some assms in \<open>simp add: socket_first_def\<close>)
qed (use assms in \<open>simp add: socket_first_def\<close>)

lemma app_wf_forward:
  assumes "app_wf st"
  shows "app_wf (socket_forward s ok st)"
proof (cases "as_sockets st s")
  case (Some sk)
  show ?thesis
  proof (cases "sk_stage sk = Serving \<and> sk_queue sk \<noteq> []")
    case True
    then obtain m ms where q: "sk_queue sk = m # ms" by (cases "sk_queue sk") auto
    let ?sk = "if ok then sk\<lparr>sk_queue := ms, sk_wire := sk_wire sk @ [m]\<rparr> else sk\<lparr>sk_queue := ms, sk_stage := Closing\<rparr>"
    have "socket_wf ?sk" "past_registration (sk_stage ?sk)" "sk_id ?sk = sk_id sk"
      using app_wf_socket [OF assms Some] True q by (auto simp: socket_wf_def past_registration_def)
    with app_wf_put [OF assms Some, of ?sk] Some True q show ?thesis by (simp add: socket_forward_def)
  next
    case False
    with Some assms show ?thesis by (auto simp: socket_forward_def split: list.split)
  qed
qed (use assms in \<open>simp add: socket_forward_def\<close>)

lemma app_wf_recv:
  assumes "app_wf st"
  shows "app_wf (socket_recv L checks now s m st)"
proof -
  have "app_wf (st\<lparr>as_app := (as_app st)\<lparr>ap_health := h\<rparr>\<rparr>)" for h using assms by (simp add: app_wf_def)
  with assms show ?thesis
    by (auto simp: socket_recv_def intro!: app_wf_set_stage app_wf_deliver
        split: option.split received.split ws_message.split control_message.split sum.split)
qed

lemma app_wf_tell:
  assumes "app_wf st"
  shows "app_wf (tell_cleanup s st)"
proof -
  have "app_wf (st\<lparr>as_cleanup := as_cleanup st @ [i]\<rparr>)" if "\<not> QUEUE_SIZE \<le> length (as_cleanup st)" for i
    using assms that by (simp add: app_wf_def)
  with assms show ?thesis by (auto simp: tell_cleanup_def intro!: app_wf_set_stage split: option.split)
qed

lemma app_wf_take: "app_wf st \<Longrightarrow> app_wf (cleanup_take ok st)"
  by (auto simp: cleanup_take_def app_wf_def split: list.split)

lemma app_wf_connect:
  assumes "app_wf st"
  shows "app_wf (connect_socket s tid st)"
proof (cases "as_sockets st s")
  case None
  let ?sk = "\<lparr>sk_id = tid, sk_stage = Await_Register, sk_queue = [], sk_wire = []\<rparr>"
  have "socket_wf ?sk" by (simp add: socket_wf_def)
  with assms None wf_new_socket [of "ap_tunnels (as_app st)" "as_sockets st" "as_calls st" s ?sk] show ?thesis
    by (simp add: connect_socket_def app_wf_def)
qed (simp add: connect_socket_def assms)

lemma app_wf_start: "app_wf st \<Longrightarrow> app_wf (tunnel_start r rid call st)"
  by (auto simp: tunnel_start_def app_wf_def calls_wf_def)

lemma app_wf_act:
  assumes "app_wf st"
  shows "app_wf (app_act L secret checks e st)"
proof (cases e)
  case (Proxy_Send s msg)
  then show ?thesis using assms by (auto simp: app_act_def split: option.split dest: app_wf_queue_send)
next
  case (Tunnel_Retry r)
  then show ?thesis using assms
    by (auto simp: app_act_def tunnel_retry_def intro!: app_wf_send split: option.split call_stage.split)
qed (simp_all add: app_act_def assms app_wf_connect app_wf_first app_wf_forward app_wf_recv app_wf_tell app_wf_take
    app_wf_start app_wf_grant app_wf_open_slot app_wf_drop_slot)

lemma app_wf_run: "app_wf st \<Longrightarrow> app_wf (run_app L secret checks es st)"
proof (induction es arbitrary: st)
  case (Cons e es)
  have "app_wf (app_step L secret checks e st)"
    by (rule app_step_cases) (simp_all add: Cons.prems app_wf_act)
  with Cons.IH show ?case by simp
qed simp

text \<open>
  C18. In every state the application can reach its tables and queues are well formed: no id and no
  request has two entries, an entry of the tunnels names a socket that exists, was connected under that id
  and has registered, nothing is queued or written before a socket has registered, and no queue of a
  socket or of the cleanup task holds more than its bound of 100.
\<close>

theorem application_is_well_formed: "app_wf (run_app L secret checks es (init_app backend))"
  by (rule app_wf_run) (simp add: app_wf_def init_app_def tunnels_wf_def sockets_wf_def calls_wf_def)

end
