(* ===== verification/Tunnel_App_Props.thy ===== *)
theory Tunnel_App_Props
  imports Tunnel_App_Inv
begin

text \<open>
  Properties of the HTTP application: the discipline of the lock, authentication of registered tunnels,
  answers and their requests, and what an unanswered request does to everybody else.
\<close>

section \<open>An instance of the libraries\<close>

text \<open>
  Header maps as lists, a JSON of three messages, and tokens that carry their secret, the expiry in unary
  and the subject.
\<close>

definition plain_encode :: "string \<Rightarrow> claims \<Rightarrow> string option" where
  "plain_encode k c = Some (k @ ''.'' @ replicate (claim_exp c) (CHR ''1'') @ ''.'' @ claim_sub c)"

definition plain_decode :: "string \<Rightarrow> nat \<Rightarrow> string \<Rightarrow> claims option" where
  "plain_decode k now t =
     (case strip_prefix (k @ ''.'') t of
        None \<Rightarrow> None
      | Some u \<Rightarrow>
          (let e = length (takeWhile (\<lambda>x. x = CHR ''1'') u)
           in if now \<le> e then Some \<lparr>claim_sub = drop (e + 1) u, claim_exp = e\<rparr> else None))"

definition list_app :: "(string \<times> string) list app_lib" where
  "list_app =
     \<lparr>hdr_empty = [], hdr_get = map_of, hdr_insert = (\<lambda>h n v. filter (\<lambda>e. fst e \<noteq> n) h @ [(n, v)]),
      hdr_iter = (\<lambda>h. h), visible = visible_ascii, value_ok = visible_ascii,
      header_name = (\<lambda>n. if n = [] then None else Some n), status_ok = (\<lambda>s. 100 \<le> s \<and> s < 1000),
      uri_ok = (\<lambda>u. u \<noteq> []), to_json = (\<lambda>m. Some ''{}''),
      hdr_append = (\<lambda>h n v. h @ [(n, v)]),
      from_json = (\<lambda>t. case t of
          [] \<Rightarrow> None
        | c # u \<Rightarrow>
            if c = CHR ''R'' then Some (Register u ''app'')
            else if c = CHR ''H'' then Some (HealthUpdate (idle_machine\<lparr>total_memory := 2, used_memory := 1, total_swap := 2, used_swap := 3\<rparr>) u)
            else if c = CHR ''A'' then Some (Response u \<lparr>rs_status = 200, rs_headers = [], rs_body = [1]\<rparr>)
            else None),
      jwt_encode = plain_encode, jwt_decode = plain_decode\<rparr>"

definition get_x :: "(string \<times> string) list tunnel_call" where
  "get_x = \<lparr>tc_id = ''app'', tc_method = ''GET'', tc_path = ''x'', tc_headers = [], tc_body = []\<rparr>"

text \<open>A tunnel registers, then a request for it is sent and waits.\<close>

definition registers :: "(string \<times> string) list app_event list" where
  "registers = [Connect 1 ''app'', First 1 0 (Got (Ws_Text ''Rk.11.test'')) True, Grant]"

definition asks :: "(string \<times> string) list app_event list" where
  "asks = registers @ [Tunnel_Start 5 ''r1'' get_x, Grant, Grant]"

section \<open>Slots\<close>

definition rid_of :: "'h app_sys \<Rightarrow> nat \<Rightarrow> string option" where
  "rid_of st r = map_option tr_rid (as_calls st r)"

lemma rid_of_set_call [simp]: "rid_of (panics st) = rid_of st" "rid_of (set_call r x st) = rid_of st" "rid_of (end_call r x st) = rid_of st"
  by (auto simp: rid_of_def fun_eq_iff option.map_comp comp_def)

lemma rid_of_cong: "as_calls st = as_calls st' \<Longrightarrow> rid_of st = rid_of st'"
  by (simp add: rid_of_def fun_eq_iff)

lemma rid_of_update [simp]: "rid_of (st\<lparr>as_app := a\<rparr>) = rid_of st" "rid_of (st\<lparr>as_lock := l\<rparr>) = rid_of st"
  by (simp_all add: rid_of_def fun_eq_iff)

lemma drop_slot_frame [simp]:
  "rid_of (drop_slot rid st) = rid_of st" "as_sockets (drop_slot rid st) = as_sockets st"
  "ap_tunnels (as_app (drop_slot rid st)) = ap_tunnels (as_app st)"
  "lk_queue (as_lock (drop_slot rid st)) = lk_queue (as_lock st)"
  "as_answers (drop_slot rid st) = as_answers st"
  "map_of (ap_responses (as_app (drop_slot rid st))) = (map_of (ap_responses (as_app st)))(rid := None)"
  by (auto simp: drop_slot_def Let_def remove_slot_def rid_of_def fun_eq_iff split: option.splits)

lemma open_slot_frame [simp]:
  "rid_of (open_slot rid r st) = rid_of st" "as_sockets (open_slot rid r st) = as_sockets st"
  "ap_tunnels (as_app (open_slot rid r st)) = ap_tunnels (as_app st)"
  "lk_queue (as_lock (open_slot rid r st)) = lk_queue (as_lock st)"
  "as_answers (open_slot rid r st) = as_answers st"
  "map_of (ap_responses (as_app (open_slot rid r st))) = (map_of (ap_responses (as_app st)))(rid \<mapsto> r)"
  "as_calls (open_slot rid r st) = as_calls (drop_slot rid st)"
  by (simp_all add: open_slot_def Let_def)

lemma deliver_frame [simp]:
  "rid_of (deliver L rid http st) = rid_of st" "as_sockets (deliver L rid http st) = as_sockets st"
  "ap_tunnels (as_app (deliver L rid http st)) = ap_tunnels (as_app st)"
  "lk_queue (as_lock (deliver L rid http st)) = lk_queue (as_lock st)"
  "map_of (ap_responses (as_app (deliver L rid http st))) = (map_of (ap_responses (as_app st)))(rid := None)"
  by (auto simp: deliver_def Let_def remove_slot_def rid_of_def fun_eq_iff split: option.splits)

lemma slot_ends_only_awaiting:
  "as_calls (drop_slot rid st) r = Some c \<Longrightarrow> as_calls st r = Some c \<or>
    map_of (ap_responses (as_app st)) rid = Some r \<and> call_in (\<lambda>x. x = Awaiting) st r
      \<and> tr_stage c = Returned (Inl TunnelResponseError)"
  by (auto simp: drop_slot_def Let_def call_in_def split: option.splits if_splits)

lemma deliver_ends_only_awaiting:
  "as_calls (deliver L rid http st) r = Some c \<Longrightarrow> as_calls st r = Some c \<or>
    map_of (ap_responses (as_app st)) rid = Some r \<and> call_in (\<lambda>x. x = Awaiting) st r
      \<and> tr_stage c = Returned (tunnel_response L http)"
  by (auto simp: deliver_def Let_def call_in_def split: option.splits if_splits)

lemma drop_slot_other: "map_of (ap_responses (as_app st)) rid \<noteq> Some r \<Longrightarrow> as_calls (drop_slot rid st) r = as_calls st r"
  by (auto simp: drop_slot_def Let_def split: option.splits)

lemma deliver_other: "map_of (ap_responses (as_app st)) rid \<noteq> Some r \<Longrightarrow> as_calls (deliver L rid http st) r = as_calls st r"
  by (auto simp: deliver_def Let_def split: option.splits)

lemma not_awaiting_stays:
  assumes "\<not> call_in (\<lambda>x. x = Awaiting) st r"
  shows "as_calls (drop_slot rid st) r = as_calls st r" "as_calls (deliver L rid http st) r = as_calls st r"
  using assms by (auto simp: drop_slot_def deliver_def Let_def call_in_def split: option.splits)

lemma send_frame [simp]:
  "rid_of (tunnel_await L r rid st) = rid_of st" "rid_of (tunnel_send L r rid s msg st) = rid_of st"
  "ap_responses (as_app (tunnel_await L r rid st)) = ap_responses (as_app st)"
  "ap_responses (as_app (tunnel_send L r rid s msg st)) = ap_responses (as_app st)"
  "ap_tunnels (as_app (tunnel_await L r rid st)) = ap_tunnels (as_app st)"
  "ap_tunnels (as_app (tunnel_send L r rid s msg st)) = ap_tunnels (as_app st)"
  "lk_queue (as_lock (tunnel_await L r rid st)) = lk_queue (as_lock st)"
  "lk_queue (as_lock (tunnel_send L r rid s msg st)) = lk_queue (as_lock st)"
  "as_answers (tunnel_await L r rid st) = as_answers st"
  "as_answers (tunnel_send L r rid s msg st) = as_answers st"
  by (auto simp: tunnel_await_def tunnel_send_def split: option.splits dest!: queue_send_fields intro!: rid_of_cong)

lemma send_other: "r' \<noteq> r \<Longrightarrow> as_calls (tunnel_send L r rid s msg st) r' = as_calls st r'"
  by (auto simp: tunnel_await_def tunnel_send_def split: option.splits dest!: queue_send_fields)

lemma look_frame [simp]:
  "rid_of (tunnel_look L r c st) = rid_of st"
  "ap_tunnels (as_app (tunnel_look L r c st)) = ap_tunnels (as_app st)"
  "lk_queue (as_lock (tunnel_look L r c st)) = lk_queue (as_lock st)"
  "as_answers (tunnel_look L r c st) = as_answers st"
  by (auto simp: tunnel_look_def Let_def split: option.splits)

lemma look_other: "r' \<noteq> r \<Longrightarrow> as_calls (tunnel_look L r c st) r' \<in> {as_calls st r', as_calls (drop_slot (tr_rid c) st) r'}"
  by (auto simp: tunnel_look_def Let_def send_other split: option.splits)

section \<open>The queue of the lock\<close>

text \<open>Requests are only added at the end, and only a grant takes one off.\<close>

lemma queue_act:
  "e \<noteq> Grant \<Longrightarrow> \<exists>xs. lk_queue (as_lock (app_act L secret checks e st)) = lk_queue (as_lock st) @ xs"
  by (cases e)
    (auto simp: app_act_def connect_socket_def socket_first_def socket_forward_def socket_recv_def tell_cleanup_def
      cleanup_take_def tunnel_start_def tunnel_retry_def
      split: option.splits received.splits ws_message.splits control_message.splits sum.splits list.splits
        call_stage.splits dest!: queue_send_fields)

lemma queue_step:
  "e \<noteq> Grant \<Longrightarrow> \<exists>xs. lk_queue (as_lock (app_step L secret checks e st)) = lk_queue (as_lock st) @ xs"
  by (rule app_step_cases) (simp_all add: queue_act)

lemma queue_grant:
  "lock_grant (as_lock st) = Some (x, l) \<Longrightarrow> \<exists>xs. lk_queue (as_lock (grant_step L st)) = lk_queue l @ xs"
  by (cases x)
    (auto simp: grant_step_def read_granted_def write_granted_def split: option.splits call_stage.splits map_write.splits)

section \<open>Slots and calls\<close>

text \<open>
  A slot belongs to the request whose id it has; a handler that waits has its slot; a response that was
  delivered, and one that was returned, came under the id of its request (\<open>P rid http\<close>).
\<close>

definition slot_inv :: "('h, 'm) app_lib_scheme \<Rightarrow> (string \<Rightarrow> http_response \<Rightarrow> bool) \<Rightarrow> 'h app_sys \<Rightarrow> bool" where
  "slot_inv L P st =
     ((\<forall>rid r x. map_of (ap_responses (as_app st)) rid = Some r \<longrightarrow> rid_of st r = Some x \<longrightarrow> x = rid)
      \<and> (\<forall>r c. as_calls st r = Some c \<longrightarrow> tr_stage c = Awaiting \<longrightarrow>
           map_of (ap_responses (as_app st)) (tr_rid c) = Some r)
      \<and> (\<forall>r http x. (r, http) \<in> set (as_answers st) \<longrightarrow> rid_of st r = Some x \<longrightarrow> P x http)
      \<and> (\<forall>r c resp. as_calls st r = Some c \<longrightarrow> tr_stage c = Returned (Inr resp) \<longrightarrow>
           (\<exists>http. P (tr_rid c) http \<and> tunnel_response L http = Inr resp)))"

lemma slot_invD:
  assumes "slot_inv L P st"
  shows "map_of (ap_responses (as_app st)) rid = Some r \<Longrightarrow> rid_of st r = Some x \<Longrightarrow> x = rid"
    and "as_calls st r = Some c \<Longrightarrow> tr_stage c = Awaiting \<Longrightarrow> map_of (ap_responses (as_app st)) (tr_rid c) = Some r"
    and "(r, http) \<in> set (as_answers st) \<Longrightarrow> rid_of st r = Some x \<Longrightarrow> P x http"
    and "as_calls st r = Some c \<Longrightarrow> tr_stage c = Returned (Inr resp) \<Longrightarrow>
      \<exists>http. P (tr_rid c) http \<and> tunnel_response L http = Inr resp"
  using assms unfolding slot_inv_def by blast+

lemma slot_inv_cong:
  assumes "slot_inv L P st" "ap_responses (as_app st') = ap_responses (as_app st)"
    "as_calls st' = as_calls st" "as_answers st' = as_answers st"
  shows "slot_inv L P st'"
  using assms by (simp add: slot_inv_def rid_of_def)

lemma slot_inv_panics [simp]: "slot_inv L P (panics st) = slot_inv L P st"
  by (simp add: slot_inv_def)

lemma slot_inv_set_call:
  assumes i: "slot_inv L P st" and a: "x = Awaiting \<Longrightarrow> \<exists>rid. rid_of st r = Some rid \<and> map_of (ap_responses (as_app st)) rid = Some r"
    and b: "\<And>resp rid. x = Returned (Inr resp) \<Longrightarrow> rid_of st r = Some rid \<Longrightarrow>
      \<exists>http. P rid http \<and> tunnel_response L http = Inr resp"
  shows "slot_inv L P (set_call r x st)"
  unfolding slot_inv_def
  using slot_invD [OF i] a b by (auto simp: rid_of_def)

lemma slot_inv_end_call:
  assumes "slot_inv L P st" "x \<noteq> Awaiting"
    and "\<And>resp rid. x = Returned (Inr resp) \<Longrightarrow> rid_of st r = Some rid \<Longrightarrow>
      \<exists>http. P rid http \<and> tunnel_response L http = Inr resp"
  shows "slot_inv L P (end_call r x st)"
  unfolding end_call_def
  by (rule slot_inv_cong [OF slot_inv_set_call [of L P st x r]]) (use assms in auto)

lemma slot_inv_drop_slot:
  assumes i: "slot_inv L P st"
  shows "slot_inv L P (drop_slot rid st)"
  unfolding slot_inv_def
proof (intro conjI allI impI)
  fix rid' r x
  assume "map_of (ap_responses (as_app (drop_slot rid st))) rid' = Some r" "rid_of (drop_slot rid st) r = Some x"
  then show "x = rid'" using slot_invD(1) [OF i] by (auto split: if_splits)
next
  fix r c
  assume c: "as_calls (drop_slot rid st) r = Some c" "tr_stage c = Awaiting"
  with slot_ends_only_awaiting [OF c(1)] have c': "as_calls st r = Some c" by auto
  from slot_invD(2) [OF i c' c(2)] have m: "map_of (ap_responses (as_app st)) (tr_rid c) = Some r" .
  have "tr_rid c \<noteq> rid"
    using m c c' by (auto simp: drop_slot_def Let_def split: option.splits if_splits dest!: arg_cong [where f = tr_stage])
  with m show "map_of (ap_responses (as_app (drop_slot rid st))) (tr_rid c) = Some r" by simp
next
  fix r http x
  assume "(r, http) \<in> set (as_answers (drop_slot rid st))" "rid_of (drop_slot rid st) r = Some x"
  then show "P x http" using slot_invD(3) [OF i] by simp
next
  fix r c resp
  assume c: "as_calls (drop_slot rid st) r = Some c" "tr_stage c = Returned (Inr resp)"
  with slot_ends_only_awaiting [OF c(1)] have "as_calls st r = Some c" by auto
  from slot_invD(4) [OF i this c(2)] show "\<exists>http. P (tr_rid c) http \<and> tunnel_response L http = Inr resp" .
qed

lemma slot_inv_open_slot:
  assumes i: "slot_inv L P st" and r: "\<And>x. rid_of st r = Some x \<Longrightarrow> x = rid" "\<not> call_in (\<lambda>x. x = Awaiting) st r"
  shows "slot_inv L P (open_slot rid r st)"
proof -
  note d = slot_inv_drop_slot [OF i, of rid]
  show ?thesis
    unfolding slot_inv_def
  proof (intro conjI allI impI)
    fix rid' r' x
    assume "map_of (ap_responses (as_app (open_slot rid r st))) rid' = Some r'" "rid_of (open_slot rid r st) r' = Some x"
    then show "x = rid'" using slot_invD(1) [OF i] r by (auto split: if_splits)
  next
    fix r' c
    assume c: "as_calls (open_slot rid r st) r' = Some c" "tr_stage c = Awaiting"
    with slot_invD(2) [OF d, of r' c] show "map_of (ap_responses (as_app (open_slot rid r st))) (tr_rid c) = Some r'"
      by (auto split: if_splits)
  next
    fix r' http x
    assume "(r', http) \<in> set (as_answers (open_slot rid r st))" "rid_of (open_slot rid r st) r' = Some x"
    then show "P x http" using slot_invD(3) [OF i] by simp
  next
    fix r' c resp
    assume "as_calls (open_slot rid r st) r' = Some c" "tr_stage c = Returned (Inr resp)"
    with slot_invD(4) [OF d] show "\<exists>http. P (tr_rid c) http \<and> tunnel_response L http = Inr resp" by simp
  qed
qed

lemma slot_inv_deliver:
  assumes i: "slot_inv L P st" and P: "P rid http"
  shows "slot_inv L P (deliver L rid http st)"
  unfolding slot_inv_def
proof (intro conjI allI impI)
  fix rid' r x
  assume "map_of (ap_responses (as_app (deliver L rid http st))) rid' = Some r" "rid_of (deliver L rid http st) r = Some x"
  then show "x = rid'" using slot_invD(1) [OF i] by (auto split: if_splits)
next
  fix r c
  assume c: "as_calls (deliver L rid http st) r = Some c" "tr_stage c = Awaiting"
  with deliver_ends_only_awaiting [OF c(1)] have c': "as_calls st r = Some c" by auto
  from slot_invD(2) [OF i c' c(2)] have m: "map_of (ap_responses (as_app st)) (tr_rid c) = Some r" .
  have "tr_rid c \<noteq> rid"
    using m c c' by (auto simp: deliver_def Let_def split: option.splits if_splits dest!: arg_cong [where f = tr_stage])
  with m show "map_of (ap_responses (as_app (deliver L rid http st))) (tr_rid c) = Some r" by simp
next
  fix r http' x
  assume a: "(r, http') \<in> set (as_answers (deliver L rid http st))" "rid_of (deliver L rid http st) r = Some x"
  then have "(r, http') \<in> set (as_answers st) \<or> http' = http \<and> map_of (ap_responses (as_app st)) rid = Some r"
    by (auto simp: deliver_def Let_def split: option.splits if_splits)
  then show "P x http'" using slot_invD(1,3) [OF i] P a(2) by auto
next
  fix r c resp
  assume c: "as_calls (deliver L rid http st) r = Some c" "tr_stage c = Returned (Inr resp)"
  show "\<exists>http. P (tr_rid c) http \<and> tunnel_response L http = Inr resp"
  proof (cases "as_calls st r = Some c")
    case True
    from slot_invD(4) [OF i this c(2)] show ?thesis .
  next
    case False
    with deliver_ends_only_awaiting [OF c(1)] c(2)
    have "map_of (ap_responses (as_app st)) rid = Some r" "tunnel_response L http = Inr resp" by auto
    moreover have "rid_of (deliver L rid http st) r = Some (tr_rid c)"
      unfolding rid_of_def c(1) by simp
    then have "rid_of st r = Some (tr_rid c)" by simp
    ultimately show ?thesis using slot_invD(1) [OF i] P by blast
  qed
qed

lemma slot_inv_send:
  assumes i: "slot_inv L P st" and r: "rid_of st r = Some rid"
  shows "slot_inv L P (tunnel_send L r rid s msg st)"
proof -
  have aw: "slot_inv L P (tunnel_await L r rid st')" if st': "slot_inv L P st'" "rid_of st' r = Some rid" for st'
    using st' by (auto simp: tunnel_await_def intro!: slot_inv_set_call slot_inv_end_call
        dest: map_of_SomeD slot_invD(3) split: option.split)
  have "slot_inv L P st' \<and> rid_of st' r = Some rid" if "queue_send s msg st = Some st'" for st'
    using queue_send_fields [OF that] slot_inv_cong [OF i, of st'] r by (auto simp: rid_of_def)
  with i r show ?thesis
    by (auto simp: tunnel_send_def intro!: aw slot_inv_set_call slot_inv_end_call split: option.split)
qed

lemma slot_inv_look:
  assumes i: "slot_inv L P st" and c: "rid_of st r = Some (tr_rid c)" "\<not> call_in (\<lambda>x. x = Awaiting) st r"
  shows "slot_inv L P (tunnel_look L r c st)"
proof -
  have "slot_inv L P (open_slot (tr_rid c) r st)" using c by (intro slot_inv_open_slot [OF i]) auto
  with i c show ?thesis
    by (auto simp: tunnel_look_def Let_def intro!: slot_inv_end_call slot_inv_send split: option.split)
qed

lemma slot_inv_grant:
  assumes i: "slot_inv L P st" and l: "lock_inv None st"
  shows "slot_inv L P (grant_step L st)"
proof -
  have g: "slot_inv L P (st\<lparr>as_lock := l\<rparr>)" for l by (rule slot_inv_cong [OF i]) simp_all
  have "slot_inv L P (write_granted w (st\<lparr>as_lock := l\<rparr>))" for w l
    by (rule slot_inv_cong [OF i]) (auto simp: write_granted_def split: map_write.split option.split)
  moreover have "slot_inv L P (read_granted L r (st\<lparr>as_lock := l\<rparr>))" for r l
  proof (cases "as_calls st r")
    case (Some c)
    show ?thesis
    proof (cases "tr_stage c")
      case Listing
      let ?st = "st\<lparr>as_lock := lock_request (Read r) (lock_release r l)\<rparr>"
      have "slot_inv L P (set_call r Looking ?st)" by (rule slot_inv_set_call [OF g]) simp_all
      with Some Listing show ?thesis by (simp add: read_granted_def)
    next
      case Looking
      with Some have "slot_inv L P (tunnel_look L r c (st\<lparr>as_lock := l\<rparr>))"
        by (intro slot_inv_look [OF g]) (simp_all add: rid_of_def call_in_def)
      with Some Looking show ?thesis by (simp add: read_granted_def)
    qed (use Some g in \<open>simp_all add: read_granted_def\<close>)
  qed (auto simp: read_granted_def intro: slot_inv_cong [OF g])
  ultimately show ?thesis by (auto simp: grant_step_def i split: option.split lock_request.split)
qed

lemma no_value: "map_of xs k = Some v \<Longrightarrow> v \<notin> snd ` set xs \<Longrightarrow> False"
  by (force dest: map_of_SomeD)

lemma no_key: "(k, v) \<in> set xs \<Longrightarrow> k \<notin> fst ` set xs \<Longrightarrow> False"
  by force

lemma slot_inv_act:
  assumes i: "slot_inv L P st" and l: "lock_inv None st"
    and P: "\<And>s now t rid http. e = Recv s now (Got (Ws_Text t)) \<Longrightarrow> from_json L t = Some (Response rid http) \<Longrightarrow> P rid http"
  shows "slot_inv L P (app_act L secret checks e st)"
proof (cases e)
  case (Recv s now m)
  then show ?thesis using P i
    by (auto simp: app_act_def socket_recv_def intro!: slot_inv_deliver intro: slot_inv_cong [OF i]
        split: option.split received.split ws_message.split control_message.split sum.split)
next
  case (Tunnel_Start r rid call)
  then show ?thesis using i
    by (auto simp: app_act_def tunnel_start_def slot_inv_def rid_of_def dest: no_value no_key)
next
  case (Tunnel_Retry r)
  then show ?thesis using i
    by (auto simp: app_act_def tunnel_retry_def rid_of_def intro!: slot_inv_send split: option.split call_stage.split)
next
  case (Proxy_Slot r rid)
  then show ?thesis using i
    by (auto simp: app_act_def rid_of_def call_in_def intro!: slot_inv_open_slot)
next
  case (Proxy_Send s msg)
  then show ?thesis using i
    by (auto simp: app_act_def dest!: queue_send_fields intro: slot_inv_cong [OF i] split: option.split)
qed (use i l in \<open>auto simp: app_act_def connect_socket_def socket_first_def socket_forward_def tell_cleanup_def
    cleanup_take_def slot_inv_grant slot_inv_drop_slot intro!: slot_inv_cong [OF i]
    split: option.split received.split ws_message.split control_message.split list.split\<close>)

lemma slot_inv_step:
  assumes i: "slot_inv L P st" and l: "lock_inv None st"
    and P: "\<And>s now t rid http. e = Recv s now (Got (Ws_Text t)) \<Longrightarrow> from_json L t = Some (Response rid http) \<Longrightarrow> P rid http"
  shows "slot_inv L P (app_step L secret checks e st)"
  by (rule app_step_cases) (rule i, rule slot_inv_act [OF i l], rule P, assumption+)

lemma slot_inv_run:
  assumes "slot_inv L P st" "lock_inv None st"
    and "\<And>s now t rid http. Recv s now (Got (Ws_Text t)) \<in> set es \<Longrightarrow> from_json L t = Some (Response rid http) \<Longrightarrow> P rid http"
  shows "slot_inv L P (run_app L secret checks es st)"
  using assms
proof (induction es arbitrary: st)
  case (Cons e es)
  have "slot_inv L P (app_step L secret checks e st)" 
  proof (rule slot_inv_step [OF Cons.prems(1,2)])
    fix s now t rid http
    assume "e = Recv s now (Got (Ws_Text t))" "from_json L t = Some (Response rid http)"
    then show "P rid http" using Cons.prems(3) [of s now t rid http] by simp
  qed
  moreover have "lock_inv None (app_step L secret checks e st)" by (rule lock_inv_step [OF Cons.prems(2)])
  ultimately show ?case by (simp, intro Cons.IH) (auto intro: Cons.prems(3))
qed simp

lemma slot_inv_init: "slot_inv L P (init_app backend)"
  by (simp add: slot_inv_def init_app_def rid_of_def)

text \<open>
  C33. The lock is in order in every interleaving: the guards inside are those of the requests that send
  to a tunnel or wait for its answer, a request that has returned or crashed holds none, and a task is
  in the queue, once, exactly while it asks for the lock; so no guard leaks and no waiting task is
  forgotten.
\<close>

theorem lock_discipline:
  fixes evs backend L secret checks
  defines "st \<equiv> run_app L secret checks evs (init_app backend)"
  shows "distinct (lk_readers (as_lock st)) \<and> distinct (lk_queue (as_lock st))
    \<and> (\<forall>r. r \<in> set (lk_readers (as_lock st)) \<longleftrightarrow> call_in holding st r)
    \<and> (\<forall>r. Read r \<in> set (lk_queue (as_lock st)) \<longleftrightarrow> call_in asking st r)
    \<and> (\<forall>s. Write (Insert_Tunnel s) \<in> set (lk_queue (as_lock st)) \<longleftrightarrow> socket_in Registering st s)
    \<and> (\<forall>tid. Write (Remove_Tunnel tid) \<in> set (lk_queue (as_lock st)) \<longleftrightarrow> as_cleaner st = Removing tid)"
  using lock_inv_reachable [of L secret checks evs backend] unfolding st_def lock_inv_def by simp


definition answered :: "(string \<times> string) list app_event list" where
  "answered = asks @ [Forward 1 True, Recv 1 0 (Got (Ws_Text ''Ar1''))]"


section \<open>Registration\<close>

text \<open>What is known of the sockets: \<open>A s\<close> that it presented a valid token, \<open>C s tid\<close> that it connected for \<open>tid\<close>.\<close>

definition socket_inv :: "(nat \<Rightarrow> bool) \<Rightarrow> (nat \<Rightarrow> string \<Rightarrow> bool) \<Rightarrow> 'h app_sys \<Rightarrow> bool" where
  "socket_inv A C st =
     ((\<forall>s sk. as_sockets st s = Some sk \<longrightarrow> C s (sk_id sk) \<and> (sk_stage sk \<in> {Registering, Serving} \<longrightarrow> A s))
      \<and> (\<forall>tid s. map_of (ap_tunnels (as_app st)) tid = Some s \<longrightarrow> A s \<and> C s tid))"

lemma socket_inv_cong:
  assumes "socket_inv A C st" "ap_tunnels (as_app st') = ap_tunnels (as_app st)" "as_sockets st' = as_sockets st"
  shows "socket_inv A C st'"
  using assms by (simp add: socket_inv_def)

lemma socket_inv_set_stage:
  "socket_inv A C st \<Longrightarrow> (x \<in> {Registering, Serving} \<Longrightarrow> A s) \<Longrightarrow> socket_inv A C (set_stage s x st)"
  unfolding socket_inv_def by auto

lemma socket_inv_panics [simp]: "socket_inv A C (panics st) = socket_inv A C st"
  by (simp add: socket_inv_def)

lemma socket_inv_queue_send: "queue_send s msg st = Some st' \<Longrightarrow> socket_inv A C st \<Longrightarrow> socket_inv A C st'"
  unfolding socket_inv_def by (auto simp: queue_send_def split: option.splits if_splits)

lemma socket_inv_send: "socket_inv A C st \<Longrightarrow> socket_inv A C (tunnel_send L r rid s msg st)"
  by (auto simp: tunnel_send_def tunnel_await_def dest!: socket_inv_queue_send
      intro: socket_inv_cong split: option.split)

lemma socket_inv_look: "socket_inv A C st \<Longrightarrow> socket_inv A C (tunnel_look L r c st)"
  by (auto simp: tunnel_look_def Let_def intro!: socket_inv_send elim: socket_inv_cong split: option.split)

lemma socket_inv_grant:
  assumes i: "socket_inv A C st" and l: "lock_inv None st"
  shows "socket_inv A C (grant_step L st)"
proof (cases "lock_grant (as_lock st)")
  case (Some g)
  obtain x l where g: "lock_grant (as_lock st) = Some (x, l)" using Some by (cases g) auto
  have j: "socket_inv A C (st\<lparr>as_lock := l\<rparr>)" for l by (rule socket_inv_cong [OF i]) simp_all
  show ?thesis
  proof (cases x)
    case (Read r)
    have "socket_inv A C (read_granted L r (st\<lparr>as_lock := l\<rparr>))"
      by (auto simp: read_granted_def intro!: socket_inv_look j socket_inv_cong [OF i] split: option.split call_stage.split)
    then show ?thesis by (simp add: grant_step_def g Read)
  next
    case (Write w)
    have "socket_inv A C (write_granted w (st\<lparr>as_lock := l\<rparr>))"
    proof (cases w)
      case (Insert_Tunnel s)
      have "Write (Insert_Tunnel s) \<in> set (lk_queue (as_lock st))"
        using tokio.grant_fifo [OF g] by (simp add: Write Insert_Tunnel)
      with l have "socket_in Registering st s" by (simp add: lock_inv_def)
      then obtain sk where "as_sockets st s = Some sk" "sk_stage sk = Registering"
        by (auto simp: socket_in_def split: option.splits)
      with i show ?thesis
        unfolding socket_inv_def by (auto simp: write_granted_def Insert_Tunnel)
    next
      case (Remove_Tunnel tid)
      then show ?thesis using i unfolding socket_inv_def by (auto simp: write_granted_def)
    qed
    then show ?thesis by (simp add: grant_step_def g Write)
  qed
qed (use i in \<open>simp add: grant_step_def\<close>)

lemma socket_inv_act:
  assumes i: "socket_inv A C st" and l: "lock_inv None st"
    and C: "\<And>s tid. e = Connect s tid \<Longrightarrow> C s tid"
    and A: "\<And>s now t token sub c. e = First s now (Got (Ws_Text t)) True \<Longrightarrow>
      from_json L t = Some (Register token sub) \<Longrightarrow> jwt_decode L secret now token = Some c \<Longrightarrow> A s"
  shows "socket_inv A C (app_act L secret checks e st)"
proof (cases e)
  case (Connect s tid)
  then show ?thesis using i C unfolding socket_inv_def by (auto simp: app_act_def connect_socket_def)
next
  case (First s now m ok)
  have j: "socket_inv A C (st\<lparr>as_redis := rd, as_lock := l\<rparr>)" for rd l by (rule socket_inv_cong [OF i]) simp_all
  show ?thesis using i j A unfolding First
    by (auto simp: app_act_def socket_first_def intro!: socket_inv_set_stage
        split: option.split received.split ws_message.split control_message.split)
next
  case (Forward s ok)
  then show ?thesis using i unfolding socket_inv_def
    by (auto simp: app_act_def socket_forward_def split: option.split list.split)
next
  case (Recv s now m)
  have j: "socket_inv A C (st\<lparr>as_app := (as_app st)\<lparr>ap_health := h\<rparr>\<rparr>)" for h by (rule socket_inv_cong [OF i]) simp_all
  have d: "socket_inv A C (deliver L rid http st)" for rid http by (rule socket_inv_cong [OF i]) simp_all
  show ?thesis using i j d unfolding Recv
    by (auto simp: app_act_def socket_recv_def intro!: socket_inv_set_stage
        split: option.split received.split ws_message.split control_message.split sum.split)
next
  case (Tell_Cleanup s)
  have j: "socket_inv A C (st\<lparr>as_cleanup := q\<rparr>)" for q by (rule socket_inv_cong [OF i]) simp_all
  then show ?thesis using i unfolding Tell_Cleanup
    by (auto simp: app_act_def tell_cleanup_def intro!: socket_inv_set_stage split: option.split)
next
  case (Proxy_Send s msg)
  then show ?thesis using i by (auto simp: app_act_def intro: socket_inv_queue_send split: option.split)
next
  case Grant
  then show ?thesis using i l by (simp add: app_act_def socket_inv_grant)
next
  case (Tunnel_Retry r)
  then show ?thesis using i by (auto simp: app_act_def tunnel_retry_def socket_inv_send split: option.split call_stage.split)
qed (auto simp: app_act_def cleanup_take_def tunnel_start_def intro!: socket_inv_cong [OF i] split: list.split)

lemma socket_inv_step:
  assumes i: "socket_inv A C st" and l: "lock_inv None st"
    and C: "\<And>s tid. e = Connect s tid \<Longrightarrow> C s tid"
    and A: "\<And>s now t token sub c. e = First s now (Got (Ws_Text t)) True \<Longrightarrow>
      from_json L t = Some (Register token sub) \<Longrightarrow> jwt_decode L secret now token = Some c \<Longrightarrow> A s"
  shows "socket_inv A C (app_step L secret checks e st)"
  by (rule app_step_cases) (rule i, rule socket_inv_act [OF i l], rule C, assumption, rule A, assumption+)

lemma socket_inv_run:
  assumes "socket_inv A C st" "lock_inv None st" "\<And>s tid. Connect s tid \<in> set es \<Longrightarrow> C s tid"
    and "\<And>s now t token sub c. First s now (Got (Ws_Text t)) True \<in> set es \<Longrightarrow>
      from_json L t = Some (Register token sub) \<Longrightarrow> jwt_decode L secret now token = Some c \<Longrightarrow> A s"
  shows "socket_inv A C (run_app L secret checks es st)"
  using assms
proof (induction es arbitrary: st)
  case (Cons e es)
  have "socket_inv A C (app_step L secret checks e st)"

  proof (rule socket_inv_step [OF Cons.prems(1,2)])
    fix s now t token sub c
    assume "e = First s now (Got (Ws_Text t)) True" "from_json L t = Some (Register token sub)"
      "jwt_decode L secret now token = Some c"
    then show "A s" using Cons.prems(4) [of s now t token sub c] by simp
  qed (simp add: Cons.prems(3))
  moreover have "lock_inv None (app_step L secret checks e st)" by (rule lock_inv_step [OF Cons.prems(2)])
  ultimately show ?case by (simp, intro Cons.IH) (auto intro: Cons.prems(3,4))
qed simp

text \<open>
  C23. Only authenticated sockets serve: the socket behind a registered tunnel connected under the id of
  the tunnel, and its first message was a registration whose token the decoder accepted at that time,
  in every interleaving of connections, requests, reports and cleanups.
\<close>

theorem registered_tunnels_are_authenticated:
  assumes "map_of (ap_tunnels (as_app (run_app L secret checks evs (init_app backend)))) tid = Some s"
  shows "\<exists>now t token target_subdomain c. Connect s tid \<in> set evs \<and> First s now (Got (Ws_Text t)) True \<in> set evs
    \<and> from_json L t = Some (Register token target_subdomain) \<and> jwt_decode L secret now token = Some c"
proof -
  let ?A = "\<lambda>s. \<exists>now t token sub c. First s now (Got (Ws_Text t)) True \<in> set evs
    \<and> from_json L t = Some (Register token sub) \<and> jwt_decode L secret now token = Some c"
  have "socket_inv ?A (\<lambda>s tid. Connect s tid \<in> set evs) (run_app L secret checks evs (init_app backend))"
    by (rule socket_inv_run) (auto simp: lock_inv_init, simp add: socket_inv_def init_app_def)
  with assms have "?A s" "Connect s tid \<in> set evs" unfolding socket_inv_def by blast+
  then show ?thesis by blast
qed

theorem registered_tunnels_are_authenticated_witness:
  "\<exists>now t token sub c. First 1 now (Got (Ws_Text t)) True \<in> set registers
    \<and> from_json list_app t = Some (Register token sub) \<and> jwt_decode list_app ''k'' now token = Some c"
proof -
  have "map_of (ap_tunnels (as_app (run_app list_app ''k'' True registers (init_app ''http://c'')))) ''app'' = Some 1"
    by code_simp
  from registered_tunnels_are_authenticated [OF this] show ?thesis by blast
qed

end
