(* ===== verification/Tunnel_App_Block.thy ===== *)
theory Tunnel_App_Block
  imports Tunnel_App_Props
begin

text \<open>
  Progress of the HTTP application: registrations take effect, and a request of \<open>/tunnel\<close> that is
  never answered stops everything that needs the map of tunnels. Login and registration, and who can
  end a registration.
\<close>

section \<open>An unanswered request\<close>

text \<open>The events that can end the wait for the answer to \<open>rid\<close>.\<close>

definition answers :: "('h, 'm) app_lib_scheme \<Rightarrow> string \<Rightarrow> 'h app_event \<Rightarrow> bool" where
  "answers L rid e =
     (case e of
        Recv s now (Got (Ws_Text t)) \<Rightarrow>
          (case from_json L t of Some (Response rid' http) \<Rightarrow> rid' = rid | _ \<Rightarrow> False)
      | Proxy_Slot r rid' \<Rightarrow> rid' = rid
      | Proxy_Close rid' \<Rightarrow> rid' = rid
      | Tunnel_Start r rid' call \<Rightarrow> rid' = rid
      | _ \<Rightarrow> False)"

definition awaits :: "'h app_sys \<Rightarrow> nat \<Rightarrow> string \<Rightarrow> bool" where
  "awaits st r rid = (rid_of st r = Some rid \<and> call_in (\<lambda>x. x = Awaiting) st r
     \<and> (\<forall>r'. rid_of st r' = Some rid \<longrightarrow> r' = r))"

lemma awaitsD:
  assumes "awaits st r rid"
  shows "rid_of st r = Some rid" "call_in (\<lambda>x. x = Awaiting) st r" "rid_of st r' = Some rid \<Longrightarrow> r' = r"
  using assms by (simp_all add: awaits_def)

lemma awaits_not_in: "awaits st r rid \<Longrightarrow> call_in P st r' \<Longrightarrow> \<not> P Awaiting \<Longrightarrow> r' \<noteq> r"
  by (auto dest!: awaitsD(2) simp: call_in_def split: option.splits)

lemma awaits_cong: "as_calls st' = as_calls st \<Longrightarrow> awaits st' r rid = awaits st r rid"
  by (simp add: awaits_def rid_of_def call_in_def)

lemma awaits_update [simp]:
  "awaits (st\<lparr>as_app := x\<rparr>) r rid = awaits st r rid" "awaits (set_stage s y st) r rid = awaits st r rid"
  by (rule awaits_cong, simp)+

lemma awaits_panics [simp]: "awaits (panics st) r rid = awaits st r rid"
  by (rule awaits_cong) simp

lemma awaits_frame:
  assumes "awaits st r rid" "rid_of st' = rid_of st" "as_calls st' r = as_calls st r"
  shows "awaits st' r rid"
  using assms by (simp add: awaits_def call_in_def)

lemma awaits_slot:
  assumes i: "slot_inv L P st" and a: "awaits st r rid" and n: "rid' \<noteq> rid"
  shows "map_of (ap_responses (as_app st)) rid' \<noteq> Some r"
  using slot_invD(1) [OF i, of rid' r rid] awaitsD(1) [OF a] n by blast

lemma awaits_drop:
  assumes i: "slot_inv L P st" and a: "awaits st r rid" and n: "rid' \<noteq> rid"
  shows "awaits (drop_slot rid' st) r rid" "awaits (deliver L' rid' http st) r rid"
  by (rule awaits_frame [OF a]; simp add: drop_slot_other [OF awaits_slot [OF i a n]] deliver_other [OF awaits_slot [OF i a n]])+

lemma awaits_look:
  assumes i: "slot_inv L P st" and a: "awaits st r rid" and c: "rid_of st r' = Some (tr_rid c)" "r' \<noteq> r"
  shows "awaits (tunnel_look L' r' c st) r rid"
proof -
  have n: "tr_rid c \<noteq> rid" using awaitsD(3) [OF a, of r'] c by auto
  from drop_slot_other [OF awaits_slot [OF i a n]] look_other [of r r' L' c st] c(2)
  have "as_calls (tunnel_look L' r' c st) r = as_calls st r" by auto
  then show ?thesis using awaits_frame [OF a] by simp
qed

lemma awaits_reader:
  assumes "lock_inv None st" "awaits st r rid"
  shows "r \<in> set (lk_readers (as_lock st))"
proof -
  have "call_in holding st r" using awaitsD(2) [OF assms(2)] by (rule call_in_mono) simp
  with assms(1) show ?thesis unfolding lock_inv_def by blast
qed

text \<open>While a request waits no writer is granted, so the map of tunnels stays as it is.\<close>

lemma blocked_grant:
  assumes i: "slot_inv L P st" and l: "lock_inv None st" and a: "awaits st r rid"
  shows "awaits (grant_step L' st) r rid \<and> ap_tunnels (as_app (grant_step L' st)) = ap_tunnels (as_app st)"
proof (cases "lock_grant (as_lock st)")
  case (Some g)
  obtain x l' where g: "lock_grant (as_lock st) = Some (x, l')" using Some by (cases g) auto
  with tokio.reader_stays [OF awaits_reader [OF l a] g] obtain r' where x: "x = Read r'" by blast
  have "Read r' \<in> set (lk_queue (as_lock st))" using tokio.grant_fifo [OF g] x by simp
  with l have ask: "call_in asking st r'" unfolding lock_inv_def by blast
  then have ne: "r' \<noteq> r" by (rule awaits_not_in [OF a]) simp
  obtain c where c: "as_calls st r' = Some c" using ask by (auto simp: call_in_def split: option.splits)
  let ?st = "st\<lparr>as_lock := l'\<rparr>"
  have a': "awaits ?st r rid" by (rule awaits_cong [THEN iffD2, OF _ a]) simp
  have i': "slot_inv L P ?st" by (rule slot_inv_cong [OF i]) simp_all
  have "awaits (read_granted L' r' ?st) r rid \<and> ap_tunnels (as_app (read_granted L' r' ?st)) = ap_tunnels (as_app st)"
  proof (cases "tr_stage c")
    case Listing
    have "awaits (set_call r' Looking (st\<lparr>as_lock := lock_request (Read r') (lock_release r' l')\<rparr>)) r rid"
      by (rule awaits_frame [OF a]) (use ne in simp_all)
    with Listing c show ?thesis by (simp add: read_granted_def)
  next
    case Looking
    have "rid_of ?st r' = Some (tr_rid c)" using c by (simp add: rid_of_def)
    from awaits_look [OF i' a' this ne, of L'] c Looking show ?thesis by (simp add: read_granted_def)
  qed (use ask c in \<open>auto simp: call_in_def\<close>)
  then show ?thesis by (simp add: grant_step_def g x)
qed (use a in \<open>simp add: grant_step_def\<close>)

lemma send_awaits:
  assumes "awaits st r rid" "r' \<noteq> r"
  shows "awaits (tunnel_send L r' rid' s msg st) r rid"
  using awaits_frame [OF assms(1), of "tunnel_send L r' rid' s msg st"] assms(2) by (simp add: send_other)

lemma tunnel_start_calls:
  "as_calls (tunnel_start r rid call st) = as_calls st \<or> as_calls st r = None
    \<and> as_calls (tunnel_start r rid call st) = (as_calls st)(r \<mapsto> \<lparr>tr_call = call, tr_rid = rid, tr_stage = Listing\<rparr>)"
  by (simp add: tunnel_start_def)

lemma awaits_start:
  assumes a: "awaits st r rid" and n: "rid' \<noteq> rid"
  shows "awaits (tunnel_start r' rid' call st) r rid"
  using tunnel_start_calls [of r' rid' call st]
proof
  assume "as_calls (tunnel_start r' rid' call st) = as_calls st"
  then show ?thesis using awaits_cong [of "tunnel_start r' rid' call st" st] a by blast
next
  assume *: "as_calls st r' = None
    \<and> as_calls (tunnel_start r' rid' call st) = (as_calls st)(r' \<mapsto> \<lparr>tr_call = call, tr_rid = rid', tr_stage = Listing\<rparr>)"
  have "r' \<noteq> r" using * awaitsD(2) [OF a] by (auto simp: call_in_def)
  with * a n show ?thesis unfolding awaits_def by (simp add: rid_of_def call_in_def)
qed

lemma blocked_act:
  assumes i: "slot_inv L P st" and l: "lock_inv None st" and a: "awaits st r rid" and e: "\<not> answers L rid e"
  shows "awaits (app_act L secret checks e st) r rid
    \<and> ap_tunnels (as_app (app_act L secret checks e st)) = ap_tunnels (as_app st)"
proof (cases e)
  case Grant
  then show ?thesis using blocked_grant [OF i l a] by (simp add: app_act_def)
next
  case (Recv s now m)
  have n: "rid' \<noteq> rid" if "m = Got (Ws_Text t)" "from_json L t = Some (Response rid' http)" for t rid' http
    using e that by (auto simp: Recv answers_def)
  show ?thesis using a unfolding Recv
    by (auto simp: app_act_def socket_recv_def intro: awaits_drop(2) [OF i a] dest: n
        split: option.split received.split ws_message.split control_message.split sum.split)
next
  case (Tunnel_Retry r')
  have "r' \<noteq> r" if "as_calls st r' = Some c" "tr_stage c = Sending s msg" for c s msg
    using awaits_not_in [OF a, of "\<lambda>x. x = Sending s msg" r'] that by (simp add: call_in_def)
  then show ?thesis using a
    by (auto simp: Tunnel_Retry app_act_def tunnel_retry_def send_awaits split: option.split call_stage.split)
next
  case (Tunnel_Start r' rid' call)
  then have "rid' \<noteq> rid" using e by (simp add: answers_def)
  from awaits_start [OF a this] show ?thesis by (simp add: Tunnel_Start app_act_def tunnel_start_def)
next
  case (Proxy_Slot r' rid')
  then have n: "rid' \<noteq> rid" using e by (simp add: answers_def)
  have "awaits (open_slot rid' r' st) r rid"
    by (rule awaits_cong [THEN iffD2, OF _ awaits_drop(1) [OF i a n]]) simp
  with a show ?thesis by (simp add: Proxy_Slot app_act_def)
next
  case (Proxy_Close rid')
  then have "rid' \<noteq> rid" using e by (simp add: answers_def)
  with awaits_drop(1) [OF i a] show ?thesis by (simp add: Proxy_Close app_act_def)
next
  case (Proxy_Send s msg)
  with a show ?thesis
    by (auto simp: app_act_def dest!: queue_send_fields intro: awaits_cong [THEN iffD2, OF _ a] split: option.split)
qed (use a in \<open>auto simp: app_act_def connect_socket_def socket_first_def socket_forward_def tell_cleanup_def
    cleanup_take_def intro!: awaits_cong [THEN iffD2, OF _ a] split: option.split received.split ws_message.split control_message.split list.split\<close>)

lemma blocked_step:
  assumes i: "slot_inv L P st" and l: "lock_inv None st" and a: "awaits st r rid" and e: "\<not> answers L rid e"
  shows "awaits (app_step L secret checks e st) r rid
    \<and> ap_tunnels (as_app (app_step L secret checks e st)) = ap_tunnels (as_app st)"
  using blocked_act [OF i l a e] a by (simp add: app_step_def)

lemma blocked_run:
  assumes "slot_inv L (\<lambda>_ _. True) st" "lock_inv None st" "awaits st r rid" "list_all (\<lambda>e. \<not> answers L rid e) es"
  shows "awaits (run_app L secret checks es st) r rid
    \<and> ap_tunnels (as_app (run_app L secret checks es st)) = ap_tunnels (as_app st)"
  using assms
proof (induction es arbitrary: st)
  case (Cons e es)
  have "slot_inv L (\<lambda>_ _. True) (app_step L secret checks e st)"
    by (rule slot_inv_step [OF Cons.prems(1,2)]) simp
  moreover have "awaits (app_step L secret checks e st) r rid
    \<and> ap_tunnels (as_app (app_step L secret checks e st)) = ap_tunnels (as_app st)"
    using blocked_step [OF Cons.prems(1-3)] Cons.prems(4) by simp
  ultimately show ?case
    using Cons.IH [of "app_step L secret checks e st"] lock_inv_step [OF Cons.prems(2), of L secret checks e] Cons.prems(4)
    by simp
qed simp

text \<open>
  Ids of requests are fresh (UUIDs): the requests seen so far with the id \<open>rid\<close> all have the number \<open>r\<close>.
\<close>

lemma rid_of_grant [simp]: "rid_of (grant_step L st) = rid_of st"
proof (cases "lock_grant (as_lock st)")
  case (Some g)
  obtain x l where g: "g = (x, l)" by (cases g)
  show ?thesis
  proof (cases x)
    case (Read r)
    then show ?thesis using Some g
      by (auto simp: grant_step_def read_granted_def split: option.split call_stage.split)
  next
    case (Write w)
    then show ?thesis using Some g
      by (auto simp: grant_step_def write_granted_def rid_of_def split: option.split map_write.split)
  qed
qed (simp add: grant_step_def)

lemma rid_of_act:
  assumes "\<nexists>r rid call. e = Tunnel_Start r rid call"
  shows "rid_of (app_act L secret checks e st) = rid_of st"
proof (cases e)
  case (Recv s now m)
  then show ?thesis
    by (auto simp: app_act_def socket_recv_def intro: rid_of_cong
        split: option.split received.split ws_message.split control_message.split sum.split)
next
  case (Tunnel_Retry r)
  then show ?thesis by (auto simp: app_act_def tunnel_retry_def split: option.split call_stage.split)
qed (use assms in \<open>auto simp: app_act_def connect_socket_def socket_first_def socket_forward_def tell_cleanup_def
    cleanup_take_def dest!: queue_send_fields intro!: rid_of_cong
    split: option.split received.split ws_message.split control_message.split list.split\<close>)

lemma rid_of_step:
  assumes "\<nexists>r rid call. e = Tunnel_Start r rid call"
  shows "rid_of (app_step L secret checks e st) = rid_of st"
  by (simp add: app_step_def rid_of_act [OF assms])

lemma rids_come_from_starts:
  assumes "rid_of (run_app L secret checks es st) r = Some rid"
  shows "rid_of st r = Some rid \<or> (\<exists>call. Tunnel_Start r rid call \<in> set es)"
  using assms
proof (induction es arbitrary: st)
  case (Cons e es)
  have step: "rid_of st r = Some rid \<or> (\<exists>call. e = Tunnel_Start r rid call)"
    if st: "rid_of (app_step L secret checks e st) r = Some rid"
  proof (cases "\<exists>r' rid' call. e = Tunnel_Start r' rid' call")
    case True
    then show ?thesis using st
      by (auto simp: app_step_def app_act_def tunnel_start_def rid_of_def split: if_splits)
  next
    case False
    then have "rid_of (app_step L secret checks e st) = rid_of st" by (simp add: rid_of_step)
    with st show ?thesis by simp
  qed
  from Cons show ?case using step by fastforce
qed simp

lemma slot_inv_reachable: "slot_inv L (\<lambda>_ _. True) (run_app L secret checks es (init_app backend))"
  by (rule slot_inv_run) (simp_all add: slot_inv_init lock_inv_init)

lemma awaits_reachable:
  assumes "as_calls (run_app L secret checks es (init_app backend)) r = Some c" "tr_stage c = Awaiting"
    and "\<And>r' call. Tunnel_Start r' (tr_rid c) call \<in> set es \<Longrightarrow> r' = r"
  shows "awaits (run_app L secret checks es (init_app backend)) r (tr_rid c)"
  unfolding awaits_def
proof (intro conjI allI impI)
  fix r'
  assume "rid_of (run_app L secret checks es (init_app backend)) r' = Some (tr_rid c)"
  from rids_come_from_starts [OF this] show "r' = r"
    using assms(3) by (auto simp: rid_of_def init_app_def)
qed (simp_all add: assms(1,2) rid_of_def call_in_def)


text \<open>The socket of the tunnel ends; its id is cleaned up only in the table of redis.\<close>

definition tunnel_ends :: "(string \<times> string) list app_event list" where
  "tunnel_ends = [Recv 1 0 Recv_End, Tell_Cleanup 1, Cleanup_Take True, Grant]"


section \<open>Behind a writer\<close>

text \<open>
  The situation of a new request when a writer is in the queue: \<open>behind st r w\<close> says that \<open>r\<close> has not
  yet got the lock for the first time, if it has come at all, and that the request to write \<open>w\<close> is
  before it.
\<close>

definition behind :: "'h app_sys \<Rightarrow> nat \<Rightarrow> map_write \<Rightarrow> bool" where
  "behind st r w =
     ((\<exists>pre post. lk_queue (as_lock st) = pre @ Write w # post \<and> Read r \<notin> set pre)
      \<and> (as_calls st r = None \<or> call_in (\<lambda>x. x = Listing) st r))"

lemma call_in_idle:
  assumes "call_in (\<lambda>x. x = Listing) st r \<or> as_calls st r = None" "e \<noteq> Grant"
    "\<And>rid call. e \<noteq> Tunnel_Start r rid call"
  shows "as_calls (app_act L secret checks e st) r = as_calls st r"
proof -
  have n: "\<not> call_in (\<lambda>x. x = Awaiting) st r" using assms(1) by (auto simp: call_in_def split: option.splits)
  have ns: "r' \<noteq> r" if "as_calls st r' = Some c" "tr_stage c = Sending s m" for r' c s m
    using assms(1) that by (auto simp: call_in_def)
  show ?thesis
  proof (cases e)
    case (Tunnel_Retry r')
    then show ?thesis
      by (auto simp: app_act_def tunnel_retry_def intro!: send_other dest: ns split: option.split call_stage.split)
  next
    case (Recv s now m)
    then show ?thesis
      by (auto simp: app_act_def socket_recv_def not_awaiting_stays(2) [OF n]
          split: option.split received.split ws_message.split control_message.split sum.split)
  next
    case (Proxy_Send s msg)
    then show ?thesis by (auto simp: app_act_def dest!: queue_send_fields split: option.split)
  qed (use assms(2,3) in \<open>auto simp: app_act_def connect_socket_def socket_first_def socket_forward_def tell_cleanup_def
      cleanup_take_def tunnel_start_def not_awaiting_stays(1) [OF n]
      split: option.split received.split ws_message.split control_message.split list.split\<close>)
qed

lemma behind_act:
  assumes i: "slot_inv L P st" and l: "lock_inv None st" and a: "awaits st r0 rid" and b: "behind st r w"
  shows "behind (app_act L secret checks e st) r w"
proof -
  obtain pre post where q: "lk_queue (as_lock st) = pre @ Write w # post" "Read r \<notin> set pre"
    using b by (auto simp: behind_def)
  have idle: "call_in (\<lambda>x. x = Listing) st r \<or> as_calls st r = None" using b by (auto simp: behind_def)
  show ?thesis
  proof (cases "e = Grant")
    case False
    with queue_act [of e L secret checks st] obtain xs where
      "lk_queue (as_lock (app_act L secret checks e st)) = lk_queue (as_lock st) @ xs" by blast
    then have "lk_queue (as_lock (app_act L secret checks e st)) = pre @ Write w # (post @ xs)" using q by simp
    moreover have "as_calls (app_act L secret checks e st) r = None \<or> call_in (\<lambda>x. x = Listing) (app_act L secret checks e st) r"
    proof (cases "\<exists>rid call. e = Tunnel_Start r rid call")
      case True
      then obtain rid call where e: "e = Tunnel_Start r rid call" by blast
      show ?thesis using tunnel_start_calls [of r rid call st] idle by (auto simp: e app_act_def call_in_def)
    next
      case no: False
      then have "as_calls (app_act L secret checks e st) r = as_calls st r"
        by (intro call_in_idle [OF idle False]) auto
      with idle show ?thesis by (auto simp: call_in_def)
    qed
    ultimately show ?thesis using q(2) unfolding behind_def by blast
  next
    case True
    show ?thesis
    proof (cases "lock_grant (as_lock st)")
      case None
      then show ?thesis using b True by (simp add: app_act_def grant_step_def)
    next
      case (Some g)
      then obtain x l' where g: "lock_grant (as_lock st) = Some (x, l')" by (cases g) auto
      from tokio.reader_stays [OF awaits_reader [OF l a] g] obtain r' where x: "x = Read r'" by blast
      with tokio.grant_fifo [OF g] q obtain pre' where pre: "pre = Read r' # pre'" "lk_queue l' = pre' @ Write w # post"
        by (cases pre) auto
      then have ne: "r' \<noteq> r" using q(2) by auto
      from queue_grant [OF g, of L] pre obtain xs where
        "lk_queue (as_lock (grant_step L st)) = pre' @ Write w # (post @ xs)" by auto
      moreover have "as_calls (grant_step L st) r = as_calls st r"
      proof -
        have n: "\<not> call_in (\<lambda>x. x = Awaiting) (st\<lparr>as_lock := l'\<rparr>) r"
          using idle by (auto simp: call_in_def split: option.splits)
        from not_awaiting_stays(1) [OF n] look_other [of r r' L _ "st\<lparr>as_lock := l'\<rparr>"] ne show ?thesis
          by (auto simp: grant_step_def g x read_granted_def split: option.split call_stage.split)
      qed
      ultimately show ?thesis using idle q(2) pre(1) True
        unfolding behind_def by (auto simp: app_act_def call_in_def)
    qed
  qed
qed

lemma behind_step:
  assumes i: "slot_inv L P st" and l: "lock_inv None st" and a: "awaits st r0 rid" and b: "behind st r w"
  shows "behind (app_step L secret checks e st) r w"
  using behind_act [OF i l a b] b by (simp add: app_step_def)

lemma behind_run:
  assumes "slot_inv L (\<lambda>_ _. True) st" "lock_inv None st" "awaits st r0 rid" "list_all (\<lambda>e. \<not> answers L rid e) es"
    "behind st r w"
  shows "behind (run_app L secret checks es st) r w"
  using assms
proof (induction es arbitrary: st)
  case (Cons e es)
  let ?st = "app_step L secret checks e st"
  have "slot_inv L (\<lambda>_ _. True) ?st" by (rule slot_inv_step [OF Cons.prems(1,2)]) simp
  moreover have "awaits ?st r0 rid" using blocked_step [OF Cons.prems(1-3)] Cons.prems(4) by simp
  moreover have "behind ?st r w" by (rule behind_step [OF Cons.prems(1-3,5)])
  ultimately show ?case
    using Cons.IH [of ?st] lock_inv_step [OF Cons.prems(2), of L secret checks e] Cons.prems(4) by simp
qed simp

text \<open>
  With a request unanswered and a registration or a cleanup in the queue, the application is dead for
  \<open>/tunnel\<close>: a request that comes later never gets beyond its first access to the map, whatever happens
  until the answer comes, however many tunnels are connected and healthy.
\<close>

theorem later_requests_starve:
  assumes "as_calls (run_app L secret checks evs (init_app backend)) r0 = Some c" "tr_stage c = Awaiting"
    and "list_all (\<lambda>e. \<forall>r' call. e = Tunnel_Start r' (tr_rid c) call \<longrightarrow> r' = r0) evs"
    and "list_all (\<lambda>e. \<not> answers L (tr_rid c) e) later"
    and "Write w \<in> set (lk_queue (as_lock (run_app L secret checks evs (init_app backend))))"
    and "as_calls (run_app L secret checks evs (init_app backend)) r = None"
    and "as_calls (run_app L secret checks (evs @ later) (init_app backend)) r = Some c'"
  shows "tr_stage c' = Listing"
proof -
  let ?st = "run_app L secret checks evs (init_app backend)"
  have a: "awaits ?st r0 (tr_rid c)"
    using assms(1,2,3) by (intro awaits_reachable) (auto simp: list_all_iff)
  obtain pre post where q: "lk_queue (as_lock ?st) = pre @ Write w # post" using split_list [OF assms(5)] by blast
  have "\<not> call_in asking ?st r" using assms(6) by (simp add: call_in_def)
  with lock_inv_reachable [of L secret checks evs backend] have "Read r \<notin> set (lk_queue (as_lock ?st))"
    unfolding lock_inv_def by blast
  with q assms(6) have "behind ?st r w" unfolding behind_def by auto
  from behind_run [OF slot_inv_reachable lock_inv_reachable a assms(4) this, of secret checks]
  show ?thesis using assms(7) by (simp add: behind_def run_app_append call_in_def)
qed

definition second_asks :: "(string \<times> string) list app_event list" where
  "second_asks = [Tunnel_Start 6 ''r2'' get_x, Grant, Grant]"

theorem later_requests_starve_witness:
  "call_in (\<lambda>x. x = Listing) (run_app list_app ''k'' True ((asks @ tunnel_ends) @ second_asks) (init_app ''http://c'')) 6"
proof -
  let ?st = "run_app list_app ''k'' True (asks @ tunnel_ends) (init_app ''http://c'')"
  let ?st' = "run_app list_app ''k'' True ((asks @ tunnel_ends) @ second_asks) (init_app ''http://c'')"
  have "call_in (\<lambda>x. x = Awaiting) ?st 5 \<and> rid_of ?st 5 = Some ''r1''" by code_simp
  then obtain c where c: "as_calls ?st 5 = Some c" "tr_stage c = Awaiting" "tr_rid c = ''r1''"
    by (auto simp: call_in_def rid_of_def split: option.splits)
  have "lk_queue (as_lock ?st) = [Write (Remove_Tunnel ''app'')] \<and> rid_of ?st 6 = None" by code_simp
  then have w: "Write (Remove_Tunnel ''app'') \<in> set (lk_queue (as_lock ?st))" and n: "as_calls ?st 6 = None"
    by (simp_all add: rid_of_def)
  have "rid_of ?st' 6 \<noteq> None" by code_simp
  then obtain c' where c': "as_calls ?st' 6 = Some c'" by (auto simp: rid_of_def)
  have "tr_stage c' = Listing"
    by (rule later_requests_starve [OF c(1,2) _ _ w n c'])
      (simp_all add: c(3) asks_def registers_def tunnel_ends_def second_asks_def answers_def)
  with c' show ?thesis by (simp add: call_in_def)
qed

end
