(* ===== verification/Tunnel_App_Live.thy ===== *)
theory Tunnel_App_Live
  imports Tunnel_App_Block
begin

text \<open>
  Registrations and their ends: a registration in the queue takes effect, login and registration fit
  together, and a way in which the table of tunnels and the live sockets come apart.
\<close>

section \<open>Registrations take effect\<close>

definition listing_or_write :: "'h app_sys \<Rightarrow> map_write lock_request \<Rightarrow> bool" where
  "listing_or_write st x = (case x of Read r \<Rightarrow> call_in (\<lambda>x. x = Listing) st r | Write w \<Rightarrow> True)"

lemma grant_head:
  assumes "lk_readers (as_lock st) = []" "lk_queue (as_lock st) = x # xs" "listing_or_write st x"
  shows "lk_readers (as_lock (grant_step L st)) = []
    \<and> lk_queue (as_lock (grant_step L st)) = xs @ (case x of Read r \<Rightarrow> [x] | Write w \<Rightarrow> [])
    \<and> as_aborted (grant_step L st) = as_aborted st
    \<and> (\<forall>r. x \<noteq> Read r \<longrightarrow> as_calls (grant_step L st) r = as_calls st r)
    \<and> (\<forall>s. map_option sk_id (as_sockets (grant_step L st) s) = map_option sk_id (as_sockets st s))"
proof -
  from tokio.grant_first [OF assms(2,1)] obtain l where
    g: "lock_grant (as_lock st) = Some (x, l)" "lk_queue l = xs"
      "lk_readers l = (case x of Read r \<Rightarrow> [r] | Write w \<Rightarrow> [])"
    by blast
  show ?thesis
  proof (cases x)
    case (Read r)
    then obtain c where c: "as_calls st r = Some c" "tr_stage c = Listing"
      using assms(3) by (auto simp: listing_or_write_def call_in_def split: option.splits)
    with g Read show ?thesis by (simp add: grant_step_def read_granted_def)
  next
    case (Write w)
    with g show ?thesis
      by (auto simp: grant_step_def write_granted_def option.map_comp comp_def split: map_write.split option.split)
  qed
qed

lemma grants_reach:
  fixes L secret checks
  assumes "lock_inv None st" "lk_readers (as_lock st) = []" "lk_queue (as_lock st) = pre @ Write w # post"
    "list_all (listing_or_write st) pre" "\<not> as_aborted st"
  defines "st' \<equiv> run_app L secret checks (replicate (length pre) Grant) st"
  shows "lk_readers (as_lock st') = [] \<and> \<not> as_aborted st' \<and> (\<exists>post'. lk_queue (as_lock st') = Write w # post')
    \<and> (\<forall>s. map_option sk_id (as_sockets st' s) = map_option sk_id (as_sockets st s))"
  using assms(1-5) unfolding st'_def
proof (induction pre arbitrary: st post)
  case (Cons x pre)
  let ?st = "grant_step L st"
  have h: "lk_readers (as_lock ?st) = []" "lk_queue (as_lock ?st) = (pre @ Write w # post) @ (case x of Read r \<Rightarrow> [x] | Write w \<Rightarrow> [])"
    "\<And>r. x \<noteq> Read r \<Longrightarrow> as_calls ?st r = as_calls st r"
    "\<And>s. map_option sk_id (as_sockets ?st s) = map_option sk_id (as_sockets st s)" "\<not> as_aborted ?st"
    using grant_head [of st x "pre @ Write w # post" L] Cons.prems by auto
  have "x \<notin> set pre" using Cons.prems(1,3) by (auto simp: lock_inv_def)
  have "listing_or_write ?st y" if y: "y \<in> set pre" for y
  proof (cases y)
    case (Read r)
    with y \<open>x \<notin> set pre\<close> have "as_calls ?st r = as_calls st r" by (intro h(3)) auto
    moreover from y have "listing_or_write st y" using Cons.prems(4) by (simp add: list_all_iff)
    ultimately show ?thesis by (simp add: listing_or_write_def Read call_in_def)
  qed (simp add: listing_or_write_def)
  then have "list_all (listing_or_write ?st) pre" by (simp add: list_all_iff)
  from Cons.IH [OF lock_inv_grant [OF Cons.prems(1)] h(1) _ this h(5), of "post @ (case x of Read r \<Rightarrow> [x] | Write w \<Rightarrow> [])"] h(2)
  have "lk_readers (as_lock (run_app L secret checks (replicate (length pre) Grant) ?st)) = []
    \<and> \<not> as_aborted (run_app L secret checks (replicate (length pre) Grant) ?st)
    \<and> (\<exists>post'. lk_queue (as_lock (run_app L secret checks (replicate (length pre) Grant) ?st)) = Write w # post')
    \<and> (\<forall>s. map_option sk_id (as_sockets (run_app L secret checks (replicate (length pre) Grant) ?st) s) = map_option sk_id (as_sockets ?st s))"
    by simp
  then show ?case using h(4) Cons.prems(5) by (simp add: app_step_def app_act_def)
qed simp

text \<open>
  A registration in the queue takes effect: when no request holds the lock and those before it in the
  queue only list the tunnels or write, it is done after as many grants as its place in the queue, the
  tunnel is registered under the id of its socket and the socket serves.
\<close>

theorem registration_takes_effect:
  fixes evs backend L secret checks
  defines "st \<equiv> run_app L secret checks evs (init_app backend)"
  assumes "lk_readers (as_lock st) = []" "lk_queue (as_lock st) = pre @ Write (Insert_Tunnel s) # post"
    "list_all (listing_or_write st) pre" "\<not> as_aborted st"
  shows "\<exists>sk. as_sockets (run_app L secret checks (evs @ replicate (Suc (length pre)) Grant) (init_app backend)) s = Some sk
    \<and> sk_stage sk = Serving
    \<and> map_of (ap_tunnels (as_app (run_app L secret checks (evs @ replicate (Suc (length pre)) Grant) (init_app backend)))) (sk_id sk) = Some s"
proof -
  have i: "lock_inv None st" unfolding st_def by (rule lock_inv_reachable)
  have "socket_in Registering st s" using i assms(3) unfolding lock_inv_def by auto
  then obtain sk where sk: "as_sockets st s = Some sk" by (auto simp: socket_in_def split: option.splits)
  let ?st = "run_app L secret checks (replicate (length pre) Grant) st"
  from grants_reach [OF i assms(2-5), of L secret checks] obtain post' where
    r: "lk_readers (as_lock ?st) = []" "\<not> as_aborted ?st" "lk_queue (as_lock ?st) = Write (Insert_Tunnel s) # post'"
      "map_option sk_id (as_sockets ?st s) = map_option sk_id (as_sockets st s)" by blast
  from r(4) sk obtain sk' where sk': "as_sockets ?st s = Some sk'" "sk_id sk' = sk_id sk" by auto
  from tokio.grant_first [OF r(3,1)] obtain l where "lock_grant (as_lock ?st) = Some (Write (Insert_Tunnel s), l)" by blast
  then have "as_sockets (grant_step L ?st) s = Some (sk'\<lparr>sk_stage := Serving\<rparr>)
      \<and> map_of (ap_tunnels (as_app (grant_step L ?st))) (sk_id sk') = Some s"
    using sk' by (simp add: grant_step_def write_granted_def)
  moreover have "run_app L secret checks (evs @ replicate (Suc (length pre)) Grant) (init_app backend) = grant_step L ?st"
    unfolding st_def replicate_append_same [symmetric] append.assoc [symmetric] run_app_append
    using r(2) by (simp add: replicate_append_same [symmetric] run_app_append app_step_def app_act_def flip: st_def)
  ultimately show ?thesis by simp
qed

definition waits_to_register :: "(string \<times> string) list app_event list" where
  "waits_to_register = [Tunnel_Start 5 ''r1'' get_x, Connect 1 ''app'', First 1 0 (Got (Ws_Text ''Rk.11.test'')) True]"

theorem registration_takes_effect_witness:
  "\<exists>sk. as_sockets (run_app list_app ''k'' True (waits_to_register @ replicate (Suc 1) Grant) (init_app ''http://c'')) 1 = Some sk
    \<and> sk_stage sk = Serving"
proof -
  have "lk_readers (as_lock (run_app list_app ''k'' True waits_to_register (init_app ''http://c''))) = []" by code_simp
  moreover have "lk_queue (as_lock (run_app list_app ''k'' True waits_to_register (init_app ''http://c'')))
      = [Read 5] @ Write (Insert_Tunnel 1) # []" by code_simp
  moreover have "\<not> as_aborted (run_app list_app ''k'' True waits_to_register (init_app ''http://c''))" by code_simp
  moreover have "list_all (listing_or_write (run_app list_app ''k'' True waits_to_register (init_app ''http://c''))) [Read 5]" by code_simp
  ultimately show ?thesis
    using registration_takes_effect [of list_app "''k''" True waits_to_register "''http://c''" "[Read 5]" 1 "[]"] by auto
qed

section \<open>Login and registration\<close>

text \<open>
  A token that login hands out registers tunnels for a day: login accepts the one user, and a socket
  that sends this token within 86400 seconds is admitted, whatever id it connects for. JWT enters with
  the law that a token decodes under its secret until it expires.
\<close>

theorem login_token_registers:
  assumes "\<And>k c t n. jwt_encode L k c = Some t \<Longrightarrow> n \<le> claim_exp c \<Longrightarrow> jwt_decode L k n t = Some c"
    and "login L secret now username password = Inr (code, token)" "later \<le> now + 86400"
    and "from_json L t = Some (Register token sub)" "as_sockets st s = Some sk" "sk_stage sk = Await_Register" "\<not> as_aborted st"
  shows "username = ''test'' \<and> password = ''test'' \<and> code = 200
    \<and> socket_in Registering (app_step L secret checks (First s later (Got (Ws_Text t)) True) st) s"
proof -
  from assms(2) have c: "username = ''test''" "password = ''test''" "code = 200"
    "jwt_encode L secret \<lparr>claim_sub = ''test'', claim_exp = now + 86400\<rparr> = Some token"
    by (auto simp: login_def split: if_splits option.splits)
  from assms(1) [OF c(4), of later] assms(3) have
    "jwt_decode L secret later token = Some \<lparr>claim_sub = ''test'', claim_exp = now + 86400\<rparr>" by simp
  with c assms(4-7) show ?thesis by (simp add: app_step_def app_act_def socket_first_def)
qed

lemma plain_jwt: "plain_encode k c = Some t \<Longrightarrow> n \<le> claim_exp c \<Longrightarrow> plain_decode k n t = Some c"
proof -
  assume t: "plain_encode k c = Some t" and n: "n \<le> claim_exp c"
  let ?r = "replicate (claim_exp c) (CHR ''1'')"
  have "t = (k @ ''.'') @ ?r @ ''.'' @ claim_sub c" using t by (simp add: plain_encode_def)
  then have s: "strip_prefix (k @ ''.'') t = Some (?r @ ''.'' @ claim_sub c)" by (simp only: strip_prefix_append)
  have "takeWhile (\<lambda>x. x = CHR ''1'') (replicate m (CHR ''1'') @ ''.'' @ u) = replicate m (CHR ''1'')" for m u
    by (induction m) simp_all
  with s n show ?thesis by (simp add: plain_decode_def Let_def)
qed

theorem login_token_registers_witness:
  "\<exists>token. login list_app ''k'' 0 ''test'' ''test'' = Inr (200, token)
    \<and> socket_in Registering (app_step list_app ''k'' True (First 1 86400 (Got (Ws_Text (CHR ''R'' # token))) True)
        (app_step list_app ''k'' True (Connect 1 ''app'') (init_app ''http://c''))) 1"
proof -
  let ?st = "app_step list_app ''k'' True (Connect 1 ''app'') (init_app ''http://c'')"
  obtain token where l: "login list_app ''k'' 0 ''test'' ''test'' = Inr (200, token)"
    by (simp add: login_def list_app_def plain_encode_def)
  obtain sk where sk: "as_sockets ?st 1 = Some sk" "sk_stage sk = Await_Register" "\<not> as_aborted ?st"
    by (simp add: app_step_def app_act_def connect_socket_def init_app_def)
  have j: "jwt_decode list_app k n t = Some c" if "jwt_encode list_app k c = Some t" "n \<le> claim_exp c" for k c t n
    using that plain_jwt by (simp add: list_app_def)
  have "from_json list_app (CHR ''R'' # token) = Some (Register token ''app'')" by (simp add: list_app_def)
  from login_token_registers [OF j l _ this sk, of 86400 True] l show ?thesis by auto
qed

section \<open>Registrations that end although the socket serves, and the reverse\<close>

text \<open>
  Anyone can end the registration of a tunnel: a connection to \<open>/register/{id}\<close> whose token is
  refused still hands its id to the cleanup task, which removes the tunnel of the id from the map while
  its socket goes on serving.
\<close>

theorem refused_token_ends_registration:
  assumes "as_sockets st s2 = None" "as_cleanup st = []" "as_cleaner st = Idle" "as_lock st = new_lock"
    and "map_of (ap_tunnels (as_app st)) tid = Some s" "socket_in Serving st s"
    and "from_json L t = Some (Register token sub)" "jwt_decode L secret now token = None" "\<not> as_aborted st"
  shows "map_of (ap_tunnels (as_app (run_app L secret checks
        [Connect s2 tid, First s2 now (Got (Ws_Text t)) True, Tell_Cleanup s2, Cleanup_Take True, Grant] st))) tid = None
    \<and> socket_in Serving (run_app L secret checks
        [Connect s2 tid, First s2 now (Got (Ws_Text t)) True, Tell_Cleanup s2, Cleanup_Take True, Grant] st) s"
proof -
  have "s \<noteq> s2" using assms(1,6) by (auto simp: socket_in_def)
  then show ?thesis using assms
    by (simp add: app_step_def app_act_def connect_socket_def socket_first_def tell_cleanup_def cleanup_take_def grant_step_def
        lock_grant_def lock_request_def new_lock_def write_granted_def socket_in_def QUEUE_SIZE_def)
qed

theorem refused_token_ends_registration_witness:
  "map_of (ap_tunnels (as_app (run_app list_app ''k'' True
      [Connect 2 ''app'', First 2 0 (Got (Ws_Text ''Rx'')) True, Tell_Cleanup 2, Cleanup_Take True, Grant]
      (run_app list_app ''k'' True registers (init_app ''http://c''))))) ''app'' = None"
proof -
  let ?st = "run_app list_app ''k'' True registers (init_app ''http://c'')"
  have a: "socket_in Ended ?st 2 = False \<and> map_option sk_id (as_sockets ?st 2) = None \<and> as_cleanup ?st = []
    \<and> as_cleaner ?st = Idle \<and> lk_readers (as_lock ?st) = [] \<and> lk_queue (as_lock ?st) = []
    \<and> map_of (ap_tunnels (as_app ?st)) ''app'' = Some 1 \<and> socket_in Serving ?st 1 \<and> \<not> as_aborted ?st"
    by code_simp
  then have l: "as_lock ?st = new_lock" by (simp add: new_lock_def)
  have "from_json list_app ''Rx'' = Some (Register ''x'' ''app'')" "jwt_decode list_app ''k'' 0 ''x'' = None"
    by (simp_all add: list_app_def plain_decode_def)
  with refused_token_ends_registration [of ?st 2 "''app''" 1 list_app] a l show ?thesis by auto
qed

end
