(* ===== verification/Tunnel_App_Exit.thy ===== *)
theory Tunnel_App_Exit
  imports Tunnel_App_Block
begin

text \<open>
  The end of \<open>main\<close> in \<open>src/rathole/src/main.rs\<close>: the signal, the wait of the HTTP server for the requests it
  is still serving (which its documentation calls graceful shutdown), and the list of tunnels that is
  printed last.
\<close>

section \<open>The signal\<close>

text \<open>\<open>shutdown_signal\<close>: whichever of the two signals comes first, when they come at all.\<close>

definition shutdown_signal :: "instant option \<Rightarrow> instant option \<Rightarrow> instant option" where
  "shutdown_signal ctrl_c terminate =
     (case (ctrl_c, terminate) of
        (None, t) \<Rightarrow> t
      | (t, None) \<Rightarrow> t
      | (Some a, Some b) \<Rightarrow> Some (min a b))"

lemma shutdown_signal_first:
  "shutdown_signal c t = Some a \<longleftrightarrow> (c = Some a \<and> (\<forall>b. t = Some b \<longrightarrow> a \<le> b)) \<or> (t = Some a \<and> (\<forall>b. c = Some b \<longrightarrow> a \<le> b))"
  by (auto simp: shutdown_signal_def min_def split: option.splits)

section \<open>The end\<close>

text \<open>Where \<open>main\<close> is: serving, waiting for the open requests, waiting for the map, or returned.\<close>

datatype main_stage = Main_Serving | Main_Draining | Main_Listing | Main_Returned

fun call_done :: "'h call_stage \<Rightarrow> bool" where
  "call_done (Returned x) = True"
| "call_done Aborted = True"
| "call_done x = False"

text \<open>The requests are given by their numbers, so that the condition can be computed.\<close>

definition all_done :: "nat list \<Rightarrow> 'h app_sys \<Rightarrow> bool" where
  "all_done rs st = list_all (\<lambda>r. case as_calls st r of None \<Rightarrow> True | Some c \<Rightarrow> call_done (tr_stage c)) rs"

datatype main_event = Signal_Received | Requests_Done | Map_Readable

text \<open>The last read of the map waits, like every other, while a writer has it or is queued for it.\<close>

definition map_readable :: "'h app_sys \<Rightarrow> bool" where
  "map_readable st = (lk_queue (as_lock st) = [])"

definition main_step :: "nat list \<Rightarrow> 'h app_sys \<Rightarrow> main_event \<Rightarrow> main_stage \<Rightarrow> main_stage" where
  "main_step rs st e m =
     (case (m, e) of
        (Main_Serving, Signal_Received) \<Rightarrow> Main_Draining
      | (Main_Draining, Requests_Done) \<Rightarrow> if all_done rs st then Main_Listing else m
      | (Main_Listing, Map_Readable) \<Rightarrow> if map_readable st then Main_Returned else m
      | _ \<Rightarrow> m)"

text \<open>\<open>main\<close> beside the application: at each of its events the application has come one step further.\<close>

fun run_main ::
  "('h, 'm) app_lib_scheme \<Rightarrow> string \<Rightarrow> bool \<Rightarrow> nat list \<Rightarrow> ('h app_event + main_event) list \<Rightarrow> 'h app_sys \<Rightarrow> main_stage \<Rightarrow>
    'h app_sys \<times> main_stage" where
  "run_main L secret checks rs [] st m = (st, m)"
| "run_main L secret checks rs (Inl e # es) st m = run_main L secret checks rs es (app_step L secret checks e st) m"
| "run_main L secret checks rs (Inr e # es) st m = run_main L secret checks rs es st (main_step rs st e m)"

fun app_part :: "('a + 'b) list \<Rightarrow> 'a list" where
  "app_part [] = []"
| "app_part (Inl e # es) = e # app_part es"
| "app_part (Inr e # es) = app_part es"

lemma run_main_app: "fst (run_main L secret checks rs es st m) = run_app L secret checks (app_part es) st"
  by (induction L secret checks rs es st m rule: run_main.induct) simp_all

text \<open>While a request waits the program does not get past the wait for the open requests.\<close>

lemma awaits_not_done: "awaits st r rid \<Longrightarrow> r \<in> set rs \<Longrightarrow> \<not> all_done rs st"
  by (auto simp: all_done_def list_all_iff call_in_def dest!: awaitsD(2) split: option.splits intro!: bexI [of _ r])

lemma stuck_main:
  assumes "slot_inv L (\<lambda>_ _. True) st" "lock_inv None st" "awaits st r rid" "r \<in> set rs"
    and "list_all (\<lambda>e. \<not> answers L rid e) (app_part es)" "m = Main_Serving \<or> m = Main_Draining"
  shows "snd (run_main L secret checks rs es st m) \<in> {Main_Serving, Main_Draining}"
  using assms
proof (induction L secret checks rs es st m rule: run_main.induct)
  case (2 L secret checks rs e es st m)
  have "slot_inv L (\<lambda>_ _. True) (app_step L secret checks e st)"
    by (rule slot_inv_step [OF 2(2,3)]) simp
  moreover have "awaits (app_step L secret checks e st) r rid"
    using blocked_step [OF 2(2-4)] 2(6) by simp
  ultimately show ?case using 2 by (simp add: lock_inv_step)
next
  case (3 L secret checks rs e es st m)
  have "main_step rs st e m = Main_Serving \<or> main_step rs st e m = Main_Draining"
    using awaits_not_done [OF 3(4,5)] 3(7) by (cases e) (auto simp: main_step_def)
  with 3 show ?case by simp
qed auto

text \<open>
  A program with an unanswered request of \<open>/tunnel\<close> does not end when it is told to: after the signal
  \<open>main\<close> waits for the open requests, and the one that waits for its tunnel has no timeout.
\<close>

theorem unanswered_request_prevents_shutdown:
  assumes "as_calls (run_app L secret checks evs (init_app backend)) r = Some c" "tr_stage c = Awaiting"
    and "list_all (\<lambda>e. \<forall>r' call. e = Tunnel_Start r' (tr_rid c) call \<longrightarrow> r' = r) evs"
    and "list_all (\<lambda>e. \<not> answers L (tr_rid c) e) (app_part later)" and "r \<in> set rs"
  shows "snd (run_main L secret checks rs (Inr Signal_Received # later) (run_app L secret checks evs (init_app backend)) Main_Serving)
    \<noteq> Main_Returned"
proof -
  have "awaits (run_app L secret checks evs (init_app backend)) r (tr_rid c)"
    using assms(1,2,3) by (intro awaits_reachable) (auto simp: list_all_iff)
  from stuck_main [OF slot_inv_reachable lock_inv_reachable this assms(5,4), of Main_Draining secret checks]
  show ?thesis by (auto simp: main_step_def)
qed

theorem unanswered_request_prevents_shutdown_witness:
  "snd (run_main list_app ''k'' True [5] (Inr Signal_Received # map Inl tunnel_ends @ [Inr Requests_Done, Inr Map_Readable])
     (run_app list_app ''k'' True asks (init_app ''http://c'')) Main_Serving) \<noteq> Main_Returned"
proof -
  let ?st = "run_app list_app ''k'' True asks (init_app ''http://c'')"
  have "call_in (\<lambda>x. x = Awaiting) ?st 5 \<and> rid_of ?st 5 = Some ''r1''" by code_simp
  then obtain c where c: "as_calls ?st 5 = Some c" "tr_stage c = Awaiting" "tr_rid c = ''r1''"
    by (auto simp: call_in_def rid_of_def split: option.splits)
  show ?thesis
    by (rule unanswered_request_prevents_shutdown [OF c(1,2)])
      (simp_all add: c(3) asks_def registers_def tunnel_ends_def answers_def)
qed

end
