(* ===== verification/Relay.thy ===== *)
theory Relay
  imports Routing_Props
begin

text \<open>
  The relay of \<open>src/relay/src/main.rs\<close> and its client \<open>src/client/src/main.rs\<close>, with the messages of
  \<open>src/shared/src/lib.rs\<close>. The map of tunnels is behind a mutex; the handler of a request keeps it (as
  the temporary of its \<open>if let\<close>) while it forwards. Each event is one stretch of one task between two
  waits; the mutex is granted in the order of the requests, as tokio documents it. The map of pending
  requests is locked for single statements only, so its operations are atomic.
\<close>

section \<open>Messages\<close>

datatype relay_message =
    Relay_Register string string
  | Relay_Request string string string "(string \<times> string) list" bytes
  | Relay_Response string u16 "(string \<times> string) list" bytes
  | Relay_Health rat u32
  | Relay_Pong

record 'h relay_lib = "'h http_lib" +
  add_header :: "'h \<Rightarrow> string \<Rightarrow> string \<Rightarrow> 'h"
  msg_to_json :: "relay_message \<Rightarrow> string option"
  msg_from_json :: "string \<Rightarrow> relay_message option"
  method_ok :: "string \<Rightarrow> bool"

section \<open>State\<close>

text \<open>
  A socket whose client is gone is \<open>Deaf\<close>: its loop goes on with the other branch. \<open>Leaving\<close> waits for
  the mutex to remove its tunnel, \<open>Broken\<close> is a task ended by a panic. The channel of a socket lives as
  long as its task.
\<close>

datatype sock_stage = Joining | Serving_Both | Deaf | Leaving | Gone | Broken

record relay_sock =
  ks_id :: string
  ks_stage :: sock_stage
  ks_queue :: "relay_message list"
  ks_wire :: "string list"

definition sock_alive :: "relay_sock \<Rightarrow> bool" where
  "sock_alive k = (ks_stage k \<in> {Serving_Both, Deaf, Leaving})"

record 'h relay_req =
  kr_method :: string
  kr_uri :: string
  kr_headers :: 'h
  kr_body :: "bytes option"

text \<open>
  The stages of a request: it waits for the mutex, for room in the queue of the tunnel, for the answer,
  or for the fallback backend (with the mutex or without, with the body it sends there).
\<close>

datatype 'h relay_stage =
    Wants_Lock
  | Sends nat relay_message
  | Waits_Answer
  | At_Fallback bool "bytes option"
  | Answered_With "status_code + 'h axum_response"
  | Panicked

text \<open>\<open>kc_answer\<close> is the channel of the answer: \<open>Some None\<close> when its sender was dropped.\<close>

record 'h relay_call =
  kc_req :: "'h relay_req"
  kc_rid :: string
  kc_answer :: "'h axum_response option option"
  kc_stage :: "'h relay_stage"

datatype mutex_waiter = Add_Tunnel nat | Drop_Tunnel nat | Look_Up nat

record 'h relay_sys =
  ry_tunnels :: "(string, nat) hash"
  ry_pending :: "(string, nat) hash"
  ry_holder :: "nat option"
  ry_waiting :: "mutex_waiter list"
  ry_socks :: "nat \<rightharpoonup> relay_sock"
  ry_calls :: "nat \<rightharpoonup> 'h relay_call"

definition init_relay :: "'h relay_sys" where
  "init_relay = \<lparr>ry_tunnels = [], ry_pending = [], ry_holder = None, ry_waiting = [],
     ry_socks = Map.empty, ry_calls = Map.empty\<rparr>"

definition put_call :: "nat \<Rightarrow> 'h relay_stage \<Rightarrow> 'h relay_sys \<Rightarrow> 'h relay_sys" where
  "put_call r x st =
     st\<lparr>ry_calls := (ry_calls st)(r := map_option (\<lambda>c. c\<lparr>kc_stage := x\<rparr>) (ry_calls st r))\<rparr>"

definition put_sock :: "nat \<Rightarrow> sock_stage \<Rightarrow> 'h relay_sys \<Rightarrow> 'h relay_sys" where
  "put_sock s x st =
     st\<lparr>ry_socks := (ry_socks st)(s := map_option (\<lambda>k. k\<lparr>ks_stage := x\<rparr>) (ry_socks st s))\<rparr>"

section \<open>Answers\<close>

text \<open>A request that is done gives the mutex back.\<close>

definition finish_call :: "nat \<Rightarrow> 'h relay_stage \<Rightarrow> 'h relay_sys \<Rightarrow> 'h relay_sys" where
  "finish_call r x st =
     (put_call r x st)\<lparr>ry_holder := (if ry_holder st = Some r then None else ry_holder st)\<rparr>"

text \<open>
  The end of \<open>forward_to_tunnel\<close>: with an answer the request is done, without one it goes to the
  fallback, with the mutex and with an empty body.
\<close>

definition settle :: "nat \<Rightarrow> 'h relay_sys \<Rightarrow> 'h relay_sys" where
  "settle r st =
     (case ry_calls st r of
        None \<Rightarrow> st
      | Some c \<Rightarrow>
          if kc_stage c \<noteq> Waits_Answer then st
          else case kc_answer c of
                 None \<Rightarrow> st
               | Some (Some resp) \<Rightarrow> finish_call r (Answered_With (Inr resp)) st
               | Some None \<Rightarrow>
                   (put_call r (At_Fallback True (Some [])) st)\<lparr>ry_pending := hash_remove (kc_rid c) (ry_pending st)\<rparr>)"

text \<open>The pending entry of a request id is taken out and its channel gets an answer or is closed.\<close>

definition answer_slot :: "string \<Rightarrow> 'h axum_response option \<Rightarrow> 'h relay_sys \<Rightarrow> 'h relay_sys" where
  "answer_slot rid a st =
     (case map_of (ry_pending st) rid of
        None \<Rightarrow> st
      | Some r \<Rightarrow>
          settle r (st\<lparr>ry_pending := hash_remove rid (ry_pending st),
                       ry_calls := (ry_calls st)(r := map_option (\<lambda>c. c\<lparr>kc_answer := Some a\<rparr>) (ry_calls st r))\<rparr>))"

text \<open>Building a response; \<open>body().unwrap()\<close> panics on an invalid status or header.\<close>

fun add_headers :: "('h, 'm) relay_lib_scheme \<Rightarrow> (string \<times> string) list \<Rightarrow> 'h \<Rightarrow> 'h option" where
  "add_headers L [] h = Some h"
| "add_headers L ((k, v) # hs) h =
     (case header_name L k of
        None \<Rightarrow> None
      | Some n \<Rightarrow> if value_ok L v then add_headers L hs (add_header L h n v) else None)"

definition relay_response :: "('h, 'm) relay_lib_scheme \<Rightarrow> u16 \<Rightarrow> (string \<times> string) list \<Rightarrow> bytes \<Rightarrow> 'h axum_response option" where
  "relay_response L code hs body =
     (if \<not> status_ok L code then None
      else case add_headers L hs (hdr_empty L) of
             None \<Rightarrow> None
           | Some h \<Rightarrow> Some \<lparr>ar_status = code, ar_headers = h, ar_body = body\<rparr>)"

section \<open>Sockets\<close>

definition relay_connect :: "nat \<Rightarrow> string \<Rightarrow> 'h relay_sys \<Rightarrow> 'h relay_sys" where
  "relay_connect s tid st =
     (if ry_socks st s \<noteq> None then st
      else st\<lparr>ry_socks := (ry_socks st)(s \<mapsto> \<lparr>ks_id = tid, ks_stage = Joining, ks_queue = [], ks_wire = []\<rparr>),
              ry_waiting := ry_waiting st @ [Add_Tunnel s]\<rparr>)"

text \<open>
  The branch of the queue: a message that cannot be encoded is skipped, a failed send ends the loop. A
  send to a client that is gone fails. The queue is closed when the map has no sender of it (a forward
  that has a copy keeps the map as it is); then the loop ends with the stream of the socket.
\<close>

definition relay_forward :: "('h, 'm) relay_lib_scheme \<Rightarrow> nat \<Rightarrow> bool \<Rightarrow> 'h relay_sys \<Rightarrow> 'h relay_sys" where
  "relay_forward L s send_ok st =
     (case ry_socks st s of
        None \<Rightarrow> st
      | Some k \<Rightarrow>
          if ks_stage k \<noteq> Serving_Both \<and> ks_stage k \<noteq> Deaf then st
          else case ks_queue k of
            [] \<Rightarrow>
              if ks_stage k = Deaf \<and> s \<notin> snd ` set (ry_tunnels st)
              then (put_sock s Leaving st)\<lparr>ry_waiting := ry_waiting st @ [Drop_Tunnel s]\<rparr>
              else st
          | m # ms \<Rightarrow>
              (case msg_to_json L m of
                 None \<Rightarrow> st\<lparr>ry_socks := (ry_socks st)(s \<mapsto> k\<lparr>ks_queue := ms\<rparr>)\<rparr>
               | Some t \<Rightarrow>
                   if send_ok \<and> ks_stage k \<noteq> Deaf
                   then st\<lparr>ry_socks := (ry_socks st)(s \<mapsto> k\<lparr>ks_queue := ms, ks_wire := ks_wire k @ [t]\<rparr>)\<rparr>
                   else st\<lparr>ry_socks := (ry_socks st)(s \<mapsto> k\<lparr>ks_queue := ms, ks_stage := Leaving\<rparr>),
                           ry_waiting := ry_waiting st @ [Drop_Tunnel s]\<rparr>))"

text \<open>The branch of the socket; \<open>None\<close> is the end of its stream, which disables the branch.\<close>

definition relay_recv :: "('h, 'm) relay_lib_scheme \<Rightarrow> nat \<Rightarrow> string option \<Rightarrow> 'h relay_sys \<Rightarrow> 'h relay_sys" where
  "relay_recv L s m st =
     (case ry_socks st s of
        None \<Rightarrow> st
      | Some k \<Rightarrow>
          if ks_stage k \<noteq> Serving_Both then st
          else case m of
            None \<Rightarrow> put_sock s Deaf st
          | Some t \<Rightarrow>
              (case msg_from_json L t of
                 Some (Relay_Response rid code hs body) \<Rightarrow>
                   (if map_of (ry_pending st) rid = None then st
                    else case relay_response L code hs body of
                           None \<Rightarrow> answer_slot rid None (put_sock s Broken st)
                         | Some resp \<Rightarrow> answer_slot rid (Some resp) st)
               | _ \<Rightarrow> st))"

section \<open>Requests\<close>

definition relay_subdomain :: "('h, 'm) relay_lib_scheme \<Rightarrow> 'h relay_req \<Rightarrow> string option" where
  "relay_subdomain L req = map_option (\<lambda>h. hd (split_on (CHR ''.'') h)) (header_str L (kr_headers req) ''host'')"

text \<open>Without a host there is nothing to look up. The number of a request is new.\<close>

definition relay_ask :: "('h, 'm) relay_lib_scheme \<Rightarrow> nat \<Rightarrow> string \<Rightarrow> 'h relay_req \<Rightarrow> 'h relay_sys \<Rightarrow> 'h relay_sys" where
  "relay_ask L r rid req st =
     (if ry_calls st r \<noteq> None \<or> r \<in> snd ` set (ry_pending st) then st
      else if relay_subdomain L req = None
      then st\<lparr>ry_calls := (ry_calls st)(r \<mapsto> \<lparr>kc_req = req, kc_rid = rid, kc_answer = None, kc_stage = At_Fallback False (kr_body req)\<rparr>)\<rparr>
      else st\<lparr>ry_calls := (ry_calls st)(r \<mapsto> \<lparr>kc_req = req, kc_rid = rid, kc_answer = None, kc_stage = Wants_Lock\<rparr>),
              ry_waiting := ry_waiting st @ [Look_Up r]\<rparr>)"

definition RELAY_QUEUE :: nat where "RELAY_QUEUE = 100"

text \<open>\<open>tunnel_sender.send\<close>: a wait while the queue is full, an error once the task is gone.\<close>

definition relay_send :: "nat \<Rightarrow> nat \<Rightarrow> relay_message \<Rightarrow> 'h relay_sys \<Rightarrow> 'h relay_sys" where
  "relay_send r s m st =
     (case ry_calls st r of
        None \<Rightarrow> st
      | Some c \<Rightarrow>
          (case ry_socks st s of
             Some k \<Rightarrow>
               if \<not> sock_alive k
               then (put_call r (At_Fallback True (Some [])) st)\<lparr>ry_pending := hash_remove (kc_rid c) (ry_pending st)\<rparr>
               else if RELAY_QUEUE \<le> length (ks_queue k) then put_call r (Sends s m) st
               else settle r (put_call r Waits_Answer
                      (st\<lparr>ry_socks := (ry_socks st)(s \<mapsto> k\<lparr>ks_queue := ks_queue k @ [m]\<rparr>)\<rparr>))
           | None \<Rightarrow>
               (put_call r (At_Fallback True (Some [])) st)\<lparr>ry_pending := hash_remove (kc_rid c) (ry_pending st)\<rparr>))"

definition relay_retry :: "nat \<Rightarrow> 'h relay_sys \<Rightarrow> 'h relay_sys" where
  "relay_retry r st =
     (case ry_calls st r of
        None \<Rightarrow> st
      | Some c \<Rightarrow> (case kc_stage c of Sends s m \<Rightarrow> relay_send r s m st | _ \<Rightarrow> st))"

text \<open>The lookup, and \<open>forward_to_tunnel\<close> up to the send, all with the mutex.\<close>

definition relay_look :: "('h, 'm) relay_lib_scheme \<Rightarrow> nat \<Rightarrow> 'h relay_call \<Rightarrow> 'h relay_sys \<Rightarrow> 'h relay_sys" where
  "relay_look L r c st =
     (case (case relay_subdomain L (kc_req c) of None \<Rightarrow> None | Some d \<Rightarrow> map_of (ry_tunnels st) d) of
        None \<Rightarrow> put_call r (At_Fallback False (kr_body (kc_req c))) st
      | Some s \<Rightarrow>
          (let st0 = answer_slot (kc_rid c) None st;
               st1 = st0\<lparr>ry_pending := hash_insert (kc_rid c) r (ry_pending st0), ry_holder := Some r\<rparr>;
               hs = hdr_iter L (kr_headers (kc_req c))
           in case kr_body (kc_req c) of
                None \<Rightarrow> put_call r (At_Fallback True (Some [])) st1
              | Some body \<Rightarrow>
                  if \<not> list_all (visible L) (map snd hs) then finish_call r Panicked st1
                  else relay_send r s (Relay_Request (kc_rid c) (kr_method (kc_req c)) (kr_uri (kc_req c)) hs body) st1))"

text \<open>The answer of the fallback backend, \<open>None\<close> for an error.\<close>

definition relay_fallback :: "nat \<Rightarrow> 'h axum_response option \<Rightarrow> 'h relay_sys \<Rightarrow> 'h relay_sys" where
  "relay_fallback r res st =
     (case ry_calls st r of
        None \<Rightarrow> st
      | Some c \<Rightarrow>
          (case kc_stage c of
             At_Fallback held body \<Rightarrow>
               finish_call r (Answered_With (case res of None \<Rightarrow> Inl INTERNAL_SERVER_ERROR | Some x \<Rightarrow> Inr x)) st
           | _ \<Rightarrow> st))"

section \<open>The relay\<close>

definition mutex_grant :: "('h, 'm) relay_lib_scheme \<Rightarrow> 'h relay_sys \<Rightarrow> 'h relay_sys" where
  "mutex_grant L st =
     (if ry_holder st \<noteq> None then st
      else case ry_waiting st of
        [] \<Rightarrow> st
      | x # xs \<Rightarrow>
          (let st1 = st\<lparr>ry_waiting := xs\<rparr>
           in case x of
                Add_Tunnel s \<Rightarrow>
                  (case ry_socks st s of
                     None \<Rightarrow> st1
                   | Some k \<Rightarrow> put_sock s Serving_Both (st1\<lparr>ry_tunnels := hash_insert (ks_id k) s (ry_tunnels st)\<rparr>))
              | Drop_Tunnel s \<Rightarrow>
                  (case ry_socks st s of
                     None \<Rightarrow> st1
                   | Some k \<Rightarrow> put_sock s Gone (st1\<lparr>ry_tunnels := hash_remove (ks_id k) (ry_tunnels st)\<rparr>))
              | Look_Up r \<Rightarrow> (case ry_calls st r of None \<Rightarrow> st1 | Some c \<Rightarrow> relay_look L r c st1)))"

datatype 'h relay_event =
    Relay_Connect nat string
  | Relay_Forward nat bool
  | Relay_Recv nat "string option"
  | Relay_Ask nat string "'h relay_req"
  | Relay_Retry nat
  | Relay_Fallback nat "'h axum_response option"
  | Mutex_Grant

fun relay_step :: "('h, 'm) relay_lib_scheme \<Rightarrow> 'h relay_event \<Rightarrow> 'h relay_sys \<Rightarrow> 'h relay_sys" where
  "relay_step L (Relay_Connect s tid) st = relay_connect s tid st"
| "relay_step L (Relay_Forward s ok) st = relay_forward L s ok st"
| "relay_step L (Relay_Recv s m) st = relay_recv L s m st"
| "relay_step L (Relay_Ask r rid req) st = relay_ask L r rid req st"
| "relay_step L (Relay_Retry r) st = relay_retry r st"
| "relay_step L (Relay_Fallback r res) st = relay_fallback r res st"
| "relay_step L Mutex_Grant st = mutex_grant L st"

fun run_relay :: "('h, 'm) relay_lib_scheme \<Rightarrow> 'h relay_event list \<Rightarrow> 'h relay_sys \<Rightarrow> 'h relay_sys" where
  "run_relay L [] st = st"
| "run_relay L (e # es) st = run_relay L es (relay_step L e st)"

section \<open>The client of the relay\<close>

text \<open>
  The request for the target: its method, address and headers are parsed again, and a header replaces
  an earlier one of its name. \<open>None\<close> is a failed \<open>unwrap\<close>.
\<close>

fun insert_headers :: "('h, 'm) http_lib_scheme \<Rightarrow> (string \<times> string) list \<Rightarrow> 'h \<Rightarrow> 'h option" where
  "insert_headers L [] h = Some h"
| "insert_headers L ((k, v) # hs) h =
     (case header_name L k of
        None \<Rightarrow> None
      | Some n \<Rightarrow> if value_ok L v then insert_headers L hs (hdr_insert L h n v) else None)"

definition client_request ::
  "('h, 'm) relay_lib_scheme \<Rightarrow> string \<Rightarrow> string \<Rightarrow> string \<Rightarrow> (string \<times> string) list \<Rightarrow> bytes \<Rightarrow> 'h relay_req option" where
  "client_request L target_url meth path hs body =
     (if \<not> method_ok L meth \<or> \<not> uri_ok L (target_url @ path) then None
      else map_option (\<lambda>h. \<lparr>kr_method = meth, kr_uri = target_url @ path, kr_headers = h, kr_body = Some body\<rparr>)
             (insert_headers L hs (hdr_empty L)))"

text \<open>
  What the client does with a message: a request is sent to the target, which is a parameter (\<open>None\<close> for
  an error; reading the body of its response may fail), and answered. A failed \<open>unwrap\<close> ends the task of
  the request without an answer. Other messages are dropped.
\<close>

definition unwrap_failed :: fault where
  "unwrap_failed = Panic ''called `Result::unwrap()` on an `Err` value''"

definition client_answer ::
  "('h, 'm) relay_lib_scheme \<Rightarrow> string \<Rightarrow> ('h relay_req \<Rightarrow> ('h axum_response \<times> bool) option) \<Rightarrow> relay_message
   \<Rightarrow> fault + relay_message option" where
  "client_answer L target_url target m =
     (case m of
        Relay_Request rid meth path hs body \<Rightarrow>
          (case client_request L target_url meth path hs body of
             None \<Rightarrow> Inl unwrap_failed
           | Some req \<Rightarrow>
               (case target req of
                  None \<Rightarrow> Inr (Some (Relay_Response rid 502 [] (as_bytes ''Bad Gateway'')))
                | Some (resp, body_read) \<Rightarrow>
                    if \<not> body_read \<or> \<not> list_all (visible L) (map snd (hdr_iter L (ar_headers resp)))
                    then Inl unwrap_failed
                    else Inr (Some (Relay_Response rid (ar_status resp) (hdr_iter L (ar_headers resp)) (ar_body resp)))))
      | _ \<Rightarrow> Inr None)"

text \<open>A text from the relay; one that does not parse is skipped.\<close>

definition client_recv ::
  "('h, 'm) relay_lib_scheme \<Rightarrow> string \<Rightarrow> ('h relay_req \<Rightarrow> ('h axum_response \<times> bool) option) \<Rightarrow> string
   \<Rightarrow> fault + relay_message option" where
  "client_recv L target_url target t =
     (case msg_from_json L t of None \<Rightarrow> Inr None | Some m \<Rightarrow> client_answer L target_url target m)"

end
