(* ===== verification/Relay_Props.thy ===== *)
theory Relay_Props
  imports Relay
begin

text \<open>
  Properties of the relay: its mutex serialises the requests, what a request without an answer does to
  the rest, a tunnel whose client is gone, the body at the fallback, and the client's answers.
\<close>

section \<open>Who holds the mutex\<close>

fun held :: "'h relay_stage \<Rightarrow> bool" where
  "held (Sends s m) = True"
| "held Waits_Answer = True"
| "held (At_Fallback b body) = b"
| "held x = False"

definition stage_of :: "'h relay_sys \<Rightarrow> nat \<Rightarrow> 'h relay_stage option" where
  "stage_of st r = map_option kc_stage (ry_calls st r)"

definition sock_stage_of :: "'h relay_sys \<Rightarrow> nat \<Rightarrow> sock_stage option" where
  "sock_stage_of st s = map_option ks_stage (ry_socks st s)"

text \<open>
  The holder is the request that is in one of the stages with the mutex; the queue has, each once, the
  sockets that join or leave and the requests that want the mutex.
\<close>

definition mutex_inv :: "'h relay_sys \<Rightarrow> bool" where
  "mutex_inv st =
     (distinct (ry_waiting st)
      \<and> (\<forall>r. ry_holder st = Some r \<longleftrightarrow> (\<exists>x. stage_of st r = Some x \<and> held x))
      \<and> (\<forall>r. Look_Up r \<in> set (ry_waiting st) \<longleftrightarrow> stage_of st r = Some Wants_Lock)
      \<and> (\<forall>s. Add_Tunnel s \<in> set (ry_waiting st) \<longleftrightarrow> sock_stage_of st s = Some Joining)
      \<and> (\<forall>s. Drop_Tunnel s \<in> set (ry_waiting st) \<longleftrightarrow> sock_stage_of st s = Some Leaving))"

lemma mutex_invD:
  assumes "mutex_inv st"
  shows "distinct (ry_waiting st)"
    and "ry_holder st = Some r \<longleftrightarrow> (\<exists>x. stage_of st r = Some x \<and> held x)"
    and "Look_Up r \<in> set (ry_waiting st) \<longleftrightarrow> stage_of st r = Some Wants_Lock"
    and "Add_Tunnel s \<in> set (ry_waiting st) \<longleftrightarrow> sock_stage_of st s = Some Joining"
    and "Drop_Tunnel s \<in> set (ry_waiting st) \<longleftrightarrow> sock_stage_of st s = Some Leaving"
  using assms unfolding mutex_inv_def by blast+

lemma mutex_invI:
  assumes "distinct (ry_waiting st)"
    and "\<And>r. ry_holder st = Some r \<longleftrightarrow> (\<exists>x. stage_of st r = Some x \<and> held x)"
    and "\<And>r. Look_Up r \<in> set (ry_waiting st) \<longleftrightarrow> stage_of st r = Some Wants_Lock"
    and "\<And>s. Add_Tunnel s \<in> set (ry_waiting st) \<longleftrightarrow> sock_stage_of st s = Some Joining"
    and "\<And>s. Drop_Tunnel s \<in> set (ry_waiting st) \<longleftrightarrow> sock_stage_of st s = Some Leaving"
  shows "mutex_inv st"
  unfolding mutex_inv_def using assms by blast

lemma put_fields [simp]:
  "stage_of (put_call r x st) r' = (if r' = r \<and> stage_of st r \<noteq> None then Some x else stage_of st r')"
  "sock_stage_of (put_call r x st) = sock_stage_of st"
  "ry_holder (put_call r x st) = ry_holder st" "ry_waiting (put_call r x st) = ry_waiting st"
  "ry_tunnels (put_call r x st) = ry_tunnels st" "ry_pending (put_call r x st) = ry_pending st"
  "ry_socks (put_call r x st) = ry_socks st"
  "stage_of (put_sock s y st) = stage_of st"
  "sock_stage_of (put_sock s y st) s' = (if s' = s \<and> sock_stage_of st s \<noteq> None then Some y else sock_stage_of st s')"
  "ry_holder (put_sock s y st) = ry_holder st" "ry_waiting (put_sock s y st) = ry_waiting st"
  "ry_tunnels (put_sock s y st) = ry_tunnels st" "ry_pending (put_sock s y st) = ry_pending st"
  "ry_calls (put_sock s y st) = ry_calls st"
  by (auto simp: put_call_def put_sock_def stage_of_def sock_stage_of_def fun_eq_iff option.map_comp comp_def)

lemma view_update [simp]:
  "stage_of (st\<lparr>ry_tunnels := t\<rparr>) = stage_of st" "stage_of (st\<lparr>ry_pending := p\<rparr>) = stage_of st"
  "stage_of (st\<lparr>ry_holder := h\<rparr>) = stage_of st" "stage_of (st\<lparr>ry_waiting := w\<rparr>) = stage_of st"
  "stage_of (st\<lparr>ry_socks := ks\<rparr>) = stage_of st"
  "sock_stage_of (st\<lparr>ry_tunnels := t\<rparr>) = sock_stage_of st" "sock_stage_of (st\<lparr>ry_pending := p\<rparr>) = sock_stage_of st"
  "sock_stage_of (st\<lparr>ry_holder := h\<rparr>) = sock_stage_of st" "sock_stage_of (st\<lparr>ry_waiting := w\<rparr>) = sock_stage_of st"
  "sock_stage_of (st\<lparr>ry_calls := cs\<rparr>) = sock_stage_of st"
  by (simp_all add: stage_of_def sock_stage_of_def fun_eq_iff)

lemma finish_fields [simp]:
  "stage_of (finish_call r x st) r' = (if r' = r \<and> stage_of st r \<noteq> None then Some x else stage_of st r')"
  "sock_stage_of (finish_call r x st) = sock_stage_of st"
  "ry_holder (finish_call r x st) = (if ry_holder st = Some r then None else ry_holder st)"
  "ry_waiting (finish_call r x st) = ry_waiting st" "ry_tunnels (finish_call r x st) = ry_tunnels st"
  "ry_pending (finish_call r x st) = ry_pending st"
  by (simp_all add: finish_call_def)

lemma sock_view_update [simp]:
  "sock_stage_of (st\<lparr>ry_socks := (ry_socks st)(s \<mapsto> k)\<rparr>) = (sock_stage_of st)(s \<mapsto> ks_stage k)"
  by (simp add: sock_stage_of_def fun_eq_iff)

lemma call_view_update [simp]:
  "stage_of (st\<lparr>ry_calls := (ry_calls st)(r \<mapsto> c)\<rparr>) = (stage_of st)(r \<mapsto> kc_stage c)"
  "stage_of (st\<lparr>ry_pending := p, ry_calls := (ry_calls st)(r := map_option (kc_answer_update (\<lambda>_. a)) (ry_calls st r))\<rparr>) = stage_of st"
  by (auto simp: stage_of_def fun_eq_iff option.map_comp comp_def)

text \<open>Only the views and the queue matter.\<close>

lemma mutex_inv_cong:
  assumes "mutex_inv st" "ry_waiting st' = ry_waiting st" "ry_holder st' = ry_holder st"
    "stage_of st' = stage_of st" "sock_stage_of st' = sock_stage_of st"
  shows "mutex_inv st'"
  using assms by (simp add: mutex_inv_def)

lemma mutex_inv_put_held:
  assumes i: "mutex_inv st" and h: "ry_holder st = Some r" "held x"
  shows "mutex_inv (put_call r x st)"
proof -
  obtain y where y: "stage_of st r = Some y" "held y" using mutex_invD(2) [OF i, of r] h by blast
  have "x \<noteq> Wants_Lock" "y \<noteq> Wants_Lock" using h(2) y(2) by auto
  then show ?thesis
    using mutex_invD [OF i] y h by (intro mutex_invI) auto
qed

lemma mutex_inv_finish:
  assumes i: "mutex_inv st" and h: "ry_holder st = Some r" "\<not> held x" "x \<noteq> Wants_Lock"
  shows "mutex_inv (finish_call r x st)"
proof -
  obtain y where y: "stage_of st r = Some y" "held y" using mutex_invD(2) [OF i, of r] h by blast
  then have y': "y \<noteq> Wants_Lock" by auto
  show ?thesis
  proof (rule mutex_invI)
    fix ra show "ry_holder (finish_call r x st) = Some ra
        \<longleftrightarrow> (\<exists>z. stage_of (finish_call r x st) ra = Some z \<and> held z)"
      using mutex_invD(2) [OF i, of ra] h y by auto
  qed (use mutex_invD [OF i] h y y' in auto)
qed

lemma mutex_inv_settle:
  assumes i: "mutex_inv st"
  shows "mutex_inv (settle r st)"
proof (cases "stage_of st r = Some Waits_Answer")
  case True
  then have h: "ry_holder st = Some r" using mutex_invD(2) [OF i, of r] by auto
  have p: "mutex_inv (st'\<lparr>ry_pending := p\<rparr>)" if "mutex_inv st'" for st' :: "'a relay_sys" and p
    by (rule mutex_inv_cong [OF that]) simp_all
  show ?thesis
    using mutex_inv_finish [OF i h] mutex_inv_put_held [OF i h]
    by (auto simp: settle_def i intro!: p split: option.split)
next
  case False
  with i show ?thesis by (auto simp: settle_def stage_of_def split: option.split)
qed

lemma mutex_inv_answer_slot: "mutex_inv st \<Longrightarrow> mutex_inv (answer_slot rid a st)"
  by (auto simp: answer_slot_def intro!: mutex_inv_settle elim!: mutex_inv_cong split: option.split)

lemma mutex_inv_sock:
  assumes i: "mutex_inv st" and k: "ry_socks st s = Some k" "ks_stage k \<noteq> Joining" "ks_stage k \<noteq> Leaving"
    and k': "ks_stage k' \<noteq> Joining" "ks_stage k' \<noteq> Leaving"
  shows "mutex_inv (st\<lparr>ry_socks := (ry_socks st)(s \<mapsto> k')\<rparr>)"
  using mutex_invD [OF i] k k' by (intro mutex_invI) (auto simp: sock_stage_of_def)

lemma mutex_inv_send:
  assumes i: "mutex_inv st" and h: "ry_holder st = Some r"
  shows "mutex_inv (relay_send r s m st)"
proof -
  have p: "mutex_inv (st'\<lparr>ry_pending := p\<rparr>)" if "mutex_inv st'" for st' :: "'a relay_sys" and p
    by (rule mutex_inv_cong [OF that]) simp_all
  have q: "mutex_inv (put_call r Waits_Answer (st\<lparr>ry_socks := (ry_socks st)(s \<mapsto> k\<lparr>ks_queue := ms\<rparr>)\<rparr>))"
    if "ry_socks st s = Some k" for k ms
  proof (rule mutex_inv_put_held)
    show "mutex_inv (st\<lparr>ry_socks := (ry_socks st)(s \<mapsto> k\<lparr>ks_queue := ms\<rparr>)\<rparr>)"
      by (rule mutex_inv_cong [OF i]) (use that in \<open>auto simp: sock_stage_of_def fun_eq_iff\<close>)
  qed (simp_all add: h)
  show ?thesis
    using i h by (auto simp: relay_send_def intro!: p q mutex_inv_settle mutex_inv_put_held split: option.split)
qed

text \<open>While nobody has the mutex, an answer moves no request.\<close>

definition nobody_holds :: "'h relay_sys \<Rightarrow> bool" where
  "nobody_holds st = (\<forall>r x. stage_of st r = Some x \<longrightarrow> \<not> held x)"

lemma nobody_holds_inv: "mutex_inv st \<Longrightarrow> ry_holder st = None \<Longrightarrow> nobody_holds st"
  unfolding nobody_holds_def by (metis mutex_invD(2) option.distinct(1))

lemma settle_free: "nobody_holds st \<Longrightarrow> settle r st = st"
  by (force simp: nobody_holds_def settle_def stage_of_def split: option.split)

lemma answer_slot_free:
  assumes "nobody_holds st"
  shows "ry_holder (answer_slot rid a st) = ry_holder st" "ry_waiting (answer_slot rid a st) = ry_waiting st"
    "stage_of (answer_slot rid a st) = stage_of st" "sock_stage_of (answer_slot rid a st) = sock_stage_of st"
    "ry_tunnels (answer_slot rid a st) = ry_tunnels st"
proof -
  have "settle r st' = st'" if "stage_of st' = stage_of st" for r and st' :: "'a relay_sys"
    using assms that by (intro settle_free) (simp add: nobody_holds_def)
  then show "ry_holder (answer_slot rid a st) = ry_holder st" "ry_waiting (answer_slot rid a st) = ry_waiting st"
    "stage_of (answer_slot rid a st) = stage_of st" "sock_stage_of (answer_slot rid a st) = sock_stage_of st"
    "ry_tunnels (answer_slot rid a st) = ry_tunnels st"
    by (simp_all add: answer_slot_def split: option.split)
qed

lemma put_call_absorbs: "put_call r x (put_call r y st) = put_call r x st"
  by (simp add: put_call_def option.map_comp comp_def)

lemma finish_call_absorbs: "finish_call r x (put_call r y st) = finish_call r x st"
  by (simp add: finish_call_def put_call_absorbs)

lemma put_call_socks: "put_call r x (st\<lparr>ry_socks := ks\<rparr>) = (put_call r x st)\<lparr>ry_socks := ks\<rparr>"
  by (simp add: put_call_def)

lemma relay_send_absorbs: "relay_send r s m (put_call r y st) = relay_send r s m st"
proof (cases "ry_calls st r")
  case (Some c)
  then have "ry_calls (put_call r y st) r = Some (c\<lparr>kc_stage := y\<rparr>)" by (simp add: put_call_def)
  then show ?thesis
    by (simp add: relay_send_def Some put_call_absorbs put_call_socks split: option.split)
qed (simp add: relay_send_def put_call_def fun_upd_idem)

section \<open>The mutex invariant\<close>

lemma mutex_inv_look:
  assumes i: "mutex_inv st" and f: "ry_holder st = None" and w: "ry_waiting st = Look_Up r # xs"
    and c: "ry_calls st r = Some c"
  shows "mutex_inv (relay_look L r c (st\<lparr>ry_waiting := xs\<rparr>))"
proof -
  let ?st = "st\<lparr>ry_waiting := xs\<rparr>"
  have n: "nobody_holds ?st" using nobody_holds_inv [OF i f] by (simp add: nobody_holds_def)
  have wants: "stage_of st r = Some Wants_Lock" using mutex_invD(3) [OF i, of r] w by simp
  have free: "\<not> held x" if "stage_of st q = Some x" for q x
    using n that by (simp add: nobody_holds_def)
  have queue: "distinct xs" "Look_Up r \<notin> set xs" using mutex_invD(1) [OF i] w by simp_all
  have rest: "Look_Up q \<in> set xs \<longleftrightarrow> q \<noteq> r \<and> stage_of st q = Some Wants_Lock"
    "Add_Tunnel s \<in> set xs \<longleftrightarrow> sock_stage_of st s = Some Joining"
    "Drop_Tunnel s \<in> set xs \<longleftrightarrow> sock_stage_of st s = Some Leaving" for q s
    using mutex_invD(3) [OF i, of q] mutex_invD(4,5) [OF i, of s] w queue(2) by auto
  define st1 where "st1 = (answer_slot (kc_rid c) None ?st)
    \<lparr>ry_pending := hash_insert (kc_rid c) r (ry_pending (answer_slot (kc_rid c) None ?st)), ry_holder := Some r\<rparr>"
  have v: "ry_holder st1 = Some r" "ry_waiting st1 = xs" "stage_of st1 = stage_of st" "sock_stage_of st1 = sock_stage_of st"
    using answer_slot_free [OF n] by (simp_all add: st1_def)
  have inv1: "mutex_inv (put_call r Waits_Answer st1)"
    using queue rest free wants by (intro mutex_invI) (auto simp: v)
  have no: "mutex_inv (put_call r (At_Fallback False b) ?st)" for b
    using queue rest free wants f by (intro mutex_invI) (auto split: if_splits)
  have yes: "mutex_inv (put_call r (At_Fallback True b) st1)" "mutex_inv (finish_call r Panicked st1)"
    "mutex_inv (relay_send r s m st1)" for b s m
    using mutex_inv_put_held [OF inv1, of r "At_Fallback True b"] mutex_inv_finish [OF inv1, of r Panicked]
      mutex_inv_send [OF inv1, of r s m]
    by (simp_all add: v put_call_absorbs finish_call_absorbs relay_send_absorbs)
  show ?thesis
    using no yes by (simp add: relay_look_def Let_def flip: st1_def split: option.split)
qed

lemma mutex_inv_grant: "mutex_inv st \<Longrightarrow> mutex_inv (mutex_grant L st)"
proof -
  assume i: "mutex_inv st"
  show ?thesis
  proof (cases "ry_holder st = None \<and> ry_waiting st \<noteq> []")
    case True
    then obtain x xs where f: "ry_holder st = None" and w: "ry_waiting st = x # xs" by (cases "ry_waiting st") auto
    have d: "distinct (x # xs)" using mutex_invD(1) [OF i] w by simp
    have v: "ry_holder st = Some q \<longleftrightarrow> (\<exists>y. stage_of st q = Some y \<and> held y)"
      "Look_Up q \<in> set (x # xs) \<longleftrightarrow> stage_of st q = Some Wants_Lock"
      "Add_Tunnel s \<in> set (x # xs) \<longleftrightarrow> sock_stage_of st s = Some Joining"
      "Drop_Tunnel s \<in> set (x # xs) \<longleftrightarrow> sock_stage_of st s = Some Leaving" for q s
      using mutex_invD [OF i] w by auto
    show ?thesis
    proof (cases x)
      case (Add_Tunnel s)
      then obtain k where k: "ry_socks st s = Some k" using v(3) [of s] by (auto simp: sock_stage_of_def)
      have "mutex_inv (put_sock s Serving_Both (st\<lparr>ry_waiting := xs, ry_tunnels := hash_insert (ks_id k) s (ry_tunnels st)\<rparr>))"
        using d v Add_Tunnel v(3) [of s] by (intro mutex_invI) (auto simp: f)
      then show ?thesis by (simp add: mutex_grant_def f w Add_Tunnel k Let_def)
    next
      case (Drop_Tunnel s)
      then obtain k where k: "ry_socks st s = Some k" using v(4) [of s] by (auto simp: sock_stage_of_def)
      have "Drop_Tunnel q \<in> set xs \<longleftrightarrow> q \<noteq> s \<and> sock_stage_of st q = Some Leaving" for q
        using v(4) [of q] d Drop_Tunnel by auto
      then have "mutex_inv (put_sock s Gone (st\<lparr>ry_waiting := xs, ry_tunnels := hash_remove (ks_id k) (ry_tunnels st)\<rparr>))"
        using d v(1-3) Drop_Tunnel v(4) [of s] by (intro mutex_invI) (auto simp: f)
      then show ?thesis by (simp add: mutex_grant_def f w Drop_Tunnel k Let_def)
    next
      case (Look_Up r)
      then obtain c where c: "ry_calls st r = Some c" using v(2) [of r] by (auto simp: stage_of_def)
      show ?thesis
        using mutex_inv_look [OF i f w [unfolded Look_Up] c] by (simp add: mutex_grant_def f w Look_Up c Let_def)
    qed
  next
    case False
    with i show ?thesis by (auto simp: mutex_grant_def)
  qed
qed

lemma mutex_inv_join:
  assumes i: "mutex_inv st" and x: "(x, w) \<in> {(Joining, Add_Tunnel s), (Leaving, Drop_Tunnel s)}"
    and k: "ks_stage k = x" "sock_stage_of st s \<noteq> Some Joining" "sock_stage_of st s \<noteq> Some Leaving"
  shows "mutex_inv (st\<lparr>ry_socks := (ry_socks st)(s \<mapsto> k), ry_waiting := ry_waiting st @ [w]\<rparr>)"
  using mutex_invD [OF i] x k by (intro mutex_invI) auto

lemma put_sock_update: "ry_socks st s = Some k \<Longrightarrow> put_sock s x st = st\<lparr>ry_socks := (ry_socks st)(s \<mapsto> k\<lparr>ks_stage := x\<rparr>)\<rparr>"
  by (simp add: put_sock_def)

lemma mutex_inv_forward: "mutex_inv st \<Longrightarrow> mutex_inv (relay_forward L s ok st)"
proof -
  assume i: "mutex_inv st"
  show ?thesis
  proof (cases "ry_socks st s")
    case (Some k)
    show ?thesis
    proof (cases "ks_stage k \<in> {Serving_Both, Deaf}")
      case True
      then have no: "sock_stage_of st s \<noteq> Some Joining" "sock_stage_of st s \<noteq> Some Leaving"
        by (auto simp: sock_stage_of_def Some)
      from True show ?thesis
        by (auto simp: relay_forward_def Some i put_sock_update no
            intro!: mutex_inv_sock [OF i Some] mutex_inv_join [OF i] split: list.split option.split)
    qed (auto simp: relay_forward_def Some i)
  qed (simp add: relay_forward_def i)
qed

lemma mutex_inv_recv: "mutex_inv st \<Longrightarrow> mutex_inv (relay_recv L s m st)"
proof -
  assume i: "mutex_inv st"
  show ?thesis
  proof (cases "ry_socks st s")
    case (Some k)
    have p: "mutex_inv (put_sock s x st)" if "ks_stage k = Serving_Both" "x \<in> {Deaf, Broken}" for x
      using that by (auto simp: put_sock_update [OF Some] intro!: mutex_inv_sock [OF i Some])
    show ?thesis
      by (auto simp: relay_recv_def Some i p intro!: mutex_inv_answer_slot
          split: option.split relay_message.split)
  qed (simp add: relay_recv_def i)
qed

lemma mutex_inv_step: "mutex_inv st \<Longrightarrow> mutex_inv (relay_step L e st)"
proof (cases e)
  case (Relay_Connect s tid)
  assume i: "mutex_inv st"
  have "mutex_inv (st\<lparr>ry_socks := (ry_socks st)(s \<mapsto> k), ry_waiting := ry_waiting st @ [Add_Tunnel s]\<rparr>)"
    if "ks_stage k = Joining" "ry_socks st s = None" for k
    using that by (intro mutex_inv_join [OF i, where x = Joining]) (simp_all add: sock_stage_of_def)
  with i show ?thesis by (auto simp: Relay_Connect relay_connect_def)
next
  case (Relay_Ask r rid req)
  assume i: "mutex_inv st"
  have "mutex_inv (st\<lparr>ry_calls := (ry_calls st)(r \<mapsto> c)\<rparr>)"
    if "stage_of st r = None" "\<not> held (kc_stage c)" "kc_stage c \<noteq> Wants_Lock" for c
    using mutex_invD [OF i] that by (intro mutex_invI) auto
  moreover have "mutex_inv (st\<lparr>ry_calls := (ry_calls st)(r \<mapsto> c), ry_waiting := ry_waiting st @ [Look_Up r]\<rparr>)"
    if "stage_of st r = None" "kc_stage c = Wants_Lock" for c
    using mutex_invD [OF i] that by (intro mutex_invI) auto
  ultimately show ?thesis using i by (auto simp: Relay_Ask relay_ask_def stage_of_def)
next
  case (Relay_Retry r)
  assume i: "mutex_inv st"
  show ?thesis
  proof (cases "\<exists>s m. stage_of st r = Some (Sends s m)")
    case True
    then have "ry_holder st = Some r" using mutex_invD(2) [OF i, of r] by auto
    then show ?thesis
      by (auto simp: Relay_Retry relay_retry_def i intro!: mutex_inv_send split: option.split relay_stage.split)
  qed (auto simp: Relay_Retry relay_retry_def i stage_of_def split: option.split relay_stage.split)
next
  case (Relay_Fallback r res)
  assume i: "mutex_inv st"
  show ?thesis
  proof (cases "stage_of st r")
    case (Some x)
    show ?thesis
    proof (cases "ry_holder st = Some r")
      case True
      from mutex_inv_finish [OF i True] show ?thesis
        by (auto simp: Relay_Fallback relay_fallback_def i split: option.split relay_stage.split)
    next
      case False
      then have "\<not> held x" using mutex_invD(2) [OF i, of r] Some by auto
      then have "mutex_inv (finish_call r (Answered_With y) st)" if "x \<noteq> Wants_Lock" for y
        using mutex_invD [OF i] False Some that by (intro mutex_invI) auto
      with Some show ?thesis
        by (auto simp: Relay_Fallback relay_fallback_def i stage_of_def split: option.split relay_stage.split)
    qed
  qed (simp add: Relay_Fallback relay_fallback_def i stage_of_def split: option.split)
qed (auto simp: mutex_inv_grant mutex_inv_forward mutex_inv_recv)

lemma mutex_inv_run: "mutex_inv st \<Longrightarrow> mutex_inv (run_relay L es st)"
  by (induction L es st rule: run_relay.induct) (simp_all add: mutex_inv_step)

lemma mutex_inv_init: "mutex_inv init_relay"
  by (simp add: mutex_inv_def init_relay_def stage_of_def sock_stage_of_def)

text \<open>
  C28. In every state of the relay the holder of its mutex is the request that is sending to a tunnel,
  waiting for the answer or waiting for the fallback after that (so there is at most one of these), and
  the queue of the mutex has exactly the sockets that join or leave and the requests before their lookup.
\<close>

theorem relay_serialises_requests: "mutex_inv (run_relay L es init_relay)"
  by (rule mutex_inv_run [OF mutex_inv_init])

section \<open>A request that is never answered\<close>

definition silent :: "('h, 'm) relay_lib_scheme \<Rightarrow> string \<Rightarrow> 'h relay_event \<Rightarrow> bool" where
  "silent L rid e =
     (case e of
        Relay_Recv s (Some t) \<Rightarrow> (case msg_from_json L t of Some (Relay_Response rid' code hs body) \<Rightarrow> rid' \<noteq> rid | _ \<Rightarrow> True)
      | _ \<Rightarrow> True)"

definition unanswered :: "nat \<Rightarrow> string \<Rightarrow> 'h relay_sys \<Rightarrow> bool" where
  "unanswered r rid st =
     (ry_holder st = Some r
      \<and> (\<exists>c. ry_calls st r = Some c \<and> kc_stage c = Waits_Answer \<and> kc_answer c = None)
      \<and> (\<forall>rid'. map_of (ry_pending st) rid' = Some r \<longrightarrow> rid' = rid))"

text \<open>What stays and what only grows while the holder waits.\<close>

definition stalled_by :: "nat \<Rightarrow> string \<Rightarrow> 'h relay_sys \<Rightarrow> 'h relay_sys \<Rightarrow> bool" where
  "stalled_by r rid st st' =
     (unanswered r rid st' \<and> ry_tunnels st' = ry_tunnels st \<and> (\<exists>ws. ry_waiting st' = ry_waiting st @ ws))"

lemma other_call_kept:
  assumes "unanswered r rid st" "q \<noteq> r"
  shows "unanswered r rid (put_call q x st)" "unanswered r rid (finish_call q x st)"
    "unanswered r rid (st\<lparr>ry_socks := ks\<rparr>)" "unanswered r rid (st\<lparr>ry_waiting := w\<rparr>)"
    "unanswered r rid (st\<lparr>ry_calls := (ry_calls st)(q := z)\<rparr>)"
    "unanswered r rid (st\<lparr>ry_pending := hash_remove k (ry_pending st)\<rparr>)"
  using assms by (auto simp: unanswered_def put_call_def finish_call_def split: if_splits)

lemma stalled_refl: "unanswered r rid st \<Longrightarrow> stalled_by r rid st st"
  by (simp add: stalled_by_def)

lemma stalled_trans: "stalled_by r rid st st' \<Longrightarrow> stalled_by r rid st' st'' \<Longrightarrow> stalled_by r rid st st''"
  by (auto simp: stalled_by_def)

lemma unanswered_stage: "unanswered r rid st \<Longrightarrow> ry_calls st q = Some c \<Longrightarrow> kc_stage c \<noteq> Waits_Answer \<Longrightarrow> q \<noteq> r"
  by (auto simp: unanswered_def)

lemma stalled_settle: "unanswered r rid st \<Longrightarrow> q \<noteq> r \<Longrightarrow> stalled_by r rid st (settle q st)"
  using other_call_kept [of r rid st q]
  by (auto simp: stalled_by_def settle_def unanswered_def split: option.split if_splits)

lemma stalled_answer_slot:
  assumes u: "unanswered r rid st" and n: "rid' \<noteq> rid"
  shows "stalled_by r rid st (answer_slot rid' a st)"
proof (cases "map_of (ry_pending st) rid'")
  case (Some q)
  then have q: "q \<noteq> r" using u n by (auto simp: unanswered_def)
  let ?st = "st\<lparr>ry_pending := hash_remove rid' (ry_pending st),
    ry_calls := (ry_calls st)(q := map_option (\<lambda>c. c\<lparr>kc_answer := Some a\<rparr>) (ry_calls st q))\<rparr>"
  have "unanswered r rid ?st" using u q by (auto simp: unanswered_def)
  from stalled_settle [OF this q] show ?thesis by (simp add: answer_slot_def Some stalled_by_def)
qed (simp add: answer_slot_def u stalled_refl)

lemma stalled_send:
  assumes u: "unanswered r rid st" and n: "q \<noteq> r"
  shows "stalled_by r rid st (relay_send q s m st)"
proof -
  have p: "stalled_by r rid st (settle q (put_call q Waits_Answer (st\<lparr>ry_socks := ks\<rparr>)))" for ks
    using stalled_settle [OF other_call_kept(1) [OF other_call_kept(3) [OF u n, of ks] n, of Waits_Answer] n]
    by (simp add: stalled_by_def)
  have b: "stalled_by r rid st ((put_call q x st)\<lparr>ry_pending := hash_remove k (ry_pending st)\<rparr>)" for x k
    using other_call_kept(6) [OF other_call_kept(1) [OF u n, of x] n, of k] by (simp add: stalled_by_def)
  show ?thesis
    using p b other_call_kept(1) [OF u n]
    by (simp add: relay_send_def stalled_refl u split: option.split) (simp add: stalled_by_def)
qed

lemma stalled_step:
  assumes u: "unanswered r rid st" and e: "silent L rid e"
  shows "stalled_by r rid st (relay_step L e st)"
proof (cases e)
  case (Relay_Connect s tid)
  with u show ?thesis by (auto simp: relay_connect_def stalled_by_def unanswered_def)
next
  case (Relay_Forward s ok)
  with u show ?thesis
    by (auto simp: relay_forward_def stalled_by_def unanswered_def put_sock_def split: option.split list.split)
next
  case (Relay_Recv s m)
  have k: "unanswered r rid (put_sock s x st)" for x using u by (simp add: unanswered_def)
  have b: "stalled_by r rid st (answer_slot rid' a (put_sock s x st))" if "rid' \<noteq> rid" for rid' a x
    using stalled_answer_slot [OF k that] by (simp add: stalled_by_def)
  show ?thesis
    using e by (auto simp: Relay_Recv relay_recv_def silent_def stalled_refl u b stalled_answer_slot
        stalled_by_def [of r rid st "put_sock s Deaf st"] k split: option.split relay_message.split)
next
  case (Relay_Ask q rid' req)
  show ?thesis
  proof (cases "ry_calls st q")
    case None
    then have "q \<noteq> r" using u by (auto simp: unanswered_def)
    with u show ?thesis by (auto simp: Relay_Ask relay_ask_def stalled_by_def unanswered_def)
  qed (simp add: Relay_Ask relay_ask_def stalled_refl u)
next
  case (Relay_Retry q)
  show ?thesis
    using unanswered_stage [OF u, of q]
    by (auto simp: Relay_Retry relay_retry_def stalled_refl u intro!: stalled_send [OF u]
        split: option.split relay_stage.split)
next
  case (Relay_Fallback q res)
  have "stalled_by r rid st (finish_call q x st)" if "q \<noteq> r" for x
    using other_call_kept(2) [OF u that] u that by (simp add: stalled_by_def unanswered_def)
  then show ?thesis
    using unanswered_stage [OF u, of q]
    by (auto simp: Relay_Fallback relay_fallback_def stalled_refl u split: option.split relay_stage.split)
next
  case Mutex_Grant
  with u show ?thesis by (auto simp: mutex_grant_def unanswered_def stalled_by_def)
qed

lemma stalled_run:
  assumes "unanswered r rid st" "list_all (silent L rid) es"
  shows "stalled_by r rid st (run_relay L es st)"
  using assms
proof (induction es arbitrary: st)
  case (Cons e es)
  then have s: "stalled_by r rid st (relay_step L e st)" by (auto intro: stalled_step)
  then have "unanswered r rid (relay_step L e st)" by (simp add: stalled_by_def)
  from Cons.IH [OF this] Cons.prems s show ?case by (auto intro: stalled_trans)
qed (simp add: stalled_refl)

section \<open>An instance\<close>

text \<open>Headers are lists; texts stand for one request and one answer with an id.\<close>

definition list_relay :: "(string \<times> string) list relay_lib" where
  "list_relay =
     \<lparr>hdr_empty = [], hdr_get = map_of, hdr_insert = (\<lambda>h n v. filter (\<lambda>e. fst e \<noteq> n) h @ [(n, v)]),
      hdr_iter = (\<lambda>h. h), visible = visible_ascii,
      value_ok = visible_ascii,
      header_name = (\<lambda>n. if n = [] then None else Some n), status_ok = (\<lambda>s. 100 \<le> s \<and> s < 1000),
      uri_ok = (\<lambda>u. u \<noteq> []), to_json = (\<lambda>m. Some ''{}''),
      add_header = (\<lambda>h n v. h @ [(n, v)]), msg_to_json = (\<lambda>m. case m of
          Relay_Request u v p h b \<Rightarrow> Some (CHR ''Q'' # u)
        | Relay_Response u c h b \<Rightarrow> Some (CHR ''A'' # u)
        | _ \<Rightarrow> None),
      msg_from_json = (\<lambda>t. case t of
          [] \<Rightarrow> None
        | c # u \<Rightarrow>
            if c = CHR ''Q'' then Some (Relay_Request u ''GET'' ''/x'' [(''host'', ''app.host'')] [])
            else if c = CHR ''A'' then Some (Relay_Response u 200 [(''x'', ''y'')] [1])
            else None),
      method_ok = (\<lambda>m. m \<noteq> [])\<rparr>"

definition ask_app :: "(string \<times> string) list relay_req" where
  "ask_app = \<lparr>kr_method = ''GET'', kr_uri = ''/x'', kr_headers = [(''host'', ''app.host'')], kr_body = Some []\<rparr>"

definition joined :: "(string \<times> string) list relay_event list" where
  "joined = [Relay_Connect 1 ''app'', Mutex_Grant]"

definition joined_sock :: relay_sock where
  "joined_sock = \<lparr>ks_id = ''app'', ks_stage = Serving_Both, ks_queue = [], ks_wire = []\<rparr>"

text \<open>
  A request with a new number and a new id that finds the mutex free and a tunnel with room: after the
  lookup it waits for the answer, with its message in the queue of the tunnel.
\<close>

definition relay_free :: "nat \<Rightarrow> string \<Rightarrow> 'h relay_sys \<Rightarrow> bool" where
  "relay_free r rid st =
     (ry_holder st = None \<and> ry_waiting st = [] \<and> ry_calls st r = None
      \<and> r \<notin> snd ` set (ry_pending st) \<and> map_of (ry_pending st) rid = None)"

definition finds_tunnel :: "('h, 'm) relay_lib_scheme \<Rightarrow> 'h relay_req \<Rightarrow> nat \<Rightarrow> relay_sock \<Rightarrow> 'h relay_sys \<Rightarrow> bool" where
  "finds_tunnel L req s k st =
     (\<exists>d. relay_subdomain L req = Some d \<and> map_of (ry_tunnels st) d = Some s
        \<and> ry_socks st s = Some k \<and> sock_alive k \<and> length (ks_queue k) < RELAY_QUEUE)"

definition relayed :: "('h, 'm) relay_lib_scheme \<Rightarrow> string \<Rightarrow> 'h relay_req \<Rightarrow> bytes \<Rightarrow> relay_message" where
  "relayed L rid req body = Relay_Request rid (kr_method req) (kr_uri req) (hdr_iter L (kr_headers req)) body"

definition sendable :: "('h, 'm) relay_lib_scheme \<Rightarrow> 'h relay_req \<Rightarrow> bytes \<Rightarrow> bool" where
  "sendable L req body = (kr_body req = Some body \<and> list_all (visible L) (map snd (hdr_iter L (kr_headers req))))"

lemma relay_look_up:
  assumes f: "relay_free r rid st" and t: "finds_tunnel L req s k st" and b: "sendable L req body"
  defines "st' \<equiv> run_relay L [Relay_Ask r rid req, Mutex_Grant] st"
  shows "unanswered r rid st'" "ry_tunnels st' = ry_tunnels st" "ry_waiting st' = []"
    "ry_socks st' s = Some (k\<lparr>ks_queue := ks_queue k @ [relayed L rid req body]\<rparr>)"
    "map_of (ry_pending st') rid = Some r"
proof -
  obtain d where d: "relay_subdomain L req = Some d" "map_of (ry_tunnels st) d = Some s"
    "ry_socks st s = Some k" "sock_alive k" "length (ks_queue k) < RELAY_QUEUE"
    using t by (auto simp: finds_tunnel_def)
  have no: "map_of (ry_pending st) q \<noteq> Some r" for q
    using f by (force simp: relay_free_def dest: map_of_SomeD)
  have "st' = put_call r Waits_Answer (st\<lparr>ry_pending := hash_insert rid r (ry_pending st), ry_holder := Some r,
      ry_calls := (ry_calls st)(r \<mapsto> \<lparr>kc_req = req, kc_rid = rid, kc_answer = None, kc_stage = Wants_Lock\<rparr>),
      ry_socks := (ry_socks st)(s \<mapsto> k\<lparr>ks_queue := ks_queue k @ [relayed L rid req body]\<rparr>)\<rparr>)"
    using f b d by (simp add: st'_def relay_free_def relay_ask_def mutex_grant_def relay_look_def sendable_def
        answer_slot_def relay_send_def settle_def put_call_def Let_def relayed_def)
  with f no show "unanswered r rid st'" "ry_tunnels st' = ry_tunnels st" "ry_waiting st' = []"
    "ry_socks st' s = Some (k\<lparr>ks_queue := ks_queue k @ [relayed L rid req body]\<rparr>)"
    "map_of (ry_pending st') rid = Some r"
    by (simp_all add: unanswered_def put_call_def relay_free_def)
qed

lemma run_relay_append: "run_relay L (es @ es') st = run_relay L es' (run_relay L es st)"
  by (induction L es st rule: run_relay.induct) simp_all

text \<open>
  One request that a tunnel never answers stops the whole relay: whatever happens later (except an
  answer with its id), it keeps the mutex, the set of tunnels stays as it is, and what waits for the
  mutex (sockets that register or leave, every other request with a host) goes on waiting. It is enough
  that the client of the tunnel is gone.
\<close>

theorem unanswered_request_stops_relay:
  assumes "relay_free r rid st" "finds_tunnel L req s k st" "sendable L req body"
    and "list_all (silent L rid) es"
  shows "stalled_by r rid st (run_relay L ([Relay_Ask r rid req, Mutex_Grant] @ es) st)"
proof -
  let ?st = "run_relay L [Relay_Ask r rid req, Mutex_Grant] st"
  have "ry_waiting st = []" using assms(1) by (simp add: relay_free_def)
  then show ?thesis
    using stalled_run [OF relay_look_up(1) [OF assms(1-3)] assms(4)] relay_look_up(2) [OF assms(1-3)]
    unfolding run_relay_append by (simp add: stalled_by_def)
qed

theorem unanswered_request_stops_relay_witness:
  "stalled_by 5 ''r5'' (run_relay list_relay (joined @ [Relay_Recv 1 None]) init_relay)
     (run_relay list_relay
        ([Relay_Ask 5 ''r5'' ask_app, Mutex_Grant]
         @ [Relay_Forward 1 True, Mutex_Grant, Relay_Connect 2 ''b'', Relay_Ask 6 ''r6'' ask_app, Mutex_Grant])
        (run_relay list_relay (joined @ [Relay_Recv 1 None]) init_relay))"
proof (rule unanswered_request_stops_relay)
  let ?st = "run_relay list_relay (joined @ [Relay_Recv 1 None]) init_relay"
  show "relay_free 5 ''r5'' ?st" unfolding relay_free_def by code_simp
  show "finds_tunnel list_relay ask_app 1 (joined_sock\<lparr>ks_stage := Deaf\<rparr>) ?st"
    unfolding finds_tunnel_def by (rule exI [of _ "''app''"]) code_simp
  show "sendable list_relay ask_app []" by code_simp
  show "list_all (silent list_relay ''r5'')
      [Relay_Forward 1 True, Mutex_Grant, Relay_Connect 2 ''b'', Relay_Ask 6 ''r6'' ask_app, Mutex_Grant]" by code_simp
qed

text \<open>A tunnel whose client answers.\<close>

lemma answered_request_is_served:
  assumes f: "relay_free r rid st" and t: "finds_tunnel L req s k st" and b: "sendable L req body"
    and k: "ks_stage k = Serving_Both" "ks_queue k = []"
    and out: "msg_to_json L (relayed L rid req body) = Some text_out"
    and got: "msg_from_json L text_in = Some (Relay_Response rid code hs answer)"
    and resp: "relay_response L code hs answer = Some response"
  defines "st' \<equiv> run_relay L [Relay_Ask r rid req, Mutex_Grant, Relay_Forward s True, Relay_Recv s (Some text_in)] st"
  shows "stage_of st' r = Some (Answered_With (Inr response)) \<and> ry_holder st' = None
    \<and> map_of (ry_pending st') rid = None \<and> ry_tunnels st' = ry_tunnels st
    \<and> ry_socks st' s = Some (k\<lparr>ks_wire := ks_wire k @ [text_out]\<rparr>)"
proof -
  let ?st = "run_relay L [Relay_Ask r rid req, Mutex_Grant] st"
  note u = relay_look_up [OF f t b]
  obtain c where c: "ry_calls ?st r = Some c" "kc_stage c = Waits_Answer" "kc_answer c = None" "ry_holder ?st = Some r"
    using u(1) unfolding unanswered_def by blast
  have "st' = relay_recv L s (Some text_in) (relay_forward L s True ?st)" by (simp add: st'_def)
  also have "relay_forward L s True ?st = ?st\<lparr>ry_socks := (ry_socks ?st)(s \<mapsto> k\<lparr>ks_wire := ks_wire k @ [text_out]\<rparr>)\<rparr>"
    using u(4) k by (cases k) (simp add: relay_forward_def out)
  finally show ?thesis
    using u c k by (simp add: relay_recv_def got resp answer_slot_def settle_def finish_call_def put_call_def stage_of_def)
qed

text \<open>
  C29. A request that finds the mutex free goes to the client of its tunnel, from there to the target with
  the visitor's method, path, headers and body, and the visitor gets the response of the target: status,
  headers and body, when the client's answer is sent and parsed as it was and the response is one that
  the library can build again. The mutex is free then, and no entry of the request is left.
\<close>

theorem target_response_reaches_visitor:
  assumes f: "relay_free r rid st" and t: "finds_tunnel L req s k st" and b: "sendable L req body"
    and k: "ks_stage k = Serving_Both" "ks_queue k = []"
    and out: "msg_to_json L (relayed L rid req body) = Some text_out" "msg_from_json L text_out = Some (relayed L rid req body)"
    and req: "client_request L turl (kr_method req) (kr_uri req) (hdr_iter L (kr_headers req)) body = Some treq"
    and resp: "target treq = Some (resp, True)" "list_all (visible L) (map snd (hdr_iter L (ar_headers resp)))"
    and again: "status_ok L (ar_status resp)" "add_headers L (hdr_iter L (ar_headers resp)) (hdr_empty L) = Some (ar_headers resp)"
    and answer: "client_recv L turl target text_out = Inr (Some m)"
    and got: "msg_to_json L m = Some text_in" "msg_from_json L text_in = Some m"
  defines "st' \<equiv> run_relay L [Relay_Ask r rid req, Mutex_Grant, Relay_Forward s True, Relay_Recv s (Some text_in)] st"
  shows "stage_of st' r = Some (Answered_With (Inr resp)) \<and> ry_holder st' = None
    \<and> map_of (ry_pending st') rid = None \<and> ry_tunnels st' = ry_tunnels st
    \<and> ry_socks st' s = Some (k\<lparr>ks_wire := ks_wire k @ [text_out]\<rparr>)"
proof -
  have "m = Relay_Response rid (ar_status resp) (hdr_iter L (ar_headers resp)) (ar_body resp)"
    using answer req resp by (simp add: client_recv_def out(2) relayed_def client_answer_def)
  then have m: "msg_from_json L text_in = Some (Relay_Response rid (ar_status resp) (hdr_iter L (ar_headers resp)) (ar_body resp))"
    using got(2) by simp
  have r: "relay_response L (ar_status resp) (hdr_iter L (ar_headers resp)) (ar_body resp) = Some resp"
    using again by (simp add: relay_response_def)
  show ?thesis unfolding st'_def by (rule answered_request_is_served [OF f t b k out(1) m r])
qed

definition ok_target :: "(string \<times> string) list relay_req \<Rightarrow> ((string \<times> string) list axum_response \<times> bool) option" where
  "ok_target req = Some (\<lparr>ar_status = 200, ar_headers = [(''x'', ''y'')], ar_body = [1]\<rparr>, True)"

theorem target_response_reaches_visitor_witness:
  "stage_of (run_relay list_relay [Relay_Ask 5 ''r5'' ask_app, Mutex_Grant, Relay_Forward 1 True, Relay_Recv 1 (Some ''Ar5'')]
       (run_relay list_relay joined init_relay)) 5
   = Some (Answered_With (Inr \<lparr>ar_status = 200, ar_headers = [(''x'', ''y'')], ar_body = [1]\<rparr>))"
proof (rule target_response_reaches_visitor [where turl = "''u''" and target = ok_target and k = joined_sock and body = "[]", THEN conjunct1])
  let ?st = "run_relay list_relay joined init_relay"
  show "relay_free 5 ''r5'' ?st" unfolding relay_free_def by code_simp
  show "finds_tunnel list_relay ask_app 1 joined_sock ?st"
    unfolding finds_tunnel_def by (rule exI [of _ "''app''"]) code_simp
  show "sendable list_relay ask_app []" by code_simp
  show "msg_to_json list_relay (relayed list_relay ''r5'' ask_app []) = Some ''Qr5''" by code_simp
  show "msg_from_json list_relay ''Qr5'' = Some (relayed list_relay ''r5'' ask_app [])" by code_simp
  show "client_request list_relay ''u'' (kr_method ask_app) (kr_uri ask_app) (hdr_iter list_relay (kr_headers ask_app)) []
    = Some (ask_app\<lparr>kr_uri := ''u/x''\<rparr>)" by code_simp
  show "ok_target (ask_app\<lparr>kr_uri := ''u/x''\<rparr>) = Some (\<lparr>ar_status = 200, ar_headers = [(''x'', ''y'')], ar_body = [1]\<rparr>, True)"
    by code_simp
  show "client_recv list_relay ''u'' ok_target ''Qr5'' = Inr (Some (Relay_Response ''r5'' 200 [(''x'', ''y'')] [1]))" by code_simp
  show "msg_to_json list_relay (Relay_Response ''r5'' 200 [(''x'', ''y'')] [1]) = Some ''Ar5''" by code_simp
  show "msg_from_json list_relay ''Ar5'' = Some (Relay_Response ''r5'' 200 [(''x'', ''y'')] [1])" by code_simp
qed (simp_all add: joined_sock_def list_relay_def visible_ascii_def)

section \<open>The body at the fallback backend\<close>

definition body_ok :: "'h relay_call \<Rightarrow> bool" where
  "body_ok c = (case kc_stage c of At_Fallback h b \<Rightarrow> b = (if h then Some [] else kr_body (kc_req c)) | _ \<Rightarrow> True)"

definition fallback_bodies :: "'h relay_sys \<Rightarrow> bool" where
  "fallback_bodies st = (\<forall>r c. ry_calls st r = Some c \<longrightarrow> body_ok c)"

text \<open>A stage that \<open>put_call\<close> may set, given the request.\<close>

lemma bodies_put:
  assumes "fallback_bodies st" "\<And>c h b. ry_calls st r = Some c \<Longrightarrow> x = At_Fallback h b \<Longrightarrow> b = (if h then Some [] else kr_body (kc_req c))"
  shows "fallback_bodies (put_call r x st)"
  using assms by (auto simp: fallback_bodies_def put_call_def body_ok_def split: if_splits relay_stage.split)

lemma bodies_finish: "fallback_bodies st \<Longrightarrow> (\<And>h b. x \<noteq> At_Fallback h b) \<Longrightarrow> fallback_bodies (finish_call r x st)"
  using bodies_put [of st r x] by (simp add: finish_call_def fallback_bodies_def)

lemma bodies_fields:
  "fallback_bodies (st\<lparr>ry_pending := p\<rparr>) = fallback_bodies st" "fallback_bodies (st\<lparr>ry_holder := h\<rparr>) = fallback_bodies st"
  "fallback_bodies (st\<lparr>ry_waiting := w\<rparr>) = fallback_bodies st" "fallback_bodies (st\<lparr>ry_socks := ks\<rparr>) = fallback_bodies st"
  "fallback_bodies (st\<lparr>ry_tunnels := t\<rparr>) = fallback_bodies st" "fallback_bodies (put_sock s y st) = fallback_bodies st"
  by (simp_all add: fallback_bodies_def put_sock_def)

lemma bodies_settle: "fallback_bodies st \<Longrightarrow> fallback_bodies (settle r st)"
  by (auto simp: settle_def bodies_fields intro!: bodies_finish bodies_put split: option.split)

lemma body_ok_answer: "body_ok (c\<lparr>kc_answer := z\<rparr>) = body_ok c"
  by (simp add: body_ok_def split: relay_stage.split)

lemma bodies_answer_slot: "fallback_bodies st \<Longrightarrow> fallback_bodies (answer_slot rid a st)"
proof -
  assume b: "fallback_bodies st"
  then have "fallback_bodies (st\<lparr>ry_pending := p, ry_calls := (ry_calls st)(r := map_option (\<lambda>c. c\<lparr>kc_answer := z\<rparr>) (ry_calls st r))\<rparr>)" for p r z
    by (auto simp: fallback_bodies_def body_ok_answer split: if_splits)
  then show ?thesis by (auto simp: answer_slot_def b intro!: bodies_settle split: option.split)
qed

lemma bodies_send: "fallback_bodies st \<Longrightarrow> fallback_bodies (relay_send r s m st)"
  by (auto simp: relay_send_def bodies_fields intro!: bodies_settle bodies_put split: option.split)

lemma bodies_look:
  assumes b: "fallback_bodies st" and c: "ry_calls st r = Some c"
  shows "fallback_bodies (relay_look L r c st)"
proof -
  have "fallback_bodies (put_call r (At_Fallback False (kr_body (kc_req c))) st)"
    by (rule bodies_put [OF b]) (simp add: c)
  then show ?thesis
    by (auto simp: relay_look_def Let_def bodies_fields b intro!: bodies_put bodies_finish bodies_send bodies_answer_slot split: option.split)
qed

lemma bodies_step: "fallback_bodies st \<Longrightarrow> fallback_bodies (relay_step L e st)"
proof (cases e)
  case (Relay_Ask r rid req)
  assume "fallback_bodies st"
  moreover have "fallback_bodies (st\<lparr>ry_calls := (ry_calls st)(r \<mapsto> c)\<rparr>)"
    if "fallback_bodies st" "kc_stage c \<in> {Wants_Lock, At_Fallback False (kr_body (kc_req c))}" for c
    using that by (auto simp: fallback_bodies_def body_ok_def split: if_splits)
  ultimately show ?thesis
    by (auto simp: Relay_Ask relay_ask_def bodies_fields)
next
  case Mutex_Grant
  assume "fallback_bodies st" then show ?thesis
    by (auto simp: Mutex_Grant mutex_grant_def bodies_fields Let_def intro!: bodies_look
        split: list.split mutex_waiter.split option.split)
qed (auto simp: relay_connect_def relay_forward_def relay_recv_def relay_retry_def relay_fallback_def bodies_fields
    intro!: bodies_answer_slot bodies_send bodies_finish
    split: list.split option.split relay_message.split relay_stage.split)

text \<open>
  At every moment, a request at the fallback backend without the mutex carries the body of the
  visitor, and one that got there from a tunnel that did not answer carries an empty body instead.
\<close>

theorem fallback_body_is_lost: "fallback_bodies (run_relay L es init_relay)"
proof -
  have "fallback_bodies st \<Longrightarrow> fallback_bodies (run_relay L es st)" for st
    by (induction L es st rule: run_relay.induct) (simp_all add: bodies_step)
  moreover have "fallback_bodies init_relay" by (simp add: fallback_bodies_def init_relay_def)
  ultimately show ?thesis by blast
qed

end
