(* ===== verification/Relay_Client.thy ===== *)
theory Relay_Client
  imports Relay_Props Conn
begin

text \<open>
  The program of \<open>src/client/src/main.rs\<close>, the client of the relay: it registers, reads requests, has a
  task for each that asks the target, and a task that writes the answers and a health message every five
  seconds. What it does with one message is \<open>client_recv\<close> of the theory \<open>Relay\<close>.
\<close>

section \<open>State\<close>

text \<open>
  A request by the text it came in: the target is being asked, the answer waits for room in the queue of
  the writer, it is queued, it was lost as the writer is gone, or its task has panicked.
\<close>

datatype request_stage =
    Proxying string
  | Answering string relay_message
  | Replied string relay_message
  | Lost_Answer string relay_message
  | Gave_Up string

text \<open>The writer's queue and what was written carry the number of the request, which the code does not have.\<close>

record relay_client =
  rk_reading :: bool
  rk_writing :: bool
  rk_requests :: "request_stage list"
  rk_queue :: "(nat \<times> relay_message) list"
  rk_wire :: "(nat option \<times> string) list"

definition WRITE_QUEUE :: nat where "WRITE_QUEUE = 100"

section \<open>Operations\<close>

text \<open>\<open>main\<close> up to its loop: the connection and the registration, whose errors end the program.\<close>

definition relay_client_start ::
  "('h, 'm) relay_lib_scheme \<Rightarrow> string \<Rightarrow> string \<Rightarrow> err + unit \<Rightarrow> bool \<Rightarrow> err + relay_client" where
  "relay_client_start L api_key subdomain linked sent_ok =
     rbind linked (\<lambda>_.
     case msg_to_json L (Relay_Register api_key subdomain) of
       None \<Rightarrow> Inl (Msg ''json'')
     | Some t \<Rightarrow>
         if sent_ok
         then Inr \<lparr>rk_reading = True, rk_writing = True, rk_requests = [], rk_queue = [], rk_wire = [(None, t)]\<rparr>
         else Inl (Io ''websocket''))"

definition is_request :: "('h, 'm) relay_lib_scheme \<Rightarrow> string \<Rightarrow> bool" where
  "is_request L t = (case msg_from_json L t of Some (Relay_Request rid meth path hs body) \<Rightarrow> True | _ \<Rightarrow> False)"

text \<open>A text of the relay: a request gets a task, anything else is dropped.\<close>

definition rk_text :: "('h, 'm) relay_lib_scheme \<Rightarrow> string \<Rightarrow> relay_client \<Rightarrow> relay_client" where
  "rk_text L t w = (if is_request L t then w\<lparr>rk_requests := rk_requests w @ [Proxying t]\<rparr> else w)"

text \<open>The target has answered, or failed, or its response cannot be passed on.\<close>

definition rk_target ::
  "('h, 'm) relay_lib_scheme \<Rightarrow> string \<Rightarrow> nat \<Rightarrow> ('h axum_response \<times> bool) option \<Rightarrow> relay_client \<Rightarrow> relay_client" where
  "rk_target L target_url i outcome w =
     (if length (rk_requests w) \<le> i then w
      else case rk_requests w ! i of
        Proxying t \<Rightarrow>
          (case client_recv L target_url (\<lambda>_. outcome) t of
             Inl f \<Rightarrow> w\<lparr>rk_requests := (rk_requests w)[i := Gave_Up t]\<rparr>
           | Inr None \<Rightarrow> w
           | Inr (Some m) \<Rightarrow> w\<lparr>rk_requests := (rk_requests w)[i := Answering t m]\<rparr>)
      | _ \<Rightarrow> w)"

text \<open>\<open>tx.send\<close>: an error when the writer is gone, a wait while its queue is full.\<close>

definition rk_send :: "nat \<Rightarrow> relay_client \<Rightarrow> relay_client" where
  "rk_send i w =
     (if length (rk_requests w) \<le> i then w
      else case rk_requests w ! i of
        Answering t m \<Rightarrow>
          if \<not> rk_writing w then w\<lparr>rk_requests := (rk_requests w)[i := Lost_Answer t m]\<rparr>
          else if WRITE_QUEUE \<le> length (rk_queue w) then w
          else w\<lparr>rk_requests := (rk_requests w)[i := Replied t m], rk_queue := rk_queue w @ [(i, m)]\<rparr>
      | _ \<Rightarrow> w)"

text \<open>The writer: a failed write ends its loop, a message that cannot be encoded panics its task.\<close>

definition rk_put :: "('h, 'm) relay_lib_scheme \<Rightarrow> bool \<Rightarrow> nat option \<Rightarrow> relay_message \<Rightarrow> relay_client \<Rightarrow> relay_client" where
  "rk_put L ok tag m w =
     (case msg_to_json L m of
        Some t \<Rightarrow> if ok then w\<lparr>rk_wire := rk_wire w @ [(tag, t)]\<rparr> else w\<lparr>rk_writing := False, rk_queue := []\<rparr>
      | None \<Rightarrow> w\<lparr>rk_writing := False, rk_queue := []\<rparr>)"

definition rk_write :: "('h, 'm) relay_lib_scheme \<Rightarrow> bool \<Rightarrow> relay_client \<Rightarrow> relay_client" where
  "rk_write L ok w =
     (case rk_queue w of
        [] \<Rightarrow> w
      | (i, m) # q \<Rightarrow> if rk_writing w then rk_put L ok (Some i) m (w\<lparr>rk_queue := q\<rparr>) else w)"

definition rk_health :: "('h, 'm) relay_lib_scheme \<Rightarrow> bool \<Rightarrow> relay_client \<Rightarrow> relay_client" where
  "rk_health L ok w = (if rk_writing w then rk_put L ok None (Relay_Health 0 0) w else w)"

datatype 'h relay_client_event =
    Rk_Text string
  | Rk_Read_Error
  | Rk_Closed
  | Rk_Target nat "('h axum_response \<times> bool) option"
  | Rk_Send nat
  | Rk_Write bool
  | Rk_Health_Tick bool

text \<open>When \<open>main\<close> returns, all tasks end with it.\<close>

definition relay_client_step ::
  "('h, 'm) relay_lib_scheme \<Rightarrow> string \<Rightarrow> 'h relay_client_event \<Rightarrow> relay_client \<Rightarrow> relay_client" where
  "relay_client_step L target_url e w =
     (if \<not> rk_reading w then w
      else case e of
        Rk_Text t \<Rightarrow> rk_text L t w
      | Rk_Read_Error \<Rightarrow> w
      | Rk_Closed \<Rightarrow> w\<lparr>rk_reading := False\<rparr>
      | Rk_Target i x \<Rightarrow> rk_target L target_url i x w
      | Rk_Send i \<Rightarrow> rk_send i w
      | Rk_Write ok \<Rightarrow> rk_write L ok w
      | Rk_Health_Tick ok \<Rightarrow> rk_health L ok w)"

fun run_relay_client ::
  "('h, 'm) relay_lib_scheme \<Rightarrow> string \<Rightarrow> 'h relay_client_event list \<Rightarrow> relay_client \<Rightarrow> relay_client" where
  "run_relay_client L target_url [] w = w"
| "run_relay_client L target_url (e # es) w = run_relay_client L target_url es (relay_client_step L target_url e w)"

section \<open>Answers\<close>

text \<open>A request whose answer is what the client makes of an outcome of the target.\<close>

definition answer_of :: "('h, 'm) relay_lib_scheme \<Rightarrow> string \<Rightarrow> string \<Rightarrow> relay_message \<Rightarrow> bool" where
  "answer_of L target_url t m = (is_request L t \<and> (\<exists>x. client_recv L target_url (\<lambda>_. x) t = Inr (Some m)))"

fun stage_ok :: "('h, 'm) relay_lib_scheme \<Rightarrow> string \<Rightarrow> request_stage \<Rightarrow> bool" where
  "stage_ok L target_url (Proxying t) = is_request L t"
| "stage_ok L target_url (Answering t m) = answer_of L target_url t m"
| "stage_ok L target_url (Replied t m) = answer_of L target_url t m"
| "stage_ok L target_url (Lost_Answer t m) = answer_of L target_url t m"
| "stage_ok L target_url (Gave_Up t) = is_request L t"

definition wire_tags :: "(nat option \<times> string) list \<Rightarrow> nat list" where
  "wire_tags ws = List.map_filter fst ws"

definition rk_inv :: "('h, 'm) relay_lib_scheme \<Rightarrow> string \<Rightarrow> relay_client \<Rightarrow> bool" where
  "rk_inv L target_url w =
     ((\<forall>q \<in> set (rk_requests w). stage_ok L target_url q) \<and>
      distinct (wire_tags (rk_wire w) @ map fst (rk_queue w)) \<and>
      (\<forall>(i, m) \<in> set (rk_queue w). i < length (rk_requests w) \<and> (\<exists>t. rk_requests w ! i = Replied t m)) \<and>
      (\<forall>i s. (Some i, s) \<in> set (rk_wire w) \<longrightarrow>
        i < length (rk_requests w) \<and> (\<exists>t m. rk_requests w ! i = Replied t m \<and> msg_to_json L m = Some s)))"

lemma wire_tags_simps [simp]:
  "wire_tags [] = []" "wire_tags (ws @ [(None, s)]) = wire_tags ws" "wire_tags (ws @ [(Some i, s)]) = wire_tags ws @ [i]"
  by (simp_all add: wire_tags_def List.map_filter_def)

lemma wire_tags_set: "i \<in> set (wire_tags ws) \<longleftrightarrow> (\<exists>s. (Some i, s) \<in> set ws)"
  by (force simp: wire_tags_def List.map_filter_def)

lemma rk_invI:
  assumes "\<And>q. q \<in> set (rk_requests w) \<Longrightarrow> stage_ok L u q"
    and "distinct (wire_tags (rk_wire w) @ map fst (rk_queue w))"
    and "\<And>i m. (i, m) \<in> set (rk_queue w) \<Longrightarrow> i < length (rk_requests w) \<and> (\<exists>t. rk_requests w ! i = Replied t m)"
    and "\<And>i s. (Some i, s) \<in> set (rk_wire w) \<Longrightarrow>
        i < length (rk_requests w) \<and> (\<exists>t m. rk_requests w ! i = Replied t m \<and> msg_to_json L m = Some s)"
  shows "rk_inv L u w"
  using assms unfolding rk_inv_def by (intro conjI ballI allI impI) auto

lemma rk_invD:
  assumes "rk_inv L u w"
  shows "q \<in> set (rk_requests w) \<Longrightarrow> stage_ok L u q"
    and "distinct (wire_tags (rk_wire w) @ map fst (rk_queue w))"
    and "(i, m) \<in> set (rk_queue w) \<Longrightarrow> i < length (rk_requests w) \<and> (\<exists>t. rk_requests w ! i = Replied t m)"
    and "(Some i, s) \<in> set (rk_wire w) \<Longrightarrow>
        i < length (rk_requests w) \<and> (\<exists>t m. rk_requests w ! i = Replied t m \<and> msg_to_json L m = Some s)"
  using assms unfolding rk_inv_def by auto

lemma rk_inv_stage: "rk_inv L u w \<Longrightarrow> i < length (rk_requests w) \<Longrightarrow> stage_ok L u (rk_requests w ! i)"
  using rk_invD(1) [of L u w "rk_requests w ! i"] by simp

lemma inv_text: "rk_inv L u w \<Longrightarrow> rk_inv L u (rk_text L t w)"
  by (cases "is_request L t") (auto simp: rk_text_def nth_append intro!: rk_invI dest: rk_invD)

text \<open>A request that is not answered moves on.\<close>

lemma inv_move:
  assumes "rk_inv L u w" "i < length (rk_requests w)" "\<forall>t m. rk_requests w ! i \<noteq> Replied t m" "stage_ok L u q"
  shows "rk_inv L u (w\<lparr>rk_requests := (rk_requests w)[i := q]\<rparr>)"
proof (rule rk_invI)
  fix q' assume "q' \<in> set (rk_requests (w\<lparr>rk_requests := (rk_requests w)[i := q]\<rparr>))"
  then have "q' = q \<or> q' \<in> set (rk_requests w)" using set_update_subset_insert [of "rk_requests w" i q] by auto
  with assms(4) rk_invD(1) [OF assms(1)] show "stage_ok L u q'" by blast
next
  fix j m assume "(j, m) \<in> set (rk_queue (w\<lparr>rk_requests := (rk_requests w)[i := q]\<rparr>))"
  with rk_invD(3) [OF assms(1), of j m] assms(3)
  show "j < length (rk_requests (w\<lparr>rk_requests := (rk_requests w)[i := q]\<rparr>)) \<and>
      (\<exists>t. rk_requests (w\<lparr>rk_requests := (rk_requests w)[i := q]\<rparr>) ! j = Replied t m)" by (cases "i = j") auto
next
  fix j s assume "(Some j, s) \<in> set (rk_wire (w\<lparr>rk_requests := (rk_requests w)[i := q]\<rparr>))"
  with rk_invD(4) [OF assms(1), of j s] assms(3)
  show "j < length (rk_requests (w\<lparr>rk_requests := (rk_requests w)[i := q]\<rparr>)) \<and>
      (\<exists>t m. rk_requests (w\<lparr>rk_requests := (rk_requests w)[i := q]\<rparr>) ! j = Replied t m \<and> msg_to_json L m = Some s)"
    by (cases "i = j") auto
qed (use rk_invD(2) [OF assms(1)] in simp)

lemma inv_target:
  assumes "rk_inv L u w"
  shows "rk_inv L u (rk_target L u i x w)"
proof (cases "i < length (rk_requests w) \<and> (\<exists>t. rk_requests w ! i = Proxying t)")
  case True
  then obtain t where t: "i < length (rk_requests w)" "rk_requests w ! i = Proxying t" by blast
  then have q: "is_request L t"
    using rk_inv_stage [OF assms, of i] by simp
  have "rk_inv L u (w\<lparr>rk_requests := (rk_requests w)[i := Gave_Up t]\<rparr>)"
    by (rule inv_move [OF assms t(1)]) (use t(2) q in \<open>simp_all\<close>)
  moreover have "rk_inv L u (w\<lparr>rk_requests := (rk_requests w)[i := Answering t m]\<rparr>)"
    if "client_recv L u (\<lambda>_. x) t = Inr (Some m)" for m
    by (rule inv_move [OF assms t(1)]) (use t(2) q that in \<open>auto simp: answer_of_def\<close>)
  ultimately show ?thesis using t assms by (auto simp: rk_target_def split: sum.split option.split)
next
  case False
  with assms show ?thesis by (auto simp: rk_target_def split: request_stage.split)
qed

lemma inv_send:
  assumes "rk_inv L u w"
  shows "rk_inv L u (rk_send i w)"
proof (cases "i < length (rk_requests w) \<and> (\<exists>t m. rk_requests w ! i = Answering t m)")
  case True
  then obtain t m where t: "i < length (rk_requests w)" "rk_requests w ! i = Answering t m" by blast
  then have a: "answer_of L u t m"
    using rk_inv_stage [OF assms, of i] by simp
  have mv: "rk_inv L u (w\<lparr>rk_requests := (rk_requests w)[i := q]\<rparr>)" if "stage_ok L u q" for q
    by (rule inv_move [OF assms t(1) _ that]) (use t(2) in simp)
  have new: "i \<notin> set (wire_tags (rk_wire w))" "i \<notin> fst ` set (rk_queue w)"
    using rk_invD(3) [OF assms, of i] rk_invD(4) [OF assms, of i] t(2) by (auto simp: wire_tags_set)
  let ?w = "w\<lparr>rk_requests := (rk_requests w)[i := Replied t m]\<rparr>"
  have i: "rk_inv L u ?w" by (rule mv) (simp add: a)
  have "rk_inv L u (w\<lparr>rk_requests := (rk_requests w)[i := Replied t m], rk_queue := rk_queue w @ [(i, m)]\<rparr>)"
  proof (rule rk_invI)
    show "distinct (wire_tags (rk_wire (w\<lparr>rk_requests := (rk_requests w)[i := Replied t m], rk_queue := rk_queue w @ [(i, m)]\<rparr>)) @
        map fst (rk_queue (w\<lparr>rk_requests := (rk_requests w)[i := Replied t m], rk_queue := rk_queue w @ [(i, m)]\<rparr>)))"
      using rk_invD(2) [OF assms] new by auto
  qed (use rk_invD(1,3,4) [OF i] t(1) in auto)
  moreover have "rk_inv L u (w\<lparr>rk_requests := (rk_requests w)[i := Lost_Answer t m]\<rparr>)"
    by (rule mv) (simp add: a)
  ultimately show ?thesis using t assms by (simp add: rk_send_def)
next
  case False
  with assms show ?thesis by (auto simp: rk_send_def split: request_stage.split)
qed

lemma inv_put:
  assumes "rk_inv L u w"
    and "\<And>i. tag = Some i \<Longrightarrow> i \<notin> set (wire_tags (rk_wire w)) \<and> i \<notin> fst ` set (rk_queue w) \<and>
      i < length (rk_requests w) \<and> (\<exists>t. rk_requests w ! i = Replied t m)"
  shows "rk_inv L u (rk_put L ok tag m w)"
proof -
  have "rk_inv L u (w\<lparr>rk_writing := False, rk_queue := []\<rparr>)"
    by (rule rk_invI) (use rk_invD [OF assms(1)] in auto)
  moreover have "rk_inv L u (w\<lparr>rk_wire := rk_wire w @ [(tag, s)]\<rparr>)" if "msg_to_json L m = Some s" for s
  proof (rule rk_invI)
    show "distinct (wire_tags (rk_wire (w\<lparr>rk_wire := rk_wire w @ [(tag, s)]\<rparr>)) @
        map fst (rk_queue (w\<lparr>rk_wire := rk_wire w @ [(tag, s)]\<rparr>)))"
      using rk_invD(2) [OF assms(1)] assms(2) by (cases tag) auto
  qed (use rk_invD(1,3,4) [OF assms(1)] assms(2) that in auto)
  ultimately show ?thesis by (simp add: rk_put_def split: option.split)
qed

lemma inv_write:
  assumes "rk_inv L u w"
  shows "rk_inv L u (rk_write L ok w)"
proof (cases "rk_queue w")
  case (Cons p q)
  obtain i m where p: "p = (i, m)" by (cases p)
  have "rk_inv L u (w\<lparr>rk_queue := q\<rparr>)"
    by (rule rk_invI) (use rk_invD [OF assms] Cons in auto)
  then have "rk_inv L u (rk_put L ok (Some i) m (w\<lparr>rk_queue := q\<rparr>))"
    by (rule inv_put) (use rk_invD(2,3) [OF assms] Cons p in auto)
  with Cons p assms show ?thesis by (simp add: rk_write_def)
qed (simp add: rk_write_def assms)

lemma inv_health: "rk_inv L u w \<Longrightarrow> rk_inv L u (rk_health L ok w)"
  by (auto simp: rk_health_def intro: inv_put)

lemma inv_step: "rk_inv L u w \<Longrightarrow> rk_inv L u (relay_client_step L u e w)"
proof (cases e)
  case Rk_Closed
  then show "rk_inv L u w \<Longrightarrow> ?thesis" by (auto simp: relay_client_step_def rk_inv_def)
qed (simp_all add: relay_client_step_def inv_text inv_target inv_send inv_write inv_health)

lemma inv_run: "rk_inv L u w \<Longrightarrow> rk_inv L u (run_relay_client L u es w)"
  by (induction es arbitrary: w) (simp_all add: inv_step)

lemma inv_start: "relay_client_start L key sub linked ok = Inr w \<Longrightarrow> rk_inv L u w"
  using wire_tags_simps(2) [of "[]"]
  by (auto simp: relay_client_start_def rbind_eq_Inr rk_inv_def split: option.splits if_splits)


text \<open>
  When the writer is gone nothing is written any more, while requests are still read and asked of the target.
\<close>

lemma gone_writer_is_silent:
  "\<not> rk_writing w \<Longrightarrow> rk_wire (run_relay_client L u es w) = rk_wire w \<and> \<not> rk_writing (run_relay_client L u es w)"
proof (induction es arbitrary: w)
  case (Cons e es)
  have "rk_wire (relay_client_step L u e w) = rk_wire w \<and> \<not> rk_writing (relay_client_step L u e w)"
    using Cons.prems
    by (auto simp: relay_client_step_def rk_text_def rk_target_def rk_send_def rk_write_def rk_health_def
        split: relay_client_event.split request_stage.split sum.split option.split list.split)
  with Cons.IH [of "relay_client_step L u e w"] show ?case by simp
qed simp

definition talking_relay :: "(string \<times> string) list relay_lib" where
  "talking_relay = list_relay\<lparr>msg_to_json := (\<lambda>m. case m of Relay_Response u c h b \<Rightarrow> Some (CHR ''A'' # u) | _ \<Rightarrow> Some ''{}'')\<rparr>"

definition answered_run :: "(string \<times> string) list relay_client_event list" where
  "answered_run = [Rk_Text ''Qr5'', Rk_Health_Tick True,
     Rk_Target 0 (Some (\<lparr>ar_status = 200, ar_headers = [], ar_body = []\<rparr>, True)), Rk_Send 0, Rk_Write True]"


end
