(* ===== verification/Tunnel_App_Abort.thy ===== *)
theory Tunnel_App_Abort
  imports Tunnel_App_Live
begin

text \<open>
  The end of the HTTP application by a panic: what can cause one, and how anyone can.
\<close>

section \<open>Nothing after a panic\<close>

lemma aborted_run: "as_aborted st \<Longrightarrow> run_app L secret checks es st = st"
  by (induction es) (simp_all add: app_step_def)

section \<open>Only panics end the application\<close>

text \<open>
  Events without the error of a library or of redis that a task unwraps: the commands of redis succeed, a
  report can be classified, the headers of a request to \<open>/tunnel\<close> are visible ASCII, and the routing
  handler does not panic.
\<close>

definition harmless :: "('h, 'm) app_lib_scheme \<Rightarrow> bool \<Rightarrow> 'h app_event \<Rightarrow> bool" where
  "harmless L checks e =
     (case e of
        First s now m redis_ok \<Rightarrow> redis_ok
      | Cleanup_Take redis_ok \<Rightarrow> redis_ok
      | Recv s now (Got (Ws_Text t)) \<Rightarrow>
          (case from_json L t of
             Some (HealthUpdate hw ts) \<Rightarrow> (case handle_hardware_data checks hw 85 of Inl e \<Rightarrow> False | Inr x \<Rightarrow> True)
           | _ \<Rightarrow> True)
      | Tunnel_Start r rid call \<Rightarrow> list_all (visible L) (map snd (hdr_iter L (tc_headers call)))
      | Proxy_Panic \<Rightarrow> False
      | _ \<Rightarrow> True)"

definition call_of :: "'h app_sys \<Rightarrow> nat \<Rightarrow> 'h tunnel_call option" where
  "call_of st r = map_option tr_call (as_calls st r)"

lemma call_of_cong: "as_calls st = as_calls st' \<Longrightarrow> call_of st = call_of st'"
  by (simp add: call_of_def fun_eq_iff)

lemma call_of_update [simp]:
  "call_of (panics st) = call_of st" "call_of (set_call r x st) = call_of st" "call_of (end_call r x st) = call_of st"
  "call_of (set_stage s y st) = call_of st" "call_of (st\<lparr>as_lock := l\<rparr>) = call_of st" "call_of (st\<lparr>as_app := a\<rparr>) = call_of st"
  "call_of (st\<lparr>as_sockets := ks\<rparr>) = call_of st" "call_of (st\<lparr>as_cleaner := z\<rparr>) = call_of st"
  by (auto simp: call_of_def fun_eq_iff option.map_comp comp_def)

lemma slot_keeps [simp]:
  "call_of (drop_slot rid st) = call_of st" "as_aborted (drop_slot rid st) = as_aborted st"
  "call_of (open_slot rid r st) = call_of st" "as_aborted (open_slot rid r st) = as_aborted st"
  "call_of (deliver L rid http st) = call_of st" "as_aborted (deliver L rid http st) = as_aborted st"
  by (auto simp: drop_slot_def open_slot_def deliver_def call_of_def fun_eq_iff Let_def option.map_comp comp_def split: option.splits)

lemma queue_send_keeps: "queue_send s msg st = Some st' \<Longrightarrow> call_of st' = call_of st \<and> as_aborted st' = as_aborted st"
  by (auto simp: queue_send_def split: option.splits if_splits)

lemma send_keeps [simp]:
  "call_of (tunnel_send L r rid s msg st) = call_of st" "as_aborted (tunnel_send L r rid s msg st) = as_aborted st"
  by (auto simp: tunnel_send_def tunnel_await_def dest!: queue_send_keeps split: option.split)

lemma look_keeps [simp]: "call_of (tunnel_look L r c st) = call_of st"
  by (auto simp: tunnel_look_def Let_def split: option.split)

lemma look_aborts:
  "as_aborted (tunnel_look L r c st) \<Longrightarrow> as_aborted st \<or> \<not> list_all (visible L) (map snd (hdr_iter L (tc_headers (tr_call c))))"
  by (auto simp: tunnel_look_def Let_def call_request_def split: option.splits if_splits)

text \<open>Every request of \<open>/tunnel\<close> so far has visible headers, and nothing has panicked.\<close>

definition sound :: "('h, 'm) app_lib_scheme \<Rightarrow> 'h app_sys \<Rightarrow> bool" where
  "sound L st =
     (\<not> as_aborted st \<and> (\<forall>r call. call_of st r = Some call \<longrightarrow> list_all (visible L) (map snd (hdr_iter L (tc_headers call)))))"

lemma sound_cong: "sound L st \<Longrightarrow> call_of st' = call_of st \<Longrightarrow> as_aborted st' = as_aborted st \<Longrightarrow> sound L st'"
  by (simp add: sound_def)

lemma sound_grant:
  assumes "sound L st"
  shows "sound L (grant_step L st)"
proof (cases "lock_grant (as_lock st)")
  case (Some g)
  obtain x l where g: "g = (x, l)" by (cases g)
  show ?thesis
  proof (cases x)
    case (Read r)
    have "\<not> as_aborted (tunnel_look L r c (st\<lparr>as_lock := l\<rparr>))" if "as_calls st r = Some c" for c
      using look_aborts [of L r c "st\<lparr>as_lock := l\<rparr>"] assms that by (auto simp: sound_def call_of_def)
    then show ?thesis using assms
      by (auto simp: grant_step_def Some g Read read_granted_def sound_def split: option.split call_stage.split)
  next
    case (Write w)
    then show ?thesis using assms
      by (auto simp: grant_step_def Some g write_granted_def intro: sound_cong split: option.split map_write.split)
  qed
qed (use assms in \<open>simp add: grant_step_def\<close>)

lemma sound_step:
  assumes s: "sound L st" and h: "harmless L checks e"
  shows "sound L (app_step L secret checks e st)"
proof -
  have "sound L (app_act L secret checks e st)"
  proof (cases e)
    case (First s' now m ok)
    with h show ?thesis
      by (auto simp: app_act_def socket_first_def harmless_def s call_of_def intro!: sound_cong [OF s]
          split: option.split received.split ws_message.split control_message.split)
  next
    case (Recv s' now m)
    with h show ?thesis
      by (auto simp: app_act_def socket_recv_def harmless_def s intro!: sound_cong [OF s]
          split: option.splits received.splits ws_message.splits control_message.splits sum.splits)
  next
    case (Tunnel_Start r rid call)
    with h s show ?thesis
      by (auto simp: app_act_def tunnel_start_def harmless_def sound_def call_of_def)
  next
    case (Tunnel_Retry r)
    then show ?thesis
      by (auto simp: app_act_def tunnel_retry_def s intro!: sound_cong [OF s] split: option.split call_stage.split)
  next
    case (Proxy_Send s' msg)
    then show ?thesis
      by (auto simp: app_act_def s intro!: sound_cong [OF s] dest: queue_send_keeps split: option.split)
  next
    case Grant
    with sound_grant [OF s] show ?thesis by (simp add: app_act_def)
  qed (use h in \<open>auto simp: app_act_def connect_socket_def socket_forward_def tell_cleanup_def cleanup_take_def harmless_def s
      call_of_def intro!: sound_cong [OF s] split: option.split list.split\<close>)
  with s show ?thesis by (simp add: app_step_def)
qed

text \<open>
  C32. The application ends with a panic only by what a task unwraps: as long as the commands of redis
  succeed, the reports can be classified, the headers of requests are visible ASCII and the routing
  handler does not panic, it goes on, in every interleaving.
\<close>

theorem application_ends_only_by_unwraps:
  assumes "list_all (harmless L checks) evs"
  shows "\<not> as_aborted (run_app L secret checks evs (init_app backend))"
proof -
  have "sound L st \<Longrightarrow> list_all (harmless L checks) es \<Longrightarrow> sound L (run_app L secret checks es st)" for es st
    by (induction es arbitrary: st) (simp_all add: sound_step)
  moreover have "sound L (init_app backend)" by (simp add: sound_def init_app_def call_of_def)
  ultimately show ?thesis using assms unfolding sound_def by blast
qed

theorem application_ends_only_by_unwraps_witness:
  "\<not> as_aborted (run_app list_app ''k'' True answered (init_app ''http://c''))"
  by (rule application_ends_only_by_unwraps) code_simp

section \<open>How anyone can end it\<close>

text \<open>
  One request ends the application: a visitor of \<open>/tunnel\<close> whose headers have a value that is not
  visible ASCII, for any tunnel that is registered, and without authentication. When the lock is free
  the program is over after the lookup, with every tunnel, whatever would come later.
\<close>

theorem invisible_header_ends_application:
  assumes "\<not> list_all (visible L) (map snd (hdr_iter L (tc_headers call)))"
    and "map_of (ap_tunnels (as_app st)) (tc_id call) = Some s" "as_lock st = new_lock"
    and "as_calls st r = None" "r \<notin> snd ` set (ap_responses (as_app st))" "r \<notin> fst ` set (as_answers st)"
  shows "as_aborted (run_app L secret checks ([Tunnel_Start r rid call, Grant, Grant] @ later) st)
    \<and> run_app L secret checks ([Tunnel_Start r rid call, Grant, Grant] @ later) st
      = run_app L secret checks [Tunnel_Start r rid call, Grant, Grant] st"
proof -
  have "as_aborted (run_app L secret checks [Tunnel_Start r rid call, Grant, Grant] st)"
    using assms by (simp add: app_step_def app_act_def tunnel_start_def grant_step_def lock_grant_def lock_request_def
        new_lock_def read_granted_def lock_release_def set_call_def tunnel_look_def call_request_def Let_def)
  then show ?thesis by (simp only: run_app_append aborted_run)
qed

definition umlaut :: "(string \<times> string) list tunnel_call" where
  "umlaut = get_x\<lparr>tc_headers := [(''x-name'', [char_of (252 :: nat)])]\<rparr>"

theorem invisible_header_ends_application_witness:
  "as_aborted (run_app list_app ''k'' True ([Tunnel_Start 5 ''r1'' umlaut, Grant, Grant] @ tunnel_ends)
    (run_app list_app ''k'' True registers (init_app ''http://c'')))"
proof (rule invisible_header_ends_application [where s = 1, THEN conjunct1])
  let ?st = "run_app list_app ''k'' True registers (init_app ''http://c'')"
  show "\<not> list_all (visible list_app) (map snd (hdr_iter list_app (tc_headers umlaut)))" by code_simp
  show "map_of (ap_tunnels (as_app ?st)) (tc_id umlaut) = Some 1" by code_simp
  have "lk_readers (as_lock ?st) = [] \<and> lk_queue (as_lock ?st) = []" by code_simp
  then show "as_lock ?st = new_lock" by (simp add: new_lock_def)
  show "as_calls ?st 5 = None" by code_simp
  show "5 \<notin> snd ` set (ap_responses (as_app ?st))" by code_simp
  show "5 \<notin> fst ` set (as_answers ?st)" by code_simp
qed

text \<open>
  A client ends it as well: with overflow checks, by a report that says more swap used than there is.
\<close>

theorem crashing_report_ends_application:
  assumes "\<not> as_aborted st" "socket_in Serving st s" "from_json L t = Some (HealthUpdate hw ts)"
    and "handle_hardware_data checks hw 85 = Inl e"
  shows "as_aborted (run_app L secret checks (Recv s now (Got (Ws_Text t)) # later) st)"
proof -
  have "as_aborted (app_step L secret checks (Recv s now (Got (Ws_Text t))) st)"
    using assms by (auto simp: app_step_def app_act_def socket_recv_def socket_in_def split: option.splits)
  then show ?thesis by (simp add: aborted_run)
qed

lemma swap_underflow:
  "handle_hardware_data True (idle_machine\<lparr>total_memory := 2, used_memory := 1, total_swap := 2, used_swap := 3\<rparr>) 85 = Inl (Panic ''attempt to subtract with overflow'')"
proof -
  have "f32 (f32 3 / f32 2) = 3 / 2" "f32 (f32 1 / f32 2) = 1 / 2" by code_simp+
  then show ?thesis
    by (simp add: handle_hardware_data_def idle_machine_def ratio_above_90_def at_most_one_left_def)
qed

end
