(* ===== verification/Agent.thy ===== *)
theory Agent
  imports Relay Tunnel_App_Abort "HOL-Library.Sublist"
begin

text \<open>
  The client of the HTTP application, \<open>src/rathole/src/bin/client.rs\<close>: it logs in, registers its
  tunnel and serves the requests one after the other, with a health report every ten seconds. Each event
  is one round of its loop.
\<close>

section \<open>Start\<close>

text \<open>The token is the text of the answer of the login, whatever its status.\<close>

definition agent_token :: "app_error + status_code \<times> string \<Rightarrow> string" where
  "agent_token answer = (case answer of Inl e \<Rightarrow> snd (into_response e) | Inr (code, t) \<Rightarrow> t)"

definition agent_register :: "('h, 'm) app_lib_scheme \<Rightarrow> app_error + status_code \<times> string \<Rightarrow> string option" where
  "agent_register L answer = to_json L (Register (agent_token answer) ''test'')"

section \<open>One request\<close>

record 'h agent_lib = "'h app_lib" +
  verb_ok :: "string \<Rightarrow> bool"

record 'h agent_request =
  aq_method :: string
  aq_uri :: string
  aq_headers :: 'h
  aq_body :: bytes

definition local_service :: string where "local_service = ''http://127.0.0.1:8000''"

text \<open>The request for the local service; \<open>None\<close> is an error of the library.\<close>

definition agent_request :: "('h, 'm) agent_lib_scheme \<Rightarrow> http_request \<Rightarrow> 'h agent_request option" where
  "agent_request L http =
     (if \<not> verb_ok L (rq_method http) \<or> \<not> uri_ok L (local_service @ rq_path http) then None
      else map_option (\<lambda>h. \<lparr>aq_method = rq_method http, aq_uri = local_service @ rq_path http, aq_headers = h, aq_body = rq_body http\<rparr>)
             (insert_headers L (rq_headers http) (hdr_empty L)))"

datatype agent_stage = Running | Returned_Ok | Returned_Err string | Agent_Panicked

text \<open>
  A text from the server: the message to send back, if any, or the end of the program. The local service
  is a parameter; reading the body of its response may fail.
\<close>

definition agent_handle ::
  "('h, 'm) agent_lib_scheme \<Rightarrow> ('h agent_request \<Rightarrow> ('h axum_response \<times> bool) option) \<Rightarrow> string \<Rightarrow> agent_stage + string option" where
  "agent_handle L service t =
     (case from_json L t of
        Some (Request rid http) \<Rightarrow>
          (case agent_request L http of
             None \<Rightarrow> Inl (Returned_Err ''request'')
           | Some req \<Rightarrow>
               (case service req of
                  None \<Rightarrow> Inl (Returned_Err ''connect'')
                | Some (resp, body_read) \<Rightarrow>
                    if \<not> list_all (visible L) (map snd (hdr_iter L (ar_headers resp))) then Inl Agent_Panicked
                    else if \<not> body_read then Inl (Returned_Err ''body'')
                    else (case to_json L (Response rid \<lparr>rs_status = ar_status resp, rs_headers = hdr_iter L (ar_headers resp), rs_body = ar_body resp\<rparr>) of
                            None \<Rightarrow> Inl (Returned_Err ''json'')
                          | Some m \<Rightarrow> Inr (Some m))))
      | _ \<Rightarrow> Inr None)"

section \<open>The loop\<close>

record agent =
  ag_stage :: agent_stage
  ag_wire :: "string list"

definition agent_send :: "string \<Rightarrow> bool \<Rightarrow> agent \<Rightarrow> agent" where
  "agent_send m send_ok a = (if send_ok then a\<lparr>ag_wire := ag_wire a @ [m]\<rparr> else a\<lparr>ag_stage := Returned_Ok\<rparr>)"

definition agent_hardware :: hardware_data where
  "agent_hardware =
     \<lparr>operating_system = ''Linux'', avg_memory_usage = 50, total_memory = 8 * 1024 * 1024 * 1024, used_memory = 4 * 1024 * 1024 * 1024,
      avg_swap_usage = 50, total_swap = 2 * 1024 * 1024 * 1024, used_swap = 1 * 1024 * 1024 * 1024, cpu_usage = 1 / 2,
      temps = \<lparr>avg_temp = None, max_temp = None\<rparr>, hw_timestamp = []\<rparr>"

text \<open>The end of the stream only disables its branch, so it is no event; then a failed report ends the loop.\<close>

datatype agent_event =
    Agent_Text string bool
  | Agent_Frame
  | Agent_Error
  | Agent_Tick string bool

fun agent_step ::
  "('h, 'm) agent_lib_scheme \<Rightarrow> ('h agent_request \<Rightarrow> ('h axum_response \<times> bool) option) \<Rightarrow> agent_event \<Rightarrow> agent \<Rightarrow> agent" where
  "agent_step L service (Agent_Text t send_ok) a =
     (case agent_handle L service t of
        Inl x \<Rightarrow> a\<lparr>ag_stage := x\<rparr>
      | Inr None \<Rightarrow> a
      | Inr (Some m) \<Rightarrow> agent_send m send_ok a)"
| "agent_step L service Agent_Frame a = a"
| "agent_step L service Agent_Error a = a\<lparr>ag_stage := Returned_Ok\<rparr>"
| "agent_step L service (Agent_Tick now send_ok) a =
     (case to_json L (HealthUpdate agent_hardware now) of
        None \<Rightarrow> a\<lparr>ag_stage := Returned_Err ''json''\<rparr>
      | Some m \<Rightarrow> agent_send m send_ok a)"

fun run_agent ::
  "('h, 'm) agent_lib_scheme \<Rightarrow> ('h agent_request \<Rightarrow> ('h axum_response \<times> bool) option) \<Rightarrow> agent_event list \<Rightarrow> agent \<Rightarrow> agent" where
  "run_agent L service [] a = a"
| "run_agent L service (e # es) a =
     (if ag_stage a = Running then run_agent L service es (agent_step L service e a) else a)"

section \<open>Answers in order\<close>

definition answered_id :: "('h, 'm) agent_lib_scheme \<Rightarrow> string \<Rightarrow> string option" where
  "answered_id L t = (case from_json L t of Some (Response rid http) \<Rightarrow> Some rid | _ \<Rightarrow> None)"

definition asked_id :: "('h, 'm) agent_lib_scheme \<Rightarrow> agent_event \<Rightarrow> string option" where
  "asked_id L e = (case e of Agent_Text t ok \<Rightarrow> (case from_json L t of Some (Request rid http) \<Rightarrow> Some rid | _ \<Rightarrow> None) | _ \<Rightarrow> None)"

fun somes :: "'a option list \<Rightarrow> 'a list" where
  "somes [] = []"
| "somes (None # xs) = somes xs"
| "somes (Some x # xs) = x # somes xs"

definition json_roundtrip :: "('h, 'm) agent_lib_scheme \<Rightarrow> bool" where
  "json_roundtrip L = (\<forall>m t. to_json L m = Some t \<longrightarrow> from_json L t = Some m)"

lemma somes_append [simp]: "somes (xs @ ys) = somes xs @ somes ys"
  by (induction xs rule: somes.induct) simp_all

lemma step_answers:
  assumes j: "json_roundtrip L" and r: "ag_stage a = Running"
  shows "\<exists>xs. somes (map (answered_id L) (ag_wire (agent_step L service e a))) = somes (map (answered_id L) (ag_wire a)) @ xs
    \<and> prefix xs (somes [asked_id L e]) \<and> (ag_stage (agent_step L service e a) = Running \<longrightarrow> xs = somes [asked_id L e])"
proof (cases e)
  case (Agent_Text t ok)
  show ?thesis
  proof (cases "agent_handle L service t")
    case (Inl x)
    then show ?thesis using r unfolding Agent_Text
      by (auto simp: agent_handle_def split: option.splits control_message.splits if_splits)
  next
    case (Inr z)
    show ?thesis
    proof (cases z)
      case None
      then show ?thesis using Inr unfolding Agent_Text
        by (auto simp: agent_handle_def asked_id_def split: option.splits control_message.splits if_splits)
    next
      case (Some m)
      then obtain rid http res where q: "from_json L t = Some (Request rid http)" "to_json L (Response rid res) = Some m"
        using Inr by (auto simp: agent_handle_def split: option.splits control_message.splits if_splits)
      then have "from_json L m = Some (Response rid res)" using j by (simp add: json_roundtrip_def)
      then show ?thesis using Inr Some q unfolding Agent_Text
        by (auto simp: agent_send_def asked_id_def answered_id_def)
    qed
  qed
next
  case (Agent_Tick now ok)
  show ?thesis
  proof (cases "to_json L (HealthUpdate agent_hardware now)")
    case (Some m)
    then have "from_json L m = Some (HealthUpdate agent_hardware now)" using j by (simp add: json_roundtrip_def)
    then show ?thesis by (auto simp: Agent_Tick Some agent_send_def asked_id_def answered_id_def)
  qed (auto simp: Agent_Tick asked_id_def)
qed (auto simp: asked_id_def)

lemma run_answers:
  assumes j: "json_roundtrip L"
  shows "\<exists>xs. somes (map (answered_id L) (ag_wire (run_agent L service es a))) = somes (map (answered_id L) (ag_wire a)) @ xs
    \<and> prefix xs (somes (map (asked_id L) es)) \<and> (ag_stage (run_agent L service es a) = Running \<longrightarrow> xs = somes (map (asked_id L) es))"
proof (induction es arbitrary: a)
  case (Cons e es)
  show ?case
  proof (cases "ag_stage a = Running")
    case True
    let ?b = "agent_step L service e a"
    obtain xs where x: "somes (map (answered_id L) (ag_wire ?b)) = somes (map (answered_id L) (ag_wire a)) @ xs"
      "prefix xs (somes [asked_id L e])" "ag_stage ?b = Running \<Longrightarrow> xs = somes [asked_id L e]"
      using step_answers [OF j True] by blast
    have s: "somes (map (asked_id L) (e # es)) = somes [asked_id L e] @ somes (map (asked_id L) es)"
      by (cases "asked_id L e") simp_all
    show ?thesis
    proof (cases "ag_stage ?b = Running")
      case r: True
      with Cons.IH [of ?b] x show ?thesis unfolding s by (auto simp: True)
    next
      case False
      then have "run_agent L service es ?b = ?b" by (cases es) simp_all
      with False x True show ?thesis unfolding s by (auto intro: prefix_append)
    qed
  qed auto
qed simp

end
