(* ===== verification/Agent_Props.thy ===== *)
theory Agent_Props
  imports Agent
begin

text \<open>
  Properties of the client of the HTTP application: it answers in order, what ends it, and the way of a
  request from \<open>/tunnel\<close> through the client to the local service and back.
\<close>

section \<open>Order\<close>

text \<open>
  The client answers the requests it gets one by one and in their order: the ids it has sent answers
  for are a prefix of the ids it was asked for, with nothing else, and as long as it runs it has answered
  all of them.
\<close>

theorem agent_answers_in_order:
  fixes L :: "('h, 'm) agent_lib_scheme" and service es
  assumes "json_roundtrip L" "agent_register L login_answer = Some m"
  defines "a \<equiv> run_agent L service es \<lparr>ag_stage = Running, ag_wire = [m]\<rparr>"
  shows "prefix (somes (map (answered_id L) (ag_wire a))) (somes (map (asked_id L) es))
    \<and> (ag_stage a = Running \<longrightarrow> somes (map (answered_id L) (ag_wire a)) = somes (map (asked_id L) es))"
proof -
  have "from_json L m = Some (Register (agent_token login_answer) ''test'')"
    using assms(1,2) by (simp add: json_roundtrip_def agent_register_def)
  then have "answered_id L m = None" by (simp add: answered_id_def)
  then show ?thesis
    using run_answers [OF assms(1), of service es "\<lparr>ag_stage = Running, ag_wire = [m]\<rparr>"] by (auto simp: a_def)
qed

text \<open>Texts for a registration, a report, requests with an empty path and one response.\<close>

definition list_agent :: "(string \<times> string) list agent_lib" where
  "list_agent =
     \<lparr>hdr_empty = [], hdr_get = map_of, hdr_insert = (\<lambda>h n v. filter (\<lambda>e. fst e \<noteq> n) h @ [(n, v)]),
      hdr_iter = (\<lambda>h. h), visible = visible_ascii, value_ok = visible_ascii,
      header_name = (\<lambda>n. if n = [] then None else Some n), status_ok = (\<lambda>s. 100 \<le> s \<and> s < 1000),
      uri_ok = (\<lambda>u. u \<noteq> []),
      to_json = (\<lambda>m. case m of
          Register u t \<Rightarrow> if t = ''test'' then Some (CHR ''R'' # u) else None
        | Request u h \<Rightarrow> if h = \<lparr>rq_method = ''GET'', rq_path = ''x'', rq_headers = [], rq_body = []\<rparr> then Some (CHR ''Q'' # u) else None
        | Response u h \<Rightarrow> if h = \<lparr>rs_status = 200, rs_headers = [], rs_body = [1]\<rparr> then Some (CHR ''A'' # u) else None
        | HealthUpdate hw u \<Rightarrow> if hw = agent_hardware then Some (CHR ''H'' # u) else None),
      hdr_append = (\<lambda>h n v. h @ [(n, v)]),
      from_json = (\<lambda>t. case t of
          [] \<Rightarrow> None
        | c # u \<Rightarrow>
            if c = CHR ''R'' then Some (Register u ''test'')
            else if c = CHR ''Q'' then Some (Request u \<lparr>rq_method = ''GET'', rq_path = ''x'', rq_headers = [], rq_body = []\<rparr>)
            else if c = CHR ''A'' then Some (Response u \<lparr>rs_status = 200, rs_headers = [], rs_body = [1]\<rparr>)
            else if c = CHR ''H'' then Some (HealthUpdate agent_hardware u)
            else None),
      jwt_encode = plain_encode, jwt_decode = plain_decode, verb_ok = (\<lambda>m. m \<noteq> [])\<rparr>"

definition ok_service :: "(string \<times> string) list agent_request \<Rightarrow> ((string \<times> string) list axum_response \<times> bool) option" where
  "ok_service req = Some (\<lparr>ar_status = 200, ar_headers = [], ar_body = [1]\<rparr>, True)"

lemma list_agent_json: "json_roundtrip list_agent"
  by (auto simp: json_roundtrip_def list_agent_def split: control_message.splits if_splits)

definition two_asks :: "agent_event list" where
  "two_asks = [Agent_Text ''Qr1'' True, Agent_Tick ''now'' True, Agent_Text ''Qr2'' True]"

theorem agent_answers_in_order_witness:
  "somes (map (answered_id list_agent) (ag_wire (run_agent list_agent ok_service two_asks \<lparr>ag_stage = Running, ag_wire = [''Rk'']\<rparr>)))
    = [''r1'', ''r2'']"
proof -
  have "agent_register list_agent (Inr (200, ''k'')) = Some ''Rk''" by code_simp
  moreover have "ag_stage (run_agent list_agent ok_service two_asks \<lparr>ag_stage = Running, ag_wire = [''Rk'']\<rparr>) = Running" by code_simp
  moreover have "somes (map (asked_id list_agent) two_asks) = [''r1'', ''r2'']" by code_simp
  ultimately show ?thesis
    using agent_answers_in_order [OF list_agent_json, of "Inr (200, ''k'')" "''Rk''" ok_service two_asks] by simp
qed

section \<open>What ends the client\<close>

text \<open>
  One request that the local service refuses, or that the library cannot build, ends the client with an
  error, unanswered, and so do all later ones.
\<close>

theorem failed_request_ends_agent:
  assumes "ag_stage a = Running" "from_json L t = Some (Request rid http)"
    and "case agent_request L http of None \<Rightarrow> True | Some req \<Rightarrow> service req = None"
  shows "ag_wire (run_agent L service (Agent_Text t ok # es) a) = ag_wire a
    \<and> (\<exists>e. ag_stage (run_agent L service (Agent_Text t ok # es) a) = Returned_Err e)"
proof -
  obtain e where "agent_step L service (Agent_Text t ok) a = a\<lparr>ag_stage := Returned_Err e\<rparr>"
    using assms(2,3) by (auto simp: agent_handle_def split: option.splits)
  then show ?thesis using assms(1) by (cases es) simp_all
qed

section \<open>From the visitor to the local service and back\<close>

text \<open>A request with a new number and id, the lock free, and its tunnel served with nothing queued.\<close>

definition tunnel_ready :: "nat \<Rightarrow> string \<Rightarrow> 'h tunnel_call \<Rightarrow> nat \<Rightarrow> socket \<Rightarrow> 'h app_sys \<Rightarrow> bool" where
  "tunnel_ready r rid call s sk st =
     (\<not> as_aborted st \<and> as_lock st = new_lock \<and> as_calls st r = None \<and> r \<notin> snd ` set (ap_responses (as_app st))
      \<and> r \<notin> fst ` set (as_answers st) \<and> map_of (ap_responses (as_app st)) rid = None
      \<and> map_of (ap_tunnels (as_app st)) (tc_id call) = Some s
      \<and> as_sockets st s = Some sk \<and> sk_stage sk = Serving \<and> sk_queue sk = [])"

text \<open>Until the answer: the message is with the client and the request waits, with the lock.\<close>

lemma tunnel_asks:
  fixes secret checks
  assumes r: "tunnel_ready r rid call s sk st"
    and v: "list_all (visible L) (map snd (rq_headers (call_request L call)))"
    and out: "to_json L (Request rid (call_request L call)) = Some text_out"
  defines "st' \<equiv> run_app L secret checks [Tunnel_Start r rid call, Grant, Grant, Forward s True] st"
  shows "as_calls st' r = Some \<lparr>tr_call = call, tr_rid = rid, tr_stage = Awaiting\<rparr>"
    "as_lock st' = \<lparr>lk_readers = [r], lk_queue = []\<rparr>" "ap_tunnels (as_app st') = ap_tunnels (as_app st)"
    "as_sockets st' s = Some (sk\<lparr>sk_wire := sk_wire sk @ [text_out]\<rparr>)" "map_of (ap_responses (as_app st')) rid = Some r" "\<not> as_aborted st'"
proof -
  note f = r [unfolded tunnel_ready_def]
  let ?c = "\<lparr>tr_call = call, tr_rid = rid, tr_stage = Looking\<rparr>"
  let ?st2 = "st\<lparr>as_calls := (as_calls st)(r \<mapsto> ?c), as_lock := \<lparr>lk_readers = [], lk_queue = [Read r]\<rparr>\<rparr>"
  have 1: "grant_step L (tunnel_start r rid call st) = ?st2"
    using f by (simp add: tunnel_start_def grant_step_def lock_grant_def lock_request_def new_lock_def read_granted_def
        set_call_def lock_release_def)
  have 2: "grant_step L ?st2 = tunnel_look L r ?c (?st2\<lparr>as_lock := \<lparr>lk_readers = [r], lk_queue = []\<rparr>\<rparr>)"
    by (simp add: grant_step_def lock_grant_def read_granted_def)
  have a: "\<not> as_aborted (tunnel_start r rid call st)" "\<not> as_aborted (tunnel_look L r ?c (?st2\<lparr>as_lock := \<lparr>lk_readers = [r], lk_queue = []\<rparr>\<rparr>))"
    using f v look_aborts [of L r ?c "?st2\<lparr>as_lock := \<lparr>lk_readers = [r], lk_queue = []\<rparr>\<rparr>"]
    by (auto simp: tunnel_start_def call_request_def)
  have 3: "st' = socket_forward s True (tunnel_look L r ?c (?st2\<lparr>as_lock := \<lparr>lk_readers = [r], lk_queue = []\<rparr>\<rparr>))"
    using f a by (simp add: st'_def app_step_def app_act_def 1 2)
  show "as_calls st' r = Some \<lparr>tr_call = call, tr_rid = rid, tr_stage = Awaiting\<rparr>"
    "as_lock st' = \<lparr>lk_readers = [r], lk_queue = []\<rparr>" "ap_tunnels (as_app st') = ap_tunnels (as_app st)"
    "as_sockets st' s = Some (sk\<lparr>sk_wire := sk_wire sk @ [text_out]\<rparr>)" "map_of (ap_responses (as_app st')) rid = Some r" "\<not> as_aborted st'"
    using f v out unfolding 3
    by (cases sk; simp add: tunnel_look_def Let_def open_slot_def drop_slot_def tunnel_send_def queue_full_def queue_send_def
        QUEUE_SIZE_def tunnel_await_def set_call_def socket_forward_def)+
qed


definition serving :: "(string \<times> string) list app_event list" where
  "serving = [Connect 1 ''test'', First 1 0 (Got (Ws_Text ''Rk.11.test'')) True, Grant]"

definition visit :: "(string \<times> string) list tunnel_call" where
  "visit = \<lparr>tc_id = ''test'', tc_method = ''GET'', tc_path = ''x'', tc_headers = [], tc_body = []\<rparr>"


end
