(* ===== verification/Entry.thy ===== *)
theory Entry
  imports Server_System Client Tunnel_App Config_Toml
begin

text \<open>
  Where the programs start: \<open>run\<close> of \<open>src/rathole/src/lib.rs\<close> with the command line of
  \<open>src/rathole/src/cli.rs\<close>, and the start of the HTTP application in \<open>src/rathole/src/main.rs\<close>.
\<close>

section \<open>run\<close>

record cli =
  cli_config_path :: "string option"
  cli_server :: bool
  cli_client :: bool

datatype run_error = Config_Error config_err | Instance_Error err

datatype started = Started_Server sys | Started_Client client_state | Started_Nothing

text \<open>
  The file is read once for the watcher and once for the instance: \<open>first\<close> and \<open>second\<close> are what the
  two reads find. The flag of the result says whether the watcher is told to exit.
\<close>

definition rathole_run ::
  "codec \<Rightarrow> (string \<Rightarrow> config_err + config) \<Rightarrow> cli \<Rightarrow> config_err + string \<Rightarrow> config_err + string
   \<Rightarrow> err + unit \<Rightarrow> srv_event list \<Rightarrow> config_change list \<Rightarrow> bool \<Rightarrow> fault + (run_error + started) \<times> bool" where
  "rathole_run k toml args first second ready evs es shutdown =
     (case cli_config_path args of
        None \<Rightarrow> Inr (Inl (Config_Error (Bad_Config ''config is not specified'')), False)
      | Some path \<Rightarrow>
          (case from_file toml first of
             Inl e \<Rightarrow> Inr (Inl (Config_Error e), False)
           | Inr watched \<Rightarrow>
               (case from_file toml second of
                  Inl e \<Rightarrow> Inr (Inl (Config_Error e), False)
                | Inr cfg \<Rightarrow>
                    if cli_server args
                    then rbind (run_server k cfg ready evs) (\<lambda>r. Inr (case r of
                           Inl e \<Rightarrow> (Inl (Instance_Error e), False)
                         | Inr s \<Rightarrow> (Inr (Started_Server s), True)))
                    else if cli_client args
                    then rbind (run_client cfg ready es shutdown) (\<lambda>r. Inr (case r of
                           Inl e \<Rightarrow> (Inl (Instance_Error e), False)
                         | Inr w \<Rightarrow> (Inr (Started_Client w), True)))
                    else Inr (Inr Started_Nothing, True))))"

text \<open>
  Without a flag nothing runs, whatever the configuration has, and that counts as success; with a flag
  for a part that the configuration lacks, \<open>run\<close> fails and the watcher stays behind.
\<close>

lemma run_needs_a_flag:
  assumes "cli_config_path args = Some p" "from_file toml first = Inr watched" "from_file toml second = Inr cfg"
  shows "\<not> cli_server args \<and> \<not> cli_client args
      \<Longrightarrow> rathole_run k toml args first second ready evs es shutdown = Inr (Inr Started_Nothing, True)"
    and "cli_server args \<Longrightarrow> server cfg = None
      \<Longrightarrow> \<exists>e. rathole_run k toml args first second ready evs es shutdown = Inr (Inl (Instance_Error e), False)"
    and "\<not> cli_server args \<Longrightarrow> cli_client args \<Longrightarrow> client cfg = None
      \<Longrightarrow> \<exists>e. rathole_run k toml args first second ready evs es shutdown = Inr (Inl (Instance_Error e), False)"
  using assms by (simp_all add: rathole_run_def run_server_def run_client_def)

section \<open>The start of the HTTP application\<close>

text \<open>
  \<open>main\<close> up to the listener. Whether redis, the root certificates and the address are there are inputs.
  The result is the secret of the tokens and the state the requests start from.
\<close>

definition start_main ::
  "(string \<Rightarrow> config_err + config) \<Rightarrow> config_err + string \<Rightarrow> bool \<Rightarrow> bool \<Rightarrow> bool \<Rightarrow> fault + (app_error + string \<times> 'h app_sys)" where
  "start_main toml file redis_ok roots_ok bind_ok =
     (case from_file toml file of
        Inl e \<Rightarrow> Inr (Inl (Other ''config''))
      | Inr cfg \<Rightarrow>
          (case server cfg of
             None \<Rightarrow> Inl (Panic ''called `Option::unwrap()` on a `None` value'')
           | Some sc \<Rightarrow>
               if \<not> redis_ok then Inr (Inl (Other ''redis''))
               else if \<not> roots_ok then Inl (Panic ''called `Result::unwrap()` on an `Err` value'')
               else if \<not> bind_ok then Inr (Inl (IoError ''bind''))
               else Inr (Inr (sc_jwt_secret sc,
                      init_app (case sc_default_cloud_backend sc of None \<Rightarrow> ''http://localhost:4000'' | Some b \<Rightarrow> b)))))"

text \<open>
  The application starts exactly with an accepted configuration that has a server part and its
  surroundings there; it panics for an accepted configuration of a client.
\<close>

theorem start_outcome:
  "(\<exists>secret st. start_main toml file redis_ok roots_ok bind_ok = Inr (Inr (secret, st :: 'h app_sys)))
     = (redis_ok \<and> roots_ok \<and> bind_ok \<and> (\<exists>cfg sc. from_file toml file = Inr cfg \<and> server cfg = Some sc))
   \<and> (\<exists>f. (start_main toml file redis_ok roots_ok bind_ok :: fault + (app_error + string \<times> 'h app_sys)) = Inl f)
     = (\<exists>cfg. from_file toml file = Inr cfg \<and> (server cfg = None \<or> redis_ok \<and> \<not> roots_ok))"
  by (auto simp: start_main_def split: sum.split option.split)

text \<open>
  The file \<open>config.toml\<close> of the repository starts the application, with the backend of the default; the
  document that the testing guide gives for it does not.
\<close>

definition shipped_config :: toml where
  "shipped_config = T_Table [(''server'', T_Table
     [(''bind_addr'', T_String ''0.0.0.0:2333''), (''default_token'', T_String ''123''),
      (''jwt_secret'', T_String ''your-super-secret-and-long-jwt-secret''),
      (''services'', T_Table
         [(''iperf3-udp'', T_Table [(''type'', T_String ''udp''), (''bind_addr'', T_String ''0.0.0.0:5202'')]),
          (''iperf3-tcp'', T_Table [(''type'', T_String ''tcp''), (''bind_addr'', T_String ''0.0.0.0:5202'')])])])]"

lemma shipped_config_starts:
  "start_main (toml_from_str (\<lambda>_. Inr shipped_config) parse_url) (Inr text) True True True =
    Inr (Inr (''your-super-secret-and-long-jwt-secret'', init_app ''http://localhost:4000''))"
  by (simp add: start_main_def from_file_def from_str_def toml_from_str_def in_context_def shipped_config_def de_config_def
      de_server_config_def de_server_service_def de_service_type_def de_hash_def opt_field_def field_def known_def
      update_option_def validate_server_config_def validate_transport_config_def default_transport_config_def
      default_tcp_config_def)

lemma guide_config_fails:
  "start_main (toml_from_str (\<lambda>_. Inr guide_server) parse_url) (Inr text) redis_ok roots_ok bind_ok = Inr (Inl (Other ''config''))"
proof -
  have "lacks_server_key guide_server"
    by (simp add: lacks_server_key_def guide_server_def necessary_server_keys_def)
  then show ?thesis
    by (simp add: start_main_def from_file_def from_str_def toml_from_str_def in_context_def lacks_server_key_rejected)
qed

end
