(* ===== verification/Spec2Isabelle.thy ===== *)
theory Spec2Isabelle
  imports Listener Unit_Tests Tcp_Service Udp_Live Control_Link Watch_Files Transport_Stack Tunnel_App_Wf Tunnel_App_Live Tunnel_App_Exit Relay_Client
    Agent_Props Entry
begin

text \<open>
  A verification development of rathole with the HTTP proxy (crate \<open>src/rathole\<close>): a reverse proxy
  for NAT traversal. A server with a public address accepts visitors; clients behind a NAT keep one
  control channel per service, and the server asks them over it for data channels, each of which
  carries one visitor (TCP) or all datagrams (UDP). Beside it an HTTP application routes requests to
  registered tunnels or to a cloud backend, depending on cookies and on the health of the tunnels.

  Theories and sources (paths under \<open>src/rathole/src/\<close>):

    \<open>Prelude\<close>: machine words, bytes, the sum type as \<open>Result\<close>, hash maps by their contract, strings.
    \<open>Float64\<close>: IEEE rounding of the floating point operations that occur.
    \<open>Multi_Map\<close>: \<open>multi_map.rs\<close>, on an explicit heap of boxes; locale \<open>two_key_table\<close> is what the
      server uses of it, interpreted as \<open>mm\<close>.
    \<open>Conn\<close>, \<open>Protocol\<close>, \<open>Bincode_Wire\<close>: \<open>protocol.rs\<close> over byte streams; locale \<open>wire_codec\<close> is
      the contract of bincode and SHA-256, interpreted as \<open>bincode\<close> on their documented formats.
    \<open>Config\<close>: \<open>config.rs\<close>. \<open>Config_Toml\<close>: the derived reading and writing of its structs, and the documents
      of \<open>examples/\<close>. \<open>Config_Watcher\<close>: \<open>config_watcher.rs\<close>; locale \<open>instance_config\<close> is the
      trait \<open>InstanceConfig\<close>, interpreted for servers (\<open>srv\<close>) and clients (\<open>clt\<close>). \<open>Watch_Files\<close>: its
      watcher among the files, with the paths and the notifications.
    \<open>Server\<close>: \<open>server.rs\<close>, one definition per stretch of a task between two waits.
      \<open>Server_System\<close> interleaves them (\<open>sys_step\<close>, \<open>run_server\<close>) and proves the invariant of the
      tables; \<open>Server_Props\<close> has the handshakes and the live channels, \<open>Server_Pools\<close> hot reload and
      the pools.
    \<open>Client\<close>, \<open>Client_Props\<close>: \<open>client.rs\<close>, alone and in the exchange with the server.
    \<open>Backoff\<close>: the policies of \<open>constants.rs\<close>, \<open>client.rs\<close> and \<open>server.rs\<close>; locale \<open>backoff_lib\<close> is the
      contract of the backoff library, interpreted as \<open>expo_lib\<close> on its documented algorithm. \<open>Retry\<close>: the
      task of a service at the client in time. \<open>Accept_Loop\<close>: the loop of \<open>Server::run\<close> in time.
    \<open>Retry_Loop\<close>: the connection of a data channel in time; locale \<open>retry_lib\<close> extends \<open>backoff_lib\<close> by the retry
      loop of that library, interpreted as \<open>expo_retry\<close>. \<open>Listener\<close>: \<open>tcp_listen_and_send\<close> of \<open>server.rs\<close> in time.
    \<open>Control_Link\<close>: the two ends of a control channel with the buffers between them.
    \<open>Tcp_Path\<close>, \<open>Udp_Path\<close>: the bytes of a visitor through both programs; locale \<open>copy_lib\<close> is the contract
      of \<open>copy_bidirectional\<close>, interpreted as \<open>some_copy\<close>. \<open>Tcp_Service\<close>: a visitor from its arrival on. \<open>Udp_Live\<close>: conversations
      of UDP visitors.
    \<open>Transport\<close>: \<open>transport/mod.rs\<close>, \<open>transport/tcp.rs\<close> and the addresses and proxies of
      \<open>helper.rs\<close>. \<open>Secure_Transport\<close>: how the transports of \<open>native_tls.rs\<close>, \<open>noise.rs\<close> and
      \<open>websocket.rs\<close> are built and connect. \<open>Websocket\<close>: the byte stream of \<open>transport/websocket.rs\<close>.
      \<open>Transport_Stack\<close>: listeners, streams under streams (locale \<open>stream_layers\<close>, interpreted as \<open>thin\<close>),
      control messages, the features of the crate, and \<open>rustls.rs\<close>.
    \<open>Health\<close>: the health marks of \<open>proxy.rs\<close> and \<open>hardware.rs\<close>.
    \<open>Routing\<close>, \<open>Routing_Props\<close>: the handler, the choice of a tunnel and the forwarding of \<open>proxy.rs\<close>;
      locale \<open>header_map\<close> is the contract of header maps, interpreted as \<open>list_http\<close>.
    \<open>Fair_Lock\<close>: the lock of tokio around shared maps; locale \<open>fair_lock\<close> is its contract, interpreted
      as \<open>tokio\<close>.
    \<open>Tunnel_App\<close>: \<open>main.rs\<close> (sockets, cleanup task, \<open>/tunnel\<close>) with the login and the errors of \<open>lib.rs\<close>
      and \<open>error.rs\<close>, interleaved (\<open>app_step\<close>, \<open>run_app\<close>). \<open>Tunnel_App_Inv\<close> has the invariant of the
      lock, \<open>Tunnel_App_Props\<close> answers and authentication, \<open>Tunnel_App_Block\<close> what an unanswered request
      does, \<open>Tunnel_App_Live\<close> registration and cleanup, \<open>Tunnel_App_Wf\<close> the shape of every state,
      \<open>Tunnel_App_Exit\<close> the end of \<open>main\<close>, \<open>Tunnel_App_Abort\<close> what ends the program earlier: the crate
      is built with \<open>panic = "abort"\<close>.
    \<open>Agent\<close>, \<open>Agent_Props\<close>: \<open>bin/client.rs\<close>, the client of that application, alone and with it.
    \<open>Entry\<close>: \<open>run\<close> of \<open>lib.rs\<close>, \<open>cli.rs\<close>, and the start of \<open>main.rs\<close>.
    \<open>Unit_Tests\<close>: the tests in \<open>config.rs\<close>, \<open>config_watcher.rs\<close> and \<open>proxy.rs\<close> as values over the model.
    \<open>Relay\<close>, \<open>Relay_Props\<close>: the crates \<open>src/relay\<close>, \<open>src/client\<close> and \<open>src/shared\<close>, an earlier relay with
      what its client does with a message (\<open>relay_step\<close>, \<open>run_relay\<close>, \<open>client_recv\<close>). \<open>Relay_Client\<close>: that
      client as a program.

  What is shown. \<open>MultiMap\<close> is memory safe and refines a list of triples. The two sides of a
  handshake agree on its outcome and on the session key; the server's table holds exactly the live,
  authenticated channels in every interleaving, and with a validated configuration without HTTP
  services the server never panics. A TCP visitor is served: the server asks for a data channel, the client
  opens it, it is paired with the visitor, and a conversation gets through; in any interleaving each side
  gets a prefix of what the other sent. UDP visitors are kept apart on the whole way,
  and every exchange of theirs that meets no failure is completed, also after pauses. The task of a service
  retries with bounded delays and ends after its signal, and the accept loop and the listener of a
  service end, within bounds; a data channel connects or gives up in time. A configuration is read back as
  it is written. Hot reload
  has the effect of a restart on both sides, and the watcher follows the file. Messages are received as
  sent, visitors are served in order, data channels reach their service, and the websocket transport is a
  byte stream. Health changes keep their distance in time; requests reach only registered, healthy tunnels,
  the best of their subdomain. In the HTTP application the tables and queues are well formed, registered
  tunnels are authenticated and an answer belongs to its request; there and in the relay the locks are in
  order in every interleaving, the response of the service behind a tunnel reaches the visitor as it is,
  and the relay's client answers a request at most once.
  Several theorems pin down behaviour that differs from the comments or the evident intent: one request
  that is never answered freezes the tunnels of the application and stops the relay, health reports that
  nobody reads stall a control channel, silent peers hold the accept loop, a websocket that is closed is an
  error for its reader, the documents that come with the program are rejected, one request with an
  invisible header ends the application, a refused token takes a tunnel down, a body is lost on the way to the fallback, a handshake races with a deleted service, a
  heartbeat timeout cannot fire, a failed report ends a service.

  Faults (panics, accesses to freed memory) are values of type \<open>fault\<close>, errors of \<open>anyhow\<close> values of
  type \<open>err\<close>. There is no fuel: the retry loop is a
  \<open>partial_function\<close>, whose value \<open>None\<close> is a loop that does not return, and the other loops over
  events recurse over the list of their inputs (arriving bytes, connections, timers, answers), which every theorem quantifies over. Bytes written are
  delivered in order; a stream can fail after any number of bytes.

  The interleaved programs (server, application, relay) are step functions over events, each one stretch
  of one task between two waits; theorems quantify over all sequences of events, so over all schedules.

  Times are natural numbers of nanoseconds. Where a theory is about time (\<open>Backoff\<close>, \<open>Retry\<close>,
  \<open>Retry_Loop\<close>, \<open>Listener\<close>, \<open>Accept_Loop\<close>, the loop of \<open>Client\<close>, \<open>Health\<close>) a computation takes none and only waits do.

  Not modelled: the sockets and name resolution of the system, the granularity of timers, cryptography and
  the upgrade to websockets, logging, the generated version information and the build script, and the
  libraries (tokio, hyper, serde, jsonwebtoken, redis, backoff, snowstorm, notify), which enter as
  parameters or inputs, or as the locales named above. The integration tests start processes and
  sockets and are left out; the unit tests are run on the model, where they find what they expect except in
  \<open>choice_test_fails\<close> and \<open>health_test_fails\<close>, and \<open>example_test_checks_nothing\<close> has its reason in the name.
\<close>

end
